(* ===== verification/Prelude.thy ===== *)
theory Prelude
  imports Main "HOL-Library.Word"
begin

unbundle bit_operations_syntax

text \<open>
  The common ground of the development: the machine integers and the addresses the kernel
  compares, the constants of \<^verbatim>\<open>kern/lib/x86.h\<close>, and the execution model of kernel
  code.

  A kernel function is a state transformer with six kinds of outcome. It returns a value; it gives
  the processor to another thread (in \<^verbatim>\<open>thread_sleep\<close> or \<^verbatim>\<open>thread_yield\<close>), in which case the
  outcome carries the state reached and the rest of the call, a function of the state in which
  the thread is resumed; it panics (\<^verbatim>\<open>KERN_PANIC\<close> or a failed
  \<^verbatim>\<open>KERN_ASSERT\<close>, in the configured build with \<^verbatim>\<open>DEBUG_MSG\<close>); it reads or writes
  outside a static array, which C leaves undefined (\<open>Fault\<close>); it follows a null pointer (\<open>Null\<close>); or it
  spins for ever on a spinlock that its own processor holds. The last four carry no state: nothing is claimed after them. A
  thread may sleep any number of times, so that outcomes form a codatatype.

  \<open>returns m s Q\<close> says that \<open>m\<close> started in \<open>s\<close> returns without a switch, and that \<open>Q\<close> holds of
  the value and the final state: it excludes every other outcome. \<open>completes E m s Q\<close> allows a
  finite number of switches, where \<open>E\<close> is a pair: \<open>fst E c t\<close> must hold where the thread gives up
  the processor in \<open>t\<close>, sleeping on \<open>c\<close>, and \<open>snd E c t u\<close> says that it may be resumed in \<open>u\<close>. Both are computed backwards by the simplifier
  from the rules in \<open>kwp\<close>. Straight-line code is also executed forwards, by rewriting \<open>m s\<close> to
  its outcome with the rules in \<open>kexec\<close>.
\<close>

named_theorems kwp \<open>backward rules for the kernel monad\<close>
named_theorems kexec \<open>forward execution of kernel code by rewriting\<close>
named_theorems kconst \<open>the numeric constants of the kernel headers\<close>

section \<open>Machine types\<close>

type_synonym u8 = "8 word"
type_synonym u16 = "16 word"
type_synonym u32 = "32 word"
type_synonym u64 = "64 word"

text \<open>
  The objects whose addresses are used as sleep channels. Only equality of channels matters
  to \<^verbatim>\<open>thread_wakeup\<close>; distinct objects have distinct addresses, none of them null.
\<close>

datatype chan =
    ChanNull
  | ChanBuf nat
  | ChanInode nat
  | ChanFlock nat
  | ChanLog

section \<open>Constants of \<^verbatim>\<open>kern/lib/x86.h\<close>\<close>

definition NUM_CPUS :: nat where [kconst]: "NUM_CPUS = 8"
definition NUM_IDS :: nat where [kconst]: "NUM_IDS = 64"
definition MagicNumber :: u32 where [kconst]: "MagicNumber = 1048577"
definition MAX_CHILDREN :: u32 where [kconst]: "MAX_CHILDREN = 3"
definition PAGESIZE :: u32 where [kconst]: "PAGESIZE = 4096"
definition PTE_P :: u32 where [kconst]: "PTE_P = 0x001"
definition PTE_W :: u32 where [kconst]: "PTE_W = 0x002"
definition PTE_U :: u32 where [kconst]: "PTE_U = 0x004"
definition PTE_G :: u32 where [kconst]: "PTE_G = 0x100"

section \<open>Outcomes of kernel code\<close>

datatype stop =
    Panic string
  | Fault
  | Null
  | Unterminated
  | Spin

codatatype ('a, 's) outcome =
    Ret 'a 's
  | Sleep chan 's "'s \<Rightarrow> ('a, 's) outcome"
  | Stop stop

type_synonym ('s, 'a) kmon = "'s \<Rightarrow> ('a, 's) outcome"

definition kret :: "'a \<Rightarrow> ('s, 'a) kmon" where
  "kret x = (\<lambda>s. Ret x s)"

primcorec obind :: "('a, 's) outcome \<Rightarrow> ('a \<Rightarrow> ('s, 'b) kmon) \<Rightarrow> ('b, 's) outcome" where
  "obind r f = (case r of
       Ret a t \<Rightarrow> f a t
     | Sleep c t k \<Rightarrow> Sleep c t (\<lambda>u. obind (k u) f)
     | Stop e \<Rightarrow> Stop e)"

definition kbind :: "('s, 'a) kmon \<Rightarrow> ('a \<Rightarrow> ('s, 'b) kmon) \<Rightarrow> ('s, 'b) kmon" where
  "kbind m f = (\<lambda>s. obind (m s) f)"

definition kthen :: "('s, 'a) kmon \<Rightarrow> ('s, 'b) kmon \<Rightarrow> ('s, 'b) kmon" where
  "kthen m n = kbind m (\<lambda>_. n)"

definition kget :: "('s \<Rightarrow> 'a) \<Rightarrow> ('s, 'a) kmon" where
  "kget f = (\<lambda>s. Ret (f s) s)"

definition kmodify :: "('s \<Rightarrow> 's) \<Rightarrow> ('s, unit) kmon" where
  "kmodify f = (\<lambda>s. Ret () (f s))"

definition kstop :: "stop \<Rightarrow> ('s, 'a) kmon" where
  "kstop e = (\<lambda>s. Stop e)"

definition kpanic :: "string \<Rightarrow> ('s, 'a) kmon" where
  "kpanic e = kstop (Panic e)"

definition kassert :: "bool \<Rightarrow> string \<Rightarrow> ('s, unit) kmon" where
  "kassert b e = (if b then kret () else kpanic e)"

text \<open>An access to a static array at an index; outside the array it is undefined in C.\<close>

definition kindex :: "nat \<Rightarrow> nat \<Rightarrow> ('s, unit) kmon" where
  "kindex i n = (\<lambda>s. if i < n then Ret () s else Stop Fault)"

text \<open>A condition under which C leaves the behaviour undefined unless it holds.\<close>

definition kdefined :: "bool \<Rightarrow> ('s, unit) kmon" where
  "kdefined b = (\<lambda>s. if b then Ret () s else Stop Fault)"

text \<open>An access to \<open>n\<close> bytes from offset \<open>a\<close> on of an object of \<open>m\<close> bytes.\<close>

abbreviation kspan :: "nat \<Rightarrow> nat \<Rightarrow> nat \<Rightarrow> ('s, unit) kmon" where
  "kspan a n m \<equiv> kdefined (a + n \<le> m)"

text \<open>The result of a pure function that may stop.\<close>

definition kres :: "stop + 'a \<Rightarrow> ('s, 'a) kmon" where
  "kres r = (case r of Inl e \<Rightarrow> kstop e | Inr x \<Rightarrow> kret x)"

definition kwhen :: "bool \<Rightarrow> ('s, unit) kmon \<Rightarrow> ('s, unit) kmon" where
  "kwhen b m = (if b then m else kret ())"

text \<open>\<open>for (i = lo; i < hi; i++) body\<close>, without and with an early exit from the body.\<close>

function kfor :: "nat \<Rightarrow> nat \<Rightarrow> (nat \<Rightarrow> ('s, unit) kmon) \<Rightarrow> ('s, unit) kmon" where
  "kfor i n body = (if i < n then kthen (body i) (kfor (Suc i) n body) else kret ())"
  by pat_completeness auto
termination
  by (relation "measure (\<lambda>(i, n, body). n - i)") auto

declare kfor.simps [simp del]

function kscan :: "nat \<Rightarrow> nat \<Rightarrow> (nat \<Rightarrow> ('s, 'r option) kmon) \<Rightarrow> ('s, 'r option) kmon" where
  "kscan i n body =
     (if i < n
      then kbind (body i) (\<lambda>r. case r of Some x \<Rightarrow> kret (Some x) | None \<Rightarrow> kscan (Suc i) n body)
      else kret None)"
  by pat_completeness auto
termination
  by (relation "measure (\<lambda>(i, n, body). n - i)") auto

declare kscan.simps [simp del]

text \<open>The same loop with a local variable that the body updates.\<close>

function kfold :: "nat \<Rightarrow> nat \<Rightarrow> (nat \<Rightarrow> 'a \<Rightarrow> ('s, 'a) kmon) \<Rightarrow> 'a \<Rightarrow> ('s, 'a) kmon" where
  "kfold i n body x =
     (if i < n then kbind (body i x) (\<lambda>y. kfold (Suc i) n body y) else kret x)"
  by pat_completeness auto
termination
  by (relation "measure (\<lambda>(i, n, body, x). n - i)") auto

declare kfold.simps [simp del]

text \<open>
  A loop whose every round but the last sleeps (\<open>while (busy) thread_sleep(...)\<close> and the
  \<open>goto loop\<close> of the buffer cache). The body says with \<open>Some\<close> that the loop is left and with
  \<open>None\<close> that it goes round again; a round that ends with \<open>None\<close> and has not slept would be
  busy waiting, which none of the loops does: it is the outcome \<open>Stop Spin\<close>.
\<close>

primcorec oloop :: "('s, 'r option) kmon \<Rightarrow> ('r option, 's) outcome \<Rightarrow> ('r, 's) outcome" where
  "oloop body r = (case r of
       Ret x t \<Rightarrow>
         (case x of
            Some y \<Rightarrow> Ret y t
          | None \<Rightarrow>
              (case body t of
                 Ret z u \<Rightarrow> (case z of Some y \<Rightarrow> Ret y u | None \<Rightarrow> Stop Spin)
               | Sleep c u k \<Rightarrow> Sleep c u (\<lambda>v. oloop body (k v))
               | Stop e \<Rightarrow> Stop e))
     | Sleep c t k \<Rightarrow> Sleep c t (\<lambda>u. oloop body (k u))
     | Stop e \<Rightarrow> Stop e)"

definition kloop :: "('s, 'r option) kmon \<Rightarrow> ('s, 'r) kmon" where
  "kloop body = (\<lambda>s. oloop body (Ret None s))"

section \<open>Total correctness\<close>

definition returns :: "('s, 'a) kmon \<Rightarrow> 's \<Rightarrow> ('a \<Rightarrow> 's \<Rightarrow> bool) \<Rightarrow> bool" where
  "returns m s Q = (case m s of Ret a t \<Rightarrow> Q a t | _ \<Rightarrow> False)"

lemma obind_simps [simp]:
  "obind (Ret a t) f = f a t"
  "obind (Sleep c t k) f = Sleep c t (\<lambda>u. obind (k u) f)"
  "obind (Stop e) f = Stop e"
  by (subst obind.code, simp only: outcome.case)+

lemma returns_kret [kwp]: "returns (kret x) s Q = Q x s"
  by (simp add: returns_def kret_def)

lemma returns_kbind [kwp]:
  "returns (kbind m f) s Q = returns m s (\<lambda>a t. returns (f a) t Q)"
  by (simp add: returns_def kbind_def split: outcome.splits)

lemma returns_kthen [kwp]:
  "returns (kthen m n) s Q = returns m s (\<lambda>_ t. returns n t Q)"
  by (simp add: kthen_def returns_kbind)

lemma returns_kget [kwp]: "returns (kget f) s Q = Q (f s) s"
  by (simp add: returns_def kget_def)

lemma returns_kmodify [kwp]: "returns (kmodify f) s Q = Q () (f s)"
  by (simp add: returns_def kmodify_def)

lemma returns_kstop [kwp]: "\<not> returns (kstop e) s Q"
  by (simp add: returns_def kstop_def)

lemma returns_kpanic [kwp]: "\<not> returns (kpanic e) s Q"
  by (simp add: kpanic_def kwp)

lemma returns_kassert [kwp]: "returns (kassert b e) s Q = (b \<and> Q () s)"
  by (simp add: kassert_def kwp)

lemma returns_kindex [kwp]: "returns (kindex i n) s Q = (i < n \<and> Q () s)"
  by (simp add: returns_def kindex_def)

lemma returns_kdefined [kwp]: "returns (kdefined b) s Q = (b \<and> Q () s)"
  by (simp add: returns_def kdefined_def)

lemma returns_kwhen [kwp]:
  "returns (kwhen b m) s Q = (if b then returns m s Q else Q () s)"
  by (simp add: kwhen_def kwp)

lemma returns_if_distrib [kwp]:
  "returns (if b then m else n) s Q = (if b then returns m s Q else returns n s Q)"
  by simp

lemma returns_case_option [kwp]:
  "returns (case x of None \<Rightarrow> m | Some y \<Rightarrow> n y) s Q =
     (case x of None \<Rightarrow> returns m s Q | Some y \<Rightarrow> returns (n y) s Q)"
  by (simp split: option.split)

lemma returns_mono:
  assumes "returns m s P" and "\<And>a t. P a t \<Longrightarrow> Q a t"
  shows "returns m s Q"
  using assms by (auto simp: returns_def split: outcome.splits)

lemma returns_conj:
  "returns m s (\<lambda>a t. P a t \<and> Q a t) = (returns m s P \<and> returns m s Q)"
  by (auto simp: returns_def split: outcome.splits)

lemma returnsE:
  assumes "returns m s Q"
  obtains a t where "m s = Ret a t" and "Q a t"
  using assms by (auto simp: returns_def split: outcome.splits)

lemma returns_Ret: "m s = Ret a t \<Longrightarrow> returns m s Q = Q a t"
  by (simp add: returns_def)

lemma returns_eq_Ret: "returns m s (\<lambda>a' t'. a' = a \<and> t' = t) = (m s = Ret a t)"
  by (auto simp: returns_def split: outcome.splits)

text \<open>The loop rule: an invariant indexed by the loop counter.\<close>

lemma returns_kfor:
  assumes "I i s" and "i \<le> n"
    and "\<And>j t. i \<le> j \<Longrightarrow> j < n \<Longrightarrow> I j t \<Longrightarrow> returns (body j) t (\<lambda>_ u. I (Suc j) u)"
  shows "returns (kfor i n body) s (\<lambda>_ t. I n t)"
  using assms
proof (induction i n body arbitrary: s rule: kfor.induct)
  case (1 i n body)
  show ?case
  proof (cases "i < n")
    case True
    with 1 have "returns (body i) s (\<lambda>_ u. I (Suc i) u)" by blast
    then have "returns (body i) s (\<lambda>_ u. returns (kfor (Suc i) n body) u (\<lambda>_ t. I n t))"
      by (rule returns_mono) (use 1 True in auto)
    with True show ?thesis by (simp add: kfor.simps [of i n body] kwp)
  next
    case False
    with 1 have "i = n" by simp
    with 1 show ?thesis by (simp add: kfor.simps [of n n body] kwp)
  qed
qed

lemma returns_kscan:
  assumes "I i s" and "i \<le> n"
    and "\<And>j t. i \<le> j \<Longrightarrow> j < n \<Longrightarrow> I j t \<Longrightarrow>
      returns (body j) t (\<lambda>r u. case r of None \<Rightarrow> I (Suc j) u | Some x \<Rightarrow> Q (Some x) u)"
    and "\<And>t. I n t \<Longrightarrow> Q None t"
  shows "returns (kscan i n body) s Q"
  using assms
proof (induction i n body arbitrary: s rule: kscan.induct)
  case (1 i n body)
  show ?case
  proof (cases "i < n")
    case True
    with 1 have "returns (body i) s (\<lambda>r u. case r of None \<Rightarrow> I (Suc i) u | Some x \<Rightarrow> Q (Some x) u)"
      by blast
    then have "returns (body i) s (\<lambda>r u. case r of None \<Rightarrow> returns (kscan (Suc i) n body) u Q
        | Some x \<Rightarrow> Q (Some x) u)"
      by (rule returns_mono) (use 1 True in \<open>auto split: option.splits\<close>)
    with True show ?thesis
      by (simp add: kscan.simps [of i n body] kwp cong: option.case_cong)
  next
    case False
    with 1 have "i = n" by simp
    with 1 show ?thesis by (simp add: kscan.simps [of n n body] kwp)
  qed
qed

lemma returns_kfold:
  assumes "I i x s" and "i \<le> n"
    and "\<And>j y t. i \<le> j \<Longrightarrow> j < n \<Longrightarrow> I j y t \<Longrightarrow> returns (body j y) t (\<lambda>z u. I (Suc j) z u)"
  shows "returns (kfold i n body x) s (\<lambda>z t. I n z t)"
  using assms
proof (induction "n - i" arbitrary: i x s)
  case 0
  then have "i = n" by simp
  with 0 show ?case by (simp add: kfold.simps [of n n body] kwp)
next
  case (Suc k)
  then have "i < n" by simp
  have "returns (body i x) s (\<lambda>z u. I (Suc i) z u)" using Suc.prems \<open>i < n\<close> by simp
  then have "returns (body i x) s (\<lambda>z u. returns (kfold (Suc i) n body z) u (\<lambda>z t. I n z t))"
    by (rule returns_mono) (use Suc \<open>i < n\<close> in auto)
  with \<open>i < n\<close> show ?case by (simp add: kfold.simps [of i n body] kwp)
qed

section \<open>Code that may sleep\<close>

definition kswitch :: "chan \<Rightarrow> ('s, unit) kmon" where
  "kswitch c = (\<lambda>s. Sleep c s (\<lambda>u. Ret () u))"

lemma returns_kswitch [kwp]: "\<not> returns (kswitch c) s Q"
  by (simp add: returns_def kswitch_def)

text \<open>
  The environment of a thread: what the thread guarantees where it gives up the processor, and
  the states in which it may be resumed.
\<close>

type_synonym 's env = "(chan \<Rightarrow> 's \<Rightarrow> bool) \<times> (chan \<Rightarrow> 's \<Rightarrow> 's \<Rightarrow> bool)"

inductive finishes :: "'s env \<Rightarrow> ('a \<Rightarrow> 's \<Rightarrow> bool) \<Rightarrow> ('a, 's) outcome \<Rightarrow> bool"
  for E :: "'s env" and Q :: "'a \<Rightarrow> 's \<Rightarrow> bool" where
  finishes_Ret: "Q a t \<Longrightarrow> finishes E Q (Ret a t)"
| finishes_Sleep: "fst E c t \<Longrightarrow> (\<And>u. snd E c t u \<Longrightarrow> finishes E Q (k u)) \<Longrightarrow> finishes E Q (Sleep c t k)"

inductive_simps finishes_simps [simp]:
  "finishes E Q (Ret a t)"
  "finishes E Q (Sleep c t k)"
  "finishes E Q (Stop e)"

definition completes ::
    "'s env \<Rightarrow> ('s, 'a) kmon \<Rightarrow> 's \<Rightarrow> ('a \<Rightarrow> 's \<Rightarrow> bool) \<Rightarrow> bool" where
  "completes E m s Q = finishes E Q (m s)"

lemma finishes_mono:
  assumes "finishes E P r" and "\<And>a t. P a t \<Longrightarrow> Q a t"
  shows "finishes E Q r"
  using assms(1) by (induction rule: finishes.induct) (auto intro: assms(2))

lemma finishes_obind:
  "finishes E Q (obind r f) = finishes E (\<lambda>a t. finishes E Q (f a t)) r"
proof
  assume "finishes E Q (obind r f)"
  then show "finishes E (\<lambda>a t. finishes E Q (f a t)) r"
  proof (induction "obind r f" arbitrary: r rule: finishes.induct)
    case (finishes_Ret a t)
    then show ?case by (cases r) (auto dest: sym)
  next
    case (finishes_Sleep c t k)
    then show ?case
      by (cases r) (auto dest!: sym [of "Sleep _ _ _"] intro: finishes.intros)
  qed
next
  assume "finishes E (\<lambda>a t. finishes E Q (f a t)) r"
  then show "finishes E Q (obind r f)" by (induction rule: finishes.induct) auto
qed

lemma completes_kret [kwp]: "completes E (kret x) s Q = Q x s"
  by (simp add: completes_def kret_def)

lemma completes_kbind [kwp]:
  "completes E (kbind m f) s Q = completes E m s (\<lambda>a t. completes E (f a) t Q)"
  by (simp add: completes_def kbind_def finishes_obind)

lemma completes_kthen [kwp]:
  "completes E (kthen m n) s Q = completes E m s (\<lambda>_ t. completes E n t Q)"
  by (simp add: kthen_def completes_kbind)

lemma completes_kget [kwp]: "completes E (kget f) s Q = Q (f s) s"
  by (simp add: completes_def kget_def)

lemma completes_kmodify [kwp]: "completes E (kmodify f) s Q = Q () (f s)"
  by (simp add: completes_def kmodify_def)

lemma completes_kstop [kwp]: "\<not> completes E (kstop e) s Q"
  by (simp add: completes_def kstop_def)

lemma completes_kpanic [kwp]: "\<not> completes E (kpanic e) s Q"
  by (simp add: kpanic_def kwp)

lemma completes_kassert [kwp]: "completes E (kassert b e) s Q = (b \<and> Q () s)"
  by (simp add: kassert_def kwp)

lemma completes_kindex [kwp]: "completes E (kindex i n) s Q = (i < n \<and> Q () s)"
  by (simp add: completes_def kindex_def)

lemma completes_kdefined [kwp]: "completes E (kdefined b) s Q = (b \<and> Q () s)"
  by (simp add: completes_def kdefined_def)

lemma completes_kwhen [kwp]:
  "completes E (kwhen b m) s Q = (if b then completes E m s Q else Q () s)"
  by (simp add: kwhen_def kwp)

lemma completes_kswitch [kwp]: "completes E (kswitch c) s Q = (fst E c s \<and> (\<forall>u. snd E c s u \<longrightarrow> Q () u))"
  by (simp add: completes_def kswitch_def)

lemma completes_if_distrib [kwp]:
  "completes E (if b then m else n) s Q = (if b then completes E m s Q else completes E n s Q)"
  by simp

lemma completes_case_option [kwp]:
  "completes E (case x of None \<Rightarrow> m | Some y \<Rightarrow> n y) s Q =
     (case x of None \<Rightarrow> completes E m s Q | Some y \<Rightarrow> completes E (n y) s Q)"
  by (simp split: option.split)

lemma completes_mono:
  assumes "completes E m s P" and "\<And>a t. P a t \<Longrightarrow> Q a t"
  shows "completes E m s Q"
  using assms finishes_mono unfolding completes_def by blast

lemma completes_of_returns:
  assumes "returns m s P" and "\<And>a t. P a t \<Longrightarrow> Q a t"
  shows "completes E m s Q"
  using assms by (auto simp: completes_def returns_def split: outcome.splits)

lemma completes_Ret: "m s = Ret a t \<Longrightarrow> completes E m s Q = Q a t"
  by (simp add: completes_def)

lemma completes_kfor:
  assumes "I i s" and "i \<le> n"
    and "\<And>j t. i \<le> j \<Longrightarrow> j < n \<Longrightarrow> I j t \<Longrightarrow> completes E (body j) t (\<lambda>_ u. I (Suc j) u)"
  shows "completes E (kfor i n body) s (\<lambda>_ t. I n t)"
  using assms
proof (induction i n body arbitrary: s rule: kfor.induct)
  case (1 i n body)
  show ?case
  proof (cases "i < n")
    case True
    with 1 have "completes E (body i) s (\<lambda>_ u. I (Suc i) u)" by blast
    then have "completes E (body i) s (\<lambda>_ u. completes E (kfor (Suc i) n body) u (\<lambda>_ t. I n t))"
      by (rule completes_mono) (use 1 True in auto)
    with True show ?thesis by (simp add: kfor.simps [of i n body] kwp)
  next
    case False
    with 1 have "i = n" by simp
    with 1 show ?thesis by (simp add: kfor.simps [of n n body] kwp)
  qed
qed

lemma completes_kscan:
  assumes "I i s" and "i \<le> n"
    and "\<And>j t. i \<le> j \<Longrightarrow> j < n \<Longrightarrow> I j t \<Longrightarrow>
      completes E (body j) t (\<lambda>r u. case r of None \<Rightarrow> I (Suc j) u | Some x \<Rightarrow> Q (Some x) u)"
    and "\<And>t. I n t \<Longrightarrow> Q None t"
  shows "completes E (kscan i n body) s Q"
  using assms
proof (induction i n body arbitrary: s rule: kscan.induct)
  case (1 i n body)
  show ?case
  proof (cases "i < n")
    case True
    with 1 have "completes E (body i) s (\<lambda>r u. case r of None \<Rightarrow> I (Suc i) u | Some x \<Rightarrow> Q (Some x) u)" by blast
    then have "completes E (body i) s (\<lambda>r u. case r of None \<Rightarrow> completes E (kscan (Suc i) n body) u Q
        | Some x \<Rightarrow> Q (Some x) u)"
      by (rule completes_mono) (use 1 True in \<open>auto split: option.splits\<close>)
    with True show ?thesis
      by (simp add: kscan.simps [of i n body] kwp cong: option.case_cong)
  next
    case False
    with 1 have "i = n" by simp
    with 1 show ?thesis by (simp add: kscan.simps [of n n body] kwp)
  qed
qed

text \<open>A loop that sleeps is its body followed, if it goes round again, by the loop.\<close>

lemma oloop_simps:
  "oloop body (Ret (Some y) t) = Ret y t"
  "oloop body (Ret None t) =
     (case body t of
        Ret z u \<Rightarrow> (case z of Some y \<Rightarrow> Ret y u | None \<Rightarrow> Stop Spin)
      | Sleep c u k \<Rightarrow> Sleep c u (\<lambda>v. oloop body (k v))
      | Stop e \<Rightarrow> Stop e)"
  "oloop body (Sleep c t k) = Sleep c t (\<lambda>u. oloop body (k u))"
  "oloop body (Stop e) = Stop e"
  by (subst oloop.code, simp only: outcome.case option.case)+

lemma kloop_unfold:
  "kloop body s =
     (case body s of
        Ret z u \<Rightarrow> (case z of Some y \<Rightarrow> Ret y u | None \<Rightarrow> Stop Spin)
      | Sleep c u k \<Rightarrow> Sleep c u (\<lambda>v. oloop body (k v))
      | Stop e \<Rightarrow> Stop e)"
  by (simp add: kloop_def oloop_simps)

lemma oloop_obind:
  "oloop body r =
     obind r (\<lambda>x t. case x of Some y \<Rightarrow> Ret y t | None \<Rightarrow> kloop body t)"
proof (coinduction arbitrary: r rule: outcome.coinduct_strong)
  case Eq_outcome
  show ?case
  proof (cases r)
    case (Ret x t)
    then show ?thesis
      by (cases x) (auto simp: oloop_simps kloop_def rel_fun_def intro: outcome.rel_refl)
  next
    case (Sleep c t k)
    then show ?thesis by (auto simp: oloop_simps rel_fun_def)
  qed (simp_all add: oloop_simps)
qed

lemma kloop_obind:
  assumes "\<And>t. body s \<noteq> Ret None t"
  shows "kloop body s = obind (body s) (\<lambda>x t. case x of Some y \<Rightarrow> Ret y t | None \<Rightarrow> kloop body t)"
  using assms
  by (cases "body s") (auto simp: kloop_unfold oloop_obind split: option.splits)

lemma completes_kloop:
  assumes "\<And>t. body s \<noteq> Ret None t"
  shows "completes E (kloop body) s Q =
    completes E body s (\<lambda>x t. case x of Some y \<Rightarrow> Q y t | None \<Rightarrow> completes E (kloop body) t Q)"
proof -
  have "(\<lambda>a t. finishes E Q (case a of Some y \<Rightarrow> Ret y t | None \<Rightarrow> kloop body t)) =
      (\<lambda>x t. case x of Some y \<Rightarrow> Q y t | None \<Rightarrow> completes E (kloop body) t Q)"
    by (auto simp: fun_eq_iff completes_def split: option.splits)
  then show ?thesis
    by (simp add: completes_def [of E "kloop body" s] completes_def [of E body s]
        kloop_obind [of body s, OF assms] finishes_obind)
qed

lemma kloop_leave: "body s = Ret (Some y) t \<Longrightarrow> kloop body s = Ret y t"
  by (simp add: kloop_unfold)

text \<open>\<open>sleeps m s S\<close>: \<open>m\<close> gives up the processor, with \<open>S\<close> of the channel, the state and the rest.\<close>

definition sleeps ::
    "('s, 'a) kmon \<Rightarrow> 's \<Rightarrow> (chan \<Rightarrow> 's \<Rightarrow> ('s, 'a) kmon \<Rightarrow> bool) \<Rightarrow> bool" where
  "sleeps m s S = (case m s of Sleep c t k \<Rightarrow> S c t k | _ \<Rightarrow> False)"

lemma sleeps_kswitch [kwp]: "sleeps (kswitch c) s S = S c s (kret ())"
  by (simp add: sleeps_def kswitch_def kret_def)

lemma sleeps_after:
  assumes "returns m s (\<lambda>a t. sleeps (f a) t S)"
  shows "sleeps (kbind m f) s S"
  using assms by (auto simp: sleeps_def returns_def kbind_def split: outcome.splits)

lemma sleeps_before:
  assumes "sleeps m s (\<lambda>c t k. S c t (kbind k f))"
  shows "sleeps (kbind m f) s S"
  using assms by (auto simp: sleeps_def kbind_def split: outcome.splits)

lemma sleeps_after_then: "returns m s (\<lambda>_ t. sleeps n t S) \<Longrightarrow> sleeps (kthen m n) s S"
  by (simp add: kthen_def sleeps_after)

lemma sleeps_before_then: "sleeps m s (\<lambda>c t k. S c t (kthen k n)) \<Longrightarrow> sleeps (kthen m n) s S"
  by (simp add: kthen_def sleeps_before)

lemma sleeps_mono:
  assumes "sleeps m s S" and "\<And>c t k. S c t k \<Longrightarrow> T c t k"
  shows "sleeps m s T"
  using assms by (auto simp: sleeps_def split: outcome.splits)

lemma sleepsE:
  assumes "sleeps m s S"
  obtains c t k where "m s = Sleep c t k" and "S c t k"
  using assms by (auto simp: sleeps_def split: outcome.splits)

lemma completes_of_sleeps:
  assumes "sleeps m s (\<lambda>c t k. fst E c t \<and> (\<forall>u. snd E c t u \<longrightarrow> completes E k u Q))"
  shows "completes E m s Q"
  using assms by (auto simp: completes_def elim!: sleepsE)

lemma kret_bind [simp]: "kbind (kret x) f = f x" "kthen (kret x) n = n"
  by (simp_all add: kbind_def kret_def kthen_def)

section \<open>Monad laws\<close>

lemma obind_assoc: "obind (obind r f) g = obind r (\<lambda>x t. obind (f x t) g)"
proof (coinduction arbitrary: r rule: outcome.coinduct_strong)
  case Eq_outcome
  show ?case by (cases r) (auto simp: rel_fun_def intro: outcome.rel_refl)
qed

lemma kbind_assoc:
  "kbind (kbind m f) g = kbind m (\<lambda>x. kbind (f x) g)"
  "kbind (kthen m n) g = kthen m (kbind n g)"
  "kthen (kbind m f) n = kbind m (\<lambda>x. kthen (f x) n)"
  "kthen (kthen m m') n = kthen m (kthen m' n)"
  by (simp_all add: kbind_def kthen_def obind_assoc fun_eq_iff)

section \<open>Partial correctness\<close>

text \<open>
  \<open>safe m s R S\<close>: if \<open>m\<close> returns, \<open>R\<close> holds of the value and the state, and if it gives up the
  processor, \<open>S\<close> holds of the channel, the state and the rest. Nothing is said about a stop.
\<close>

definition safe ::
    "('s, 'a) kmon \<Rightarrow> 's \<Rightarrow> ('a \<Rightarrow> 's \<Rightarrow> bool) \<Rightarrow> (chan \<Rightarrow> 's \<Rightarrow> ('s, 'a) kmon \<Rightarrow> bool) \<Rightarrow> bool" where
  "safe m s R S = (case m s of Ret a t \<Rightarrow> R a t | Sleep c t k \<Rightarrow> S c t k | Stop e \<Rightarrow> True)"

named_theorems ksafe \<open>backward rules for partial correctness\<close>

lemma safe_basic [ksafe]:
  "safe (kret x) s R S = R x s"
  "safe (kget g) s R' S' = R' (g s) s"
  "safe (kmodify h) s R'' S'' = R'' () (h s)"
  "safe (kstop e) s R S"
  "safe (kpanic e') s R S"
  "safe (kassert b e') s R'' S'' = (b \<longrightarrow> R'' () s)"
  "safe (kindex i n) s R'' S'' = (i < n \<longrightarrow> R'' () s)"
  "safe (kdefined b) s R'' S'' = (b \<longrightarrow> R'' () s)"
  "safe (kswitch c) s R'' S'' = S'' c s (kret ())"
  by (simp_all add: safe_def kret_def kget_def kmodify_def kstop_def kpanic_def kassert_def
      kindex_def kdefined_def kswitch_def)

lemma safe_kbind [ksafe]:
  "safe (kbind m f) s R S = safe m s (\<lambda>a t. safe (f a) t R S) (\<lambda>c t k. S c t (kbind k f))"
  by (simp add: safe_def kbind_def split: outcome.splits)

lemma safe_kthen [ksafe]:
  "safe (kthen m n) s R S = safe m s (\<lambda>a t. safe n t R S) (\<lambda>c t k. S c t (kthen k n))"
  by (simp add: kthen_def safe_kbind)

lemma safe_kwhen [ksafe]: "safe (kwhen b m) s R S = (if b then safe m s R S else R () s)"
  by (simp add: kwhen_def ksafe)

lemma safe_if_distrib [ksafe]:
  "safe (if b then m else n) s R S = (if b then safe m s R S else safe n s R S)"
  by simp

lemma safe_case_option [ksafe]:
  "safe (case x of None \<Rightarrow> m | Some y \<Rightarrow> n y) s R S =
     (case x of None \<Rightarrow> safe m s R S | Some y \<Rightarrow> safe (n y) s R S)"
  by (simp split: option.split)

lemma safe_kloop [ksafe]:
  "safe (kloop body) s R S = safe body s
     (\<lambda>x t. case x of Some y \<Rightarrow> R y t | None \<Rightarrow> True)
     (\<lambda>c t k. S c t (kbind k (\<lambda>x. case x of Some y \<Rightarrow> kret y | None \<Rightarrow> kloop body)))"
proof -
  have "(\<lambda>v. oloop body (k v)) = kbind k (\<lambda>x. case x of Some y \<Rightarrow> kret y | None \<Rightarrow> kloop body)" for k
    unfolding kbind_def oloop_obind by (rule ext, rule arg_cong [where f = "obind _"])
      (auto simp: fun_eq_iff kret_def split: option.splits)
  then show ?thesis
    by (auto simp: safe_def kloop_unfold split: outcome.splits option.splits)
qed

lemma safe_mono:
  assumes "safe m s R S" and "\<And>a t. R a t \<Longrightarrow> R' a t" and "\<And>c t k. S c t k \<Longrightarrow> S' c t k"
  shows "safe m s R' S'"
  using assms by (auto simp: safe_def split: outcome.splits)

lemma safe_Ret: "m s = Ret a t \<Longrightarrow> safe m s R S = R a t"
  by (simp add: safe_def)

lemma safe_of_returns: "returns m s R \<Longrightarrow> safe m s R S"
  by (auto simp: safe_def returns_def split: outcome.splits)

lemma safe_kfor:
  assumes "I i s" and "i \<le> n"
    and "\<And>j t. i \<le> j \<Longrightarrow> j < n \<Longrightarrow> I j t \<Longrightarrow> safe (body j) t (\<lambda>_ u. I (Suc j) u) (\<lambda>_ _ _. False)"
  shows "safe (kfor i n body) s (\<lambda>_ t. I n t) (\<lambda>_ _ _. False)"
  using assms
proof (induction i n body arbitrary: s rule: kfor.induct)
  case (1 i n body)
  show ?case
  proof (cases "i < n")
    case True
    with 1 have "safe (body i) s (\<lambda>_ u. I (Suc i) u) (\<lambda>_ _ _. False)" by blast
    then have "safe (body i) s (\<lambda>_ u. safe (kfor (Suc i) n body) u (\<lambda>_ t. I n t) (\<lambda>_ _ _. False))
        (\<lambda>_ _ _. False)"
      by (rule safe_mono) (use 1 True in auto)
    with True show ?thesis by (simp add: kfor.simps [of i n body] ksafe)
  next
    case False
    with 1 have "i = n" by simp
    with 1 show ?thesis by (simp add: kfor.simps [of n n body] ksafe)
  qed
qed

section \<open>Guarded execution\<close>

text \<open>
  \<open>guarded I m s Q\<close>: whatever happens while the thread sleeps, as long as it preserves \<open>I\<close>, the code \<open>m\<close> never
  reads or writes outside an array; \<open>I\<close> holds whenever it sleeps, and \<open>Q\<close> holds if it returns. It may
  panic, wait for ever, and sleep any number of times.
\<close>

coinductive obeys :: "('s \<Rightarrow> bool) \<Rightarrow> ('a \<Rightarrow> 's \<Rightarrow> bool) \<Rightarrow> ('a, 's) outcome \<Rightarrow> bool"
  for I :: "'s \<Rightarrow> bool" and Q :: "'a \<Rightarrow> 's \<Rightarrow> bool" where
  obeys_Ret: "Q a t \<Longrightarrow> obeys I Q (Ret a t)"
| obeys_Sleep: "I t \<Longrightarrow> (\<And>u. I u \<Longrightarrow> obeys I Q (k u)) \<Longrightarrow> obeys I Q (Sleep c t k)"
| obeys_Stop: "e \<noteq> Fault \<Longrightarrow> obeys I Q (Stop e)"

inductive_simps obeys_simps [simp]:
  "obeys I Q (Ret a t)"
  "obeys I Q (Sleep c t k)"
  "obeys I Q (Stop e)"

definition guarded :: "('s \<Rightarrow> bool) \<Rightarrow> ('s, 'a) kmon \<Rightarrow> 's \<Rightarrow> ('a \<Rightarrow> 's \<Rightarrow> bool) \<Rightarrow> bool" where
  "guarded I m s Q = obeys I Q (m s)"

named_theorems kguard \<open>backward rules for guarded execution\<close>

lemma obeys_mono:
  assumes "obeys I P r" and "\<And>a t. P a t \<Longrightarrow> Q a t"
  shows "obeys I Q r"
  using assms(1)
proof (coinduction arbitrary: r)
  case obeys
  then show ?case using assms(2) by (cases r) auto
qed

lemma obeys_obind: "obeys I Q (obind r f) = obeys I (\<lambda>a t. obeys I Q (f a t)) r"
proof
  assume "obeys I Q (obind r f)"
  then show "obeys I (\<lambda>a t. obeys I Q (f a t)) r"
  proof (coinduction arbitrary: r)
    case obeys
    then show ?case by (cases r) auto
  qed
next
  assume "obeys I (\<lambda>a t. obeys I Q (f a t)) r"
  then show "obeys I Q (obind r f)"
  proof (coinduction arbitrary: r)
    case obeys
    then show ?case
    proof (cases r)
      case (Ret a t)
      with obeys have "obeys I Q (f a t)" by simp
      with Ret show ?thesis by (cases "f a t") auto
    qed (use obeys in auto)
  qed
qed

lemma guarded_basic [kguard]:
  "guarded I (kret x) s Q = Q x s"
  "guarded I (kget g) s Q = Q (g s) s"
  "guarded I (kmodify h) s Q' = Q' () (h s)"
  "guarded I (kstop e) s Q = (e \<noteq> Fault)"
  "guarded I (kpanic e') s Q"
  "guarded I (kassert b e') s Q' = (b \<longrightarrow> Q' () s)"
  "guarded I (kindex i n) s Q' = (i < n \<and> Q' () s)"
  "guarded I (kdefined b) s Q' = (b \<and> Q' () s)"
  "guarded I (kswitch c) s Q' = (I s \<and> (\<forall>u. I u \<longrightarrow> Q' () u))"
  by (simp_all add: guarded_def kret_def kget_def kmodify_def kstop_def kpanic_def kassert_def
      kindex_def kdefined_def kswitch_def)

lemma guarded_kbind [kguard]: "guarded I (kbind m f) s Q = guarded I m s (\<lambda>a t. guarded I (f a) t Q)"
  by (simp add: guarded_def kbind_def obeys_obind)

lemma guarded_kthen [kguard]: "guarded I (kthen m n) s Q = guarded I m s (\<lambda>_ t. guarded I n t Q)"
  by (simp add: kthen_def guarded_kbind)

lemma guarded_kwhen [kguard]: "guarded I (kwhen b m) s Q = (if b then guarded I m s Q else Q () s)"
  by (simp add: kwhen_def kguard)

lemma guarded_if [kguard]: "guarded I (if b then m else n) s Q = (if b then guarded I m s Q else guarded I n s Q)"
  by simp

lemma guarded_option [kguard]: "guarded I (case x of None \<Rightarrow> m | Some y \<Rightarrow> n y) s Q =
    (case x of None \<Rightarrow> guarded I m s Q | Some y \<Rightarrow> guarded I (n y) s Q)"
  by (simp split: option.split)

lemma guarded_prod [kguard]: "guarded I (case x of (a, b) \<Rightarrow> m a b) s Q = (case x of (a, b) \<Rightarrow> guarded I (m a b) s Q)"
  by (simp split: prod.split)

lemma guardedI:
  "Q x s \<Longrightarrow> guarded I (kret x) s Q"
  "Q (g s) s \<Longrightarrow> guarded I (kget g) s Q"
  "Q' () (h s) \<Longrightarrow> guarded I (kmodify h) s Q'"
  "e \<noteq> Fault \<Longrightarrow> guarded I (kstop e) s Q"
  "guarded I (kpanic e') s Q"
  "(b \<Longrightarrow> Q' () s) \<Longrightarrow> guarded I (kassert b e') s Q'"
  "i < n \<Longrightarrow> Q' () s \<Longrightarrow> guarded I (kindex i n) s Q'"
  "b \<Longrightarrow> Q' () s \<Longrightarrow> guarded I (kdefined b) s Q'"
  "guarded I m s (\<lambda>a t. guarded I (f a) t Q) \<Longrightarrow> guarded I (kbind m f) s Q"
  "guarded I m s (\<lambda>_ t. guarded I m' t Q) \<Longrightarrow> guarded I (kthen m m') s Q"
  "(b \<Longrightarrow> guarded I k s Q') \<Longrightarrow> (\<not> b \<Longrightarrow> Q' () s) \<Longrightarrow> guarded I (kwhen b k) s Q'"
  "(b \<Longrightarrow> guarded I m' s Q) \<Longrightarrow> (\<not> b \<Longrightarrow> guarded I m'' s Q) \<Longrightarrow> guarded I (if b then m' else m'') s Q"
  "(o' = None \<Longrightarrow> guarded I m' s Q) \<Longrightarrow> (\<And>y. o' = Some y \<Longrightarrow> guarded I (k' y) s Q) \<Longrightarrow>
     guarded I (case o' of None \<Rightarrow> m' | Some y \<Rightarrow> k' y) s Q"
  "(\<And>y z. p = (y, z) \<Longrightarrow> guarded I (k'' y z) s Q) \<Longrightarrow> guarded I (case p of (y, z) \<Rightarrow> k'' y z) s Q"
  "guarded I (k' v) s Q \<Longrightarrow> guarded I (let y = v in k' y) s Q"
  by (auto simp: kguard split: option.split prod.split)

lemma guarded_mono:
  assumes "guarded I m s P" and "\<And>a t. P a t \<Longrightarrow> Q a t"
  shows "guarded I m s Q"
  using assms obeys_mono unfolding guarded_def by blast

lemma guarded_kfor:
  assumes "I s" and "\<And>j t. i \<le> j \<Longrightarrow> j < n \<Longrightarrow> I t \<Longrightarrow> guarded I (body j) t (\<lambda>_ u. I u)" and "\<And>t. I t \<Longrightarrow> Q () t"
  shows "guarded I (kfor i n body) s Q"
  using assms
proof (induction i n body arbitrary: s rule: kfor.induct)
  case (1 i n body)
  show ?case
  proof (cases "i < n")
    case True
    with 1(3) [of i s] 1(2) have "guarded I (body i) s (\<lambda>_ u. I u)" by simp
    then have "guarded I (body i) s (\<lambda>_ u. guarded I (kfor (Suc i) n body) u Q)"
      by (rule guarded_mono) (rule 1(1) [OF True], use 1(3,4) in auto)
    with True show ?thesis by (simp add: kfor.simps [of i n body] kguard)
  next
    case False
    with 1 show ?thesis by (simp add: kfor.simps [of i n body] kguard)
  qed
qed

lemma guarded_kscan:
  assumes "I s" and "\<And>j t. i \<le> j \<Longrightarrow> j < n \<Longrightarrow> I t \<Longrightarrow> guarded I (body j) t (\<lambda>r u. I u \<and> (\<forall>x. r = Some x \<longrightarrow> P x))"
    and "\<And>r t. I t \<Longrightarrow> (\<And>x. r = Some x \<Longrightarrow> P x) \<Longrightarrow> Q r t"
  shows "guarded I (kscan i n body) s Q"
  using assms
proof (induction i n body arbitrary: s rule: kscan.induct)
  case (1 i n body)
  show ?case
  proof (cases "i < n")
    case True
    with 1(3) [of i s] 1(2) have "guarded I (body i) s (\<lambda>r u. I u \<and> (\<forall>x. r = Some x \<longrightarrow> P x))" by simp
    then have "guarded I (body i) s (\<lambda>r u. case r of None \<Rightarrow> guarded I (kscan (Suc i) n body) u Q | Some x \<Rightarrow> Q (Some x) u)"
    proof (rule guarded_mono)
      fix r u assume "I u \<and> (\<forall>x. r = Some x \<longrightarrow> P x)"
      then show "case r of None \<Rightarrow> guarded I (kscan (Suc i) n body) u Q | Some x \<Rightarrow> Q (Some x) u"
        using 1(1) [OF True, of u] 1(4) [of u r] 1(3,4) by (cases r) auto
    qed
    with True show ?thesis by (simp add: kscan.simps [of i n body] kguard cong: option.case_cong)
  next
    case False
    with 1(4) [of s None] 1(2) show ?thesis by (simp add: kscan.simps [of i n body] kguard)
  qed
qed

lemma guarded_kloop:
  assumes "I s" and body: "\<And>t. I t \<Longrightarrow> guarded I body t (\<lambda>r u. I u \<and> (\<forall>x. r = Some x \<longrightarrow> P x))"
    and Q: "\<And>x t. I t \<Longrightarrow> P x \<Longrightarrow> Q x t"
  shows "guarded I (kloop body) s Q"
proof -
  let ?B = "\<lambda>r u. I u \<and> (\<forall>x. r = Some x \<longrightarrow> P x)"
  have "obeys I Q (oloop body r)" if "obeys I ?B r" for r
    using that
  proof (coinduction arbitrary: r)
    case obeys
    show ?case
    proof (cases r)
      case (Ret x t)
      show ?thesis
      proof (cases x)
        case None
        with Ret obeys have "obeys I ?B (body t)" using body by (simp add: guarded_def)
        then show ?thesis using Ret None Q by (cases "body t") (auto simp: oloop_simps split: option.splits)
      qed (use Ret obeys Q in \<open>auto simp: oloop_simps\<close>)
    qed (use obeys in \<open>auto simp: oloop_simps\<close>)
  qed
  with assms(1) show ?thesis by (simp add: guarded_def kloop_def)
qed

section \<open>Forward execution\<close>

lemma kexec_basic [kexec]:
  "kret x s = Ret x s"
  "kbind m f s = obind (m s) f"
  "kthen m n s = obind (m s) (\<lambda>_. n)"
  "kget g s = Ret (g s) s"
  "kmodify h s = Ret () (h s)"
  "kstop e s = Stop e"
  "kpanic e' s = Stop (Panic e')"
  "kassert b e' s = (if b then Ret () s else Stop (Panic e'))"
  "kindex i n' s = (if i < n' then Ret () s else Stop Fault)"
  "kdefined b s = (if b then Ret () s else Stop Fault)"
  "kwhen b m' s = (if b then m' s else Ret () s)"
  "kswitch c s = Sleep c s (kret ())"
  by (simp_all add: kret_def kbind_def kthen_def kget_def kmodify_def kstop_def kpanic_def
      kassert_def kindex_def kdefined_def kwhen_def kswitch_def)

lemma obind_kret [simp]: "obind (m s) (\<lambda>x. kret x) = m s" for m :: "('s, 'a) kmon"
proof (coinduction arbitrary: m s rule: outcome.coinduct_strong)
  case Eq_outcome
  show ?case
    by (cases "m s") (auto simp: kret_def rel_fun_def)
qed

lemma exec_of_returns: "(\<And>Q. returns m s Q = Q a t) \<Longrightarrow> m s = Ret a t"
  using returns_eq_Ret [of m s a t] by simp

end
