(* ===== verification/Spinlock.thy ===== *)
theory Spinlock
  imports Prelude
begin

text \<open>
  \<^verbatim>\<open>kern/lib/spinlock.c\<close> and \<^verbatim>\<open>kern/lib/reentrant_lock.c\<close>.

  The spinlocks of the kernel are one table indexed by the object that contains them. The
  operations below are those of one processor; a lock found taken can only be released by
  another processor, so in a run of one processor the loop of \<^verbatim>\<open>spinlock_acquire\<close> then
  never ends (\<^term>\<open>Spin\<close>). The contention of several processors is the step relation
  \<open>spin_step\<close>, whose steps are the single exchanges and stores of the same functions.
\<close>

section \<open>State\<close>

record spinlock =
  lock_holder :: nat
  lock :: u32

datatype lock_id =
    SchedLk
  | MemLk
  | ContainerLk nat
  | FlockLk nat
  | FtableLk
  | IcacheLk
  | BcacheLk
  | LogLk
  | IdeLk

text \<open>The kernel stack that ESP points into (\<^verbatim>\<open>struct kstack\<close>), and the locks.\<close>

record kbase =
  ks_cpu_idx :: nat
  ks_magic :: u32
  locks :: "lock_id \<Rightarrow> spinlock"

definition KSTACK_MAGIC :: u32 where "KSTACK_MAGIC = 0x98765432"

definition unlocked :: spinlock where
  "unlocked = \<lparr>lock_holder = NUM_CPUS + 1, lock = 0\<rparr>"

section \<open>Operations of one processor\<close>

definition xchg_lock :: "lock_id \<Rightarrow> u32 \<Rightarrow> ('z kbase_scheme, u32) kmon" where
  "xchg_lock l v = (\<lambda>s. Ret (lock (locks s l))
     (s\<lparr>locks := (locks s)(l := (locks s l)\<lparr>lock := v\<rparr>)\<rparr>))"

definition set_lock_holder :: "lock_id \<Rightarrow> nat \<Rightarrow> ('z kbase_scheme, unit) kmon" where
  "set_lock_holder l c =
     kmodify (\<lambda>s. s\<lparr>locks := (locks s)(l := (locks s l)\<lparr>lock_holder := c\<rparr>)\<rparr>)"

definition spinlock_init :: "lock_id \<Rightarrow> ('z kbase_scheme, unit) kmon" where
  "spinlock_init l = kthen (set_lock_holder l (NUM_CPUS + 1)) (kthen (xchg_lock l 0) (kret ()))"

definition assert_kstack :: "('z kbase_scheme, unit) kmon" where
  "assert_kstack =
     kbind (kget ks_magic) (\<lambda>m. kassert (m = KSTACK_MAGIC) ''kstack->magic == KSTACK_MAGIC'')"

definition spinlock_holding :: "lock_id \<Rightarrow> ('z kbase_scheme, bool) kmon" where
  "spinlock_holding l =
     kbind (kget (\<lambda>s. locks s l)) (\<lambda>lk.
       if lock lk = 0 then kret False
       else kthen assert_kstack (kget (\<lambda>s. lock_holder lk = ks_cpu_idx s)))"

definition spinlock_acquire :: "lock_id \<Rightarrow> ('z kbase_scheme, unit) kmon" where
  "spinlock_acquire l =
     kbind (xchg_lock l 1) (\<lambda>old.
       if old \<noteq> 0 then kstop Spin
       else kthen assert_kstack (kbind (kget ks_cpu_idx) (set_lock_holder l)))"

definition spinlock_try_acquire :: "lock_id \<Rightarrow> ('z kbase_scheme, u32) kmon" where
  "spinlock_try_acquire l =
     kbind (xchg_lock l 1) (\<lambda>old_val.
       kthen (kwhen (old_val = 0)
                (kthen assert_kstack (kbind (kget ks_cpu_idx) (set_lock_holder l))))
             (kret old_val))"

definition spinlock_release :: "lock_id \<Rightarrow> ('z kbase_scheme, unit) kmon" where
  "spinlock_release l =
     kthen (set_lock_holder l (NUM_CPUS + 1)) (kthen (xchg_lock l 0) (kret ()))"

text \<open>The checking versions of the build with \<^verbatim>\<open>DEBUG_LOCKHOLDING\<close>.\<close>

definition spinlock_acquire_dbg :: "lock_id \<Rightarrow> ('z kbase_scheme, unit) kmon" where
  "spinlock_acquire_dbg l =
     kbind (spinlock_holding l) (\<lambda>h. if h then kstop Spin else spinlock_acquire l)"

definition spinlock_release_dbg :: "lock_id \<Rightarrow> ('z kbase_scheme, unit) kmon" where
  "spinlock_release_dbg l =
     kbind (spinlock_holding l) (\<lambda>h.
       if \<not> h then kpanic ''Tried to release unheld lock'' else spinlock_release l)"

definition spinlock_try_acquire_dbg :: "lock_id \<Rightarrow> ('z kbase_scheme, u32) kmon" where
  "spinlock_try_acquire_dbg l =
     kbind (spinlock_holding l) (\<lambda>h.
       if h then kpanic ''Tried to self-deadlock'' else spinlock_try_acquire l)"

text \<open>The ground state of a lock: what \<^verbatim>\<open>spinlock_init\<close> stores and every release restores.\<close>

definition lock_free :: "'z kbase_scheme \<Rightarrow> lock_id \<Rightarrow> bool" where
  "lock_free s l = (locks s l = unlocked)"

definition kstack_ok :: "'z kbase_scheme \<Rightarrow> bool" where
  "kstack_ok s = (ks_magic s = KSTACK_MAGIC)"

definition taken :: "'z kbase_scheme \<Rightarrow> lock_id \<Rightarrow> 'z kbase_scheme" where
  "taken s l = s\<lparr>locks := (locks s)(l := \<lparr>lock_holder = ks_cpu_idx s, lock = 1\<rparr>)\<rparr>"

lemma returns_xchg_lock [kwp]:
  "returns (xchg_lock l v) s Q =
     Q (lock (locks s l)) (s\<lparr>locks := (locks s)(l := (locks s l)\<lparr>lock := v\<rparr>)\<rparr>)"
  by (simp add: returns_def xchg_lock_def)

lemma returns_acquire [kwp]:
  "lock_free s l \<Longrightarrow> kstack_ok s \<Longrightarrow> returns (spinlock_acquire l) s Q = Q () (taken s l)"
  by (simp add: spinlock_acquire_def assert_kstack_def set_lock_holder_def lock_free_def
      kstack_ok_def unlocked_def taken_def kwp)

lemma acquire_held_spins: "lock (locks s l) \<noteq> 0 \<Longrightarrow> spinlock_acquire l s = Stop Spin"
  by (simp add: spinlock_acquire_def kbind_def xchg_lock_def kstop_def)

lemma returns_release [kwp]:
  "returns (spinlock_release l) s Q = Q () (s\<lparr>locks := (locks s)(l := unlocked)\<rparr>)"
  by (cases "locks s l") (simp add: spinlock_release_def set_lock_holder_def unlocked_def kwp)

lemma completes_acquire [kwp]:
  "lock_free s l \<Longrightarrow> kstack_ok s \<Longrightarrow> completes E (spinlock_acquire l) s Q = Q () (taken s l)"
  using returns_acquire [of s l "\<lambda>_ t. t = taken s l"] by (auto elim!: returnsE simp: completes_Ret)

lemma completes_release [kwp]:
  "completes E (spinlock_release l) s Q = Q () (s\<lparr>locks := (locks s)(l := unlocked)\<rparr>)"
  using returns_release [of l s "\<lambda>_ t. t = s\<lparr>locks := (locks s)(l := unlocked)\<rparr>"]
  by (auto elim!: returnsE simp: completes_Ret)

lemma exec_acquire [kexec]:
  "lock_free s l \<Longrightarrow> kstack_ok s \<Longrightarrow> spinlock_acquire l s = Ret () (taken s l)"
  by (rule exec_of_returns) (rule returns_acquire)

lemma exec_release [kexec]:
  "spinlock_release l s = Ret () (s\<lparr>locks := (locks s)(l := unlocked)\<rparr>)"
  by (rule exec_of_returns) (rule returns_release)

lemma safe_acquire [ksafe]:
  "lock_free s l \<Longrightarrow> kstack_ok s \<Longrightarrow> safe (spinlock_acquire l) s R S = R () (taken s l)"
  by (rule safe_Ret) (rule exec_acquire)

lemma safe_release [ksafe]:
  "safe (spinlock_release l) s R S = R () (s\<lparr>locks := (locks s)(l := unlocked)\<rparr>)"
  by (rule safe_Ret) (rule exec_release)

lemma returns_spinlock_init [kwp]:
  "returns (spinlock_init l) s Q = Q () (s\<lparr>locks := (locks s)(l := unlocked)\<rparr>)"
  by (cases "locks s l") (simp add: spinlock_init_def set_lock_holder_def unlocked_def kwp)

lemma taken_release [simp]:
  "lock_free s l \<Longrightarrow> (taken s l)\<lparr>locks := (locks (taken s l))(l := unlocked)\<rparr> = s"
  by (cases s) (auto simp: taken_def lock_free_def fun_eq_iff)

lemma lock_free_restore [simp]: "lock_free s l \<Longrightarrow> (locks s)(l := unlocked) = locks s"
  by (simp add: lock_free_def fun_upd_idem)

lemma lock_free_simps [simp]:
  "lock_free (s\<lparr>locks := (locks s')(l := unlocked)\<rparr>) l"
  "l \<noteq> l' \<Longrightarrow> lock_free (taken s l) l' = lock_free s l'"
  "kstack_ok (taken s l) = kstack_ok s"
  "kstack_ok (s\<lparr>locks := f\<rparr>) = kstack_ok s"
  "ks_cpu_idx (taken s l) = ks_cpu_idx s"
  by (auto simp: lock_free_def taken_def kstack_ok_def)

lemma acquire_release_id:
  assumes "lock_free s l" and "kstack_ok s"
  shows "kthen (spinlock_acquire l) (spinlock_release l) s = Ret () s"
  using assms by (simp add: kwp flip: returns_eq_Ret)

lemma debug_pair_id:
  assumes "lock_free s l" and "kstack_ok s"
  shows "kthen (spinlock_acquire_dbg l) (spinlock_release_dbg l) s = Ret () s"
proof -
  have h0: "spinlock_holding l s = Ret False s"
    using assms(1) by (simp add: spinlock_holding_def lock_free_def unlocked_def kwp flip: returns_eq_Ret)
  have h1: "spinlock_holding l (taken s l) = Ret True (taken s l)"
    using assms(2)
    by (simp add: spinlock_holding_def assert_kstack_def taken_def kstack_ok_def kwp flip: returns_eq_Ret)
  have "returns (kthen (spinlock_acquire_dbg l) (spinlock_release_dbg l)) s (\<lambda>_ t. t = s)"
    using assms
    by (simp add: spinlock_acquire_dbg_def spinlock_release_dbg_def kwp returns_Ret [where m = "spinlock_holding l", OF h0]
        returns_Ret [where m = "spinlock_holding l", OF h1])
  then show ?thesis by (simp flip: returns_eq_Ret)
qed

section \<open>Contention of several processors\<close>

text \<open>
  The program counter of a processor inside \<^verbatim>\<open>spinlock_acquire\<close>, its critical section
  and \<^verbatim>\<open>spinlock_release\<close>. \<open>Entering\<close> and \<open>Leaving\<close> are the points between the exchange
  on \<^verbatim>\<open>lk->lock\<close> and the store to \<^verbatim>\<open>lk->lock_holder\<close>.
\<close>

datatype spin_pc = Outside | Spinning | Entering | Inside | Leaving

record spin_sys =
  sp_lock :: spinlock
  sp_pc :: "nat \<Rightarrow> spin_pc"

definition spin_init :: spin_sys where
  "spin_init = \<lparr>sp_lock = unlocked, sp_pc = (\<lambda>_. Outside)\<rparr>"

inductive spin_step :: "spin_sys \<Rightarrow> spin_sys \<Rightarrow> bool" where
  call: "c < NUM_CPUS \<Longrightarrow> sp_pc s c = Outside \<Longrightarrow>
    spin_step s (s\<lparr>sp_pc := (sp_pc s)(c := Spinning)\<rparr>)"
| spin: "sp_pc s c = Spinning \<Longrightarrow> lock (sp_lock s) \<noteq> 0 \<Longrightarrow>
    spin_step s (s\<lparr>sp_lock := (sp_lock s)\<lparr>lock := 1\<rparr>\<rparr>)"
| win: "sp_pc s c = Spinning \<Longrightarrow> lock (sp_lock s) = 0 \<Longrightarrow>
    spin_step s (s\<lparr>sp_lock := (sp_lock s)\<lparr>lock := 1\<rparr>, sp_pc := (sp_pc s)(c := Entering)\<rparr>)"
| enter: "sp_pc s c = Entering \<Longrightarrow>
    spin_step s (s\<lparr>sp_lock := (sp_lock s)\<lparr>lock_holder := c\<rparr>, sp_pc := (sp_pc s)(c := Inside)\<rparr>)"
| leave: "sp_pc s c = Inside \<Longrightarrow>
    spin_step s (s\<lparr>sp_lock := (sp_lock s)\<lparr>lock_holder := NUM_CPUS + 1\<rparr>,
                   sp_pc := (sp_pc s)(c := Leaving)\<rparr>)"
| release: "sp_pc s c = Leaving \<Longrightarrow>
    spin_step s (s\<lparr>sp_lock := (sp_lock s)\<lparr>lock := 0\<rparr>, sp_pc := (sp_pc s)(c := Outside)\<rparr>)"

inductive spin_reachable :: "spin_sys \<Rightarrow> bool" where
  start: "spin_reachable spin_init"
| step: "spin_reachable s \<Longrightarrow> spin_step s t \<Longrightarrow> spin_reachable t"

definition owns :: "spin_sys \<Rightarrow> nat \<Rightarrow> bool" where
  "owns s c = (sp_pc s c \<in> {Entering, Inside, Leaving})"

definition owner_inv :: "nat option \<Rightarrow> spin_sys \<Rightarrow> bool" where
  "owner_inv w s =
     ((\<forall>c. owns s c \<longleftrightarrow> w = Some c) \<and>
      (w \<noteq> None \<longrightarrow> lock (sp_lock s) \<noteq> 0) \<and>
      (\<forall>c. sp_pc s c \<noteq> Outside \<longrightarrow> c < NUM_CPUS) \<and>
      lock_holder (sp_lock s) =
        (case w of None \<Rightarrow> NUM_CPUS + 1
         | Some c \<Rightarrow> if sp_pc s c = Inside then c else NUM_CPUS + 1))"

definition spin_inv :: "spin_sys \<Rightarrow> bool" where
  "spin_inv s = (\<exists>w. owner_inv w s)"

lemma spin_inv_init: "spin_inv spin_init"
  by (simp add: spin_inv_def owner_inv_def spin_init_def owns_def unlocked_def)

lemma owner_iff: "owner_inv w s \<Longrightarrow> w = Some c \<longleftrightarrow> owns s c"
  by (simp add: owner_inv_def)

lemma owner_inv_step: "spin_step s t \<Longrightarrow> owner_inv w s \<Longrightarrow> \<exists>v. owner_inv v t"
proof (induction rule: spin_step.induct)
  case (call c s)
  then have "w \<noteq> Some c" by (simp add: owner_iff owns_def)
  with call show ?case
    by (intro exI [of _ w]) (auto simp: owner_inv_def owns_def split: option.split)
next
  case (spin s c)
  then show ?case
    by (intro exI [of _ w]) (simp add: owner_inv_def owns_def split: option.split)
next
  case (win s c)
  then have "w = None" and "c < NUM_CPUS" by (auto simp: owner_inv_def)
  with win show ?case by (intro exI [of _ "Some c"]) (auto simp: owner_inv_def owns_def)
next
  case (enter s c)
  then have "w = Some c" by (simp add: owner_iff owns_def)
  with enter show ?case by (intro exI [of _ w]) (auto simp: owner_inv_def owns_def)
next
  case (leave s c)
  then have "w = Some c" by (simp add: owner_iff owns_def)
  with leave show ?case by (intro exI [of _ w]) (auto simp: owner_inv_def owns_def)
next
  case (release s c)
  then have "w = Some c" by (simp add: owner_iff owns_def)
  with release show ?case by (intro exI [of _ None]) (auto simp: owner_inv_def owns_def)
qed

lemma spin_inv_step: "spin_step s t \<Longrightarrow> spin_inv s \<Longrightarrow> spin_inv t"
  unfolding spin_inv_def by (blast intro: owner_inv_step)

lemma spin_reachable_inv: "spin_reachable s \<Longrightarrow> spin_inv s"
  by (induction rule: spin_reachable.induct) (auto intro: spin_inv_init spin_inv_step)

lemma spin_inv_inside:
  assumes "spin_inv s" and "sp_pc s c = Inside"
  shows "lock (sp_lock s) \<noteq> 0 \<and> lock_holder (sp_lock s) = c"
proof -
  from assms(1) obtain w where w: "owner_inv w s" unfolding spin_inv_def by blast
  with assms(2) have "w = Some c" by (simp add: owner_iff owns_def)
  with w assms(2) show ?thesis by (simp add: owner_inv_def)
qed

lemma spin_inv_holder:
  "spin_inv s \<Longrightarrow> c < NUM_CPUS \<Longrightarrow> lock_holder (sp_lock s) = c \<Longrightarrow> sp_pc s c = Inside"
  by (auto simp: spin_inv_def owner_inv_def split: option.splits if_splits)

text \<open>
  The steps \<open>win\<close> and \<open>enter\<close> are the two effects of \<^verbatim>\<open>spinlock_acquire\<close>, and \<open>leave\<close>
  and \<open>release\<close> those of \<^verbatim>\<open>spinlock_release\<close>.
\<close>

lemma spin_acquire_steps:
  assumes "sp_lock s = locks k l" and "lock (locks k l) = 0" and "sp_pc s (ks_cpu_idx k) = Spinning"
    and "kstack_ok k"
  shows "\<exists>t u k'. spin_step s t \<and> spin_step t u \<and> spinlock_acquire l k = Ret () k' \<and>
    sp_lock u = locks k' l \<and> sp_pc u (ks_cpu_idx k) = Inside"
proof -
  let ?t = "s\<lparr>sp_lock := (sp_lock s)\<lparr>lock := 1\<rparr>, sp_pc := (sp_pc s)(ks_cpu_idx k := Entering)\<rparr>"
  let ?u = "?t\<lparr>sp_lock := (sp_lock ?t)\<lparr>lock_holder := ks_cpu_idx k\<rparr>,
              sp_pc := (sp_pc ?t)(ks_cpu_idx k := Inside)\<rparr>"
  have "spin_step s ?t" using assms by (intro spin_step.win) auto
  moreover have "spin_step ?t ?u" by (intro spin_step.enter) simp
  moreover have ret: "returns (spinlock_acquire l) k (\<lambda>_ k'. sp_lock ?u = locks k' l)"
    using assms
    by (simp add: spinlock_acquire_def assert_kstack_def set_lock_holder_def kstack_ok_def kwp)
  from ret obtain k' where "spinlock_acquire l k = Ret () k'" and "sp_lock ?u = locks k' l"
    by (auto elim!: returnsE)
  ultimately show ?thesis by (intro exI [of _ ?t] exI [of _ ?u] exI [of _ k'] conjI) simp_all
qed

section \<open>Properties\<close>

text \<open>
  C14: at most one processor is inside the critical section of a spinlock, the lock word is
  set there and \<^verbatim>\<open>lock_holder\<close> names that processor, under every interleaving of the
  exchanges and stores of \<^verbatim>\<open>spinlock_acquire\<close> and \<^verbatim>\<open>spinlock_release\<close>.
\<close>

theorem spinlock_mutual_exclusion:
  assumes "spin_reachable s" and "sp_pc s c = Inside" and "sp_pc s d = Inside"
  shows "c = d \<and> lock (sp_lock s) \<noteq> 0 \<and> lock_holder (sp_lock s) = c"
  using spin_inv_inside [OF spin_reachable_inv [OF assms(1)]] assms(2,3) by metis

lemma spin_example:
  "spin_reachable \<lparr>sp_lock = \<lparr>lock_holder = 3, lock = 1\<rparr>, sp_pc = (\<lambda>_. Outside)(3 := Inside)\<rparr>"
proof -
  have a: "spin_reachable \<lparr>sp_lock = unlocked, sp_pc = (\<lambda>_. Outside)(3 := Spinning)\<rparr>"
    using spin_reachable.step [OF spin_reachable.start spin_step.call [of 3]]
    by (simp add: spin_init_def kconst)
  have b: "spin_reachable
      \<lparr>sp_lock = unlocked\<lparr>lock := 1\<rparr>, sp_pc = (\<lambda>_. Outside)(3 := Entering)\<rparr>"
    using spin_reachable.step [OF a spin_step.win [of _ 3]] by (simp add: unlocked_def)
  show ?thesis
    using spin_reachable.step [OF b spin_step.enter [of _ 3]] by (simp add: unlocked_def)
qed

theorem spinlock_mutual_exclusion_witness:
  "\<exists>s. spin_reachable s \<and> sp_pc s 3 = Inside \<and>
     lock (sp_lock s) \<noteq> 0 \<and> lock_holder (sp_lock s) = 3"
  using spin_example spinlock_mutual_exclusion [OF spin_example, of 3 3]
  by (intro exI [of _ "\<lparr>sp_lock = \<lparr>lock_holder = 3, lock = 1\<rparr>,
                         sp_pc = (\<lambda>_. Outside)(3 := Inside)\<rparr>"]) simp

text \<open>
  C15: \<^verbatim>\<open>spinlock_holding\<close> answers exactly whether the calling processor is inside the
  critical section: it is false while the lock is being taken or given back.
\<close>

theorem spinlock_holding_exact:
  assumes "spin_reachable s" and "locks k l = sp_lock s" and "kstack_ok k"
    and "ks_cpu_idx k < NUM_CPUS"
  shows "spinlock_holding l k = Ret (sp_pc s (ks_cpu_idx k) = Inside) k"
proof -
  note inv = spin_reachable_inv [OF assms(1)]
  have "sp_pc s (ks_cpu_idx k) = Inside \<longleftrightarrow>
      lock (sp_lock s) \<noteq> 0 \<and> lock_holder (sp_lock s) = ks_cpu_idx k"
    using spin_inv_inside [OF inv, of "ks_cpu_idx k"] spin_inv_holder [OF inv assms(4)] by auto
  with assms(2,3) have "returns (spinlock_holding l) k (\<lambda>r t. r = (sp_pc s (ks_cpu_idx k) = Inside) \<and> t = k)"
    by (auto simp: spinlock_holding_def assert_kstack_def kstack_ok_def kwp)
  then show ?thesis by (simp add: returns_eq_Ret)
qed

theorem spinlock_holding_exact_witness:
  "\<exists>s k :: kbase. spin_reachable s \<and> locks k SchedLk = sp_lock s \<and>
     spinlock_holding SchedLk k = Ret True k"
proof -
  let ?k = "\<lparr>ks_cpu_idx = 3, ks_magic = KSTACK_MAGIC,
              locks = (\<lambda>_. unlocked)(SchedLk := \<lparr>lock_holder = 3, lock = 1\<rparr>)\<rparr>"
  show ?thesis
    using spinlock_holding_exact [OF spin_example, of ?k SchedLk] spin_example
    by (intro exI [of _ "\<lparr>sp_lock = \<lparr>lock_holder = 3, lock = 1\<rparr>,
                           sp_pc = (\<lambda>_. Outside)(3 := Inside)\<rparr>"] exI [of _ ?k])
       (simp add: kstack_ok_def kconst)
qed

section \<open>Reentrant locks\<close>

text \<open>
  \<^verbatim>\<open>kern/lib/reentrant_lock.c\<close>: the lock word is the index of the owner or
  \<^verbatim>\<open>UNLOCKED\<close>, and \<^verbatim>\<open>count\<close> the depth. \<open>reentrantlock_acquire\<close> is \<open>None\<close> where the
  loop on the compare-and-exchange does not end without another processor.
\<close>

record reentrantlock =
  rl_lock :: u32
  rl_count :: u32

definition UNLOCKED :: u32 where "UNLOCKED = 0xFFFFFFFF"

definition reentrantlock_init :: "reentrantlock \<Rightarrow> reentrantlock" where
  "reentrantlock_init lk = lk\<lparr>rl_lock := UNLOCKED, rl_count := 0\<rparr>"

definition reentrantlock_holding :: "reentrantlock \<Rightarrow> bool" where
  "reentrantlock_holding lk = (rl_count lk > 0)"

definition cmpxchg_rl :: "reentrantlock \<Rightarrow> u32 \<Rightarrow> u32 \<Rightarrow> u32 \<times> reentrantlock" where
  "cmpxchg_rl lk old new =
     (rl_lock lk, if rl_lock lk = old then lk\<lparr>rl_lock := new\<rparr> else lk)"

definition reentrantlock_try_acquire :: "u32 \<Rightarrow> reentrantlock \<Rightarrow> int \<times> reentrantlock" where
  "reentrantlock_try_acquire cpuid lk =
     (let (lv, lk') = cmpxchg_rl lk UNLOCKED cpuid
      in if lv = cpuid \<or> lv = UNLOCKED then (1, lk'\<lparr>rl_count := rl_count lk' + 1\<rparr>) else (0, lk'))"

definition reentrantlock_acquire :: "u32 \<Rightarrow> reentrantlock \<Rightarrow> reentrantlock option" where
  "reentrantlock_acquire cpuid lk =
     (let (lv, lk') = cmpxchg_rl lk UNLOCKED cpuid
      in if lv \<noteq> cpuid \<and> lv \<noteq> UNLOCKED then None else Some (lk'\<lparr>rl_count := rl_count lk' + 1\<rparr>))"

definition reentrantlock_release :: "reentrantlock \<Rightarrow> reentrantlock" where
  "reentrantlock_release lk =
     (let lk' = lk\<lparr>rl_count := rl_count lk - 1\<rparr>
      in if rl_count lk' = 0 then lk'\<lparr>rl_lock := UNLOCKED\<rparr> else lk')"

fun acquire_times :: "nat \<Rightarrow> u32 \<Rightarrow> reentrantlock \<Rightarrow> reentrantlock option" where
  "acquire_times 0 c lk = Some lk"
| "acquire_times (Suc n) c lk = Option.bind (reentrantlock_acquire c lk) (acquire_times n c)"

definition rl_held :: "u32 \<Rightarrow> nat \<Rightarrow> reentrantlock" where
  "rl_held c n = \<lparr>rl_lock = (if n = 0 then UNLOCKED else c), rl_count = of_nat n\<rparr>"

lemma reentrant_acquire_held: "reentrantlock_acquire c (rl_held c n) = Some (rl_held c (Suc n))"
  by (auto simp: reentrantlock_acquire_def cmpxchg_rl_def rl_held_def)

lemma of_nat_u32_eq_0: "n < 2 ^ 32 \<Longrightarrow> (of_nat n :: u32) = 0 \<longleftrightarrow> n = 0"
  by (auto simp: word_of_nat_eq_0_iff dest: nat_dvd_not_less)

lemma reentrant_release_held:
  "Suc n < 2 ^ 32 \<Longrightarrow> reentrantlock_release (rl_held c (Suc n)) = rl_held c n"
  using of_nat_u32_eq_0 [of n]
  by (auto simp: reentrantlock_release_def rl_held_def Let_def)

lemma acquire_times_held: "acquire_times m c (rl_held c n) = Some (rl_held c (n + m))"
  by (induction m arbitrary: n) (simp_all add: reentrant_acquire_held)

lemma release_times_held:
  "n + m < 2 ^ 32 \<Longrightarrow> (reentrantlock_release ^^ m) (rl_held c (n + m)) = rl_held c n"
proof (induction m arbitrary: n)
  case 0
  then show ?case by simp
next
  case (Suc m)
  then have "(reentrantlock_release ^^ Suc m) (rl_held c (n + Suc m)) =
      reentrantlock_release ((reentrantlock_release ^^ m) (rl_held c (Suc n + m)))"
    by simp
  also have "\<dots> = reentrantlock_release (rl_held c (Suc n))"
    using Suc.IH [of "Suc n"] Suc.prems by simp
  also have "\<dots> = rl_held c n" using Suc.prems by (simp add: reentrant_release_held)
  finally show ?case .
qed

text \<open>
  C16: a processor that acquires a free reentrant lock \<open>n\<close> times never waits, another
  processor's \<^verbatim>\<open>reentrantlock_try_acquire\<close> fails meanwhile, and \<open>n\<close> releases give back
  the free lock, for every depth below the range of the counter.
\<close>

theorem reentrantlock_nesting:
  assumes "0 < n" and "n < 2 ^ 32" and "c \<noteq> d" and "c \<noteq> UNLOCKED"
  shows "\<exists>lk. acquire_times n c (reentrantlock_init lk0) = Some lk \<and>
    reentrantlock_try_acquire d lk = (0, lk) \<and>
    (reentrantlock_release ^^ n) lk = reentrantlock_init lk0"
proof -
  have init: "reentrantlock_init lk0 = rl_held c 0"
    by (cases lk0) (simp add: reentrantlock_init_def rl_held_def)
  have "acquire_times n c (rl_held c 0) = Some (rl_held c n)"
    using acquire_times_held [of n c 0] by simp
  moreover have "(reentrantlock_release ^^ n) (rl_held c n) = rl_held c 0"
    using release_times_held [of 0 n c] assms by simp
  moreover have "reentrantlock_try_acquire d (rl_held c n) = (0, rl_held c n)"
    using assms by (auto simp: reentrantlock_try_acquire_def cmpxchg_rl_def rl_held_def)
  ultimately show ?thesis unfolding init by blast
qed

theorem reentrantlock_nesting_witness:
  "\<exists>lk. acquire_times 2 0 (reentrantlock_init \<lparr>rl_lock = 7, rl_count = 9\<rparr>) = Some lk \<and>
    reentrantlock_try_acquire 1 lk = (0, lk) \<and>
    (reentrantlock_release ^^ 2) lk = reentrantlock_init \<lparr>rl_lock = 7, rl_count = 9\<rparr>"
  by (rule reentrantlock_nesting) (simp_all add: UNLOCKED_def)

end
