(* ===== verification/KLib.thy ===== *)
theory KLib
  imports Prelude
begin

text \<open>
  \<^verbatim>\<open>kern/lib/types.c\<close> and \<^verbatim>\<open>kern/lib/string.c\<close>.

  Memory is a function from 32-bit addresses to bytes. The \<^verbatim>\<open>rep\<close> instructions of the
  inline assembly are recursive functions on the count in \<^verbatim>\<open>%ecx\<close>; the direction flag
  selects the ascending or the descending version. The functions that only read a string
  take the bytes found from the pointer on, as a function of the offset.
\<close>

section \<open>\<^verbatim>\<open>types.c\<close>\<close>

definition max_u32 :: "u32 \<Rightarrow> u32 \<Rightarrow> u32" where
  "max_u32 a b = (if a > b then a else b)"

definition min_u32 :: "u32 \<Rightarrow> u32 \<Rightarrow> u32" where
  "min_u32 a b = (if a < b then a else b)"

definition rounddown :: "u32 \<Rightarrow> u32 \<Rightarrow> u32" where
  "rounddown a n = a - a mod n"

definition roundup :: "u32 \<Rightarrow> u32 \<Rightarrow> u32" where
  "roundup a n = rounddown (a + n - 1) n"

lemma unat_rounddown: "unat (rounddown a n) = unat a - unat a mod unat n"
proof -
  have "a mod n \<le> a"
    by (simp add: word_le_nat_alt unat_mod)
  then show ?thesis by (simp add: rounddown_def unat_sub unat_mod)
qed

lemma rounddown_le: "rounddown a n \<le> a"
  by (simp add: word_le_nat_alt unat_rounddown)

lemma rounddown_dvd: "unat n dvd unat (rounddown a n)"
  by (simp add: unat_rounddown minus_mod_eq_mult_div)

section \<open>Blocks of memory\<close>

type_synonym mem = "u32 \<Rightarrow> u8"

fun rep_stosb :: "nat \<Rightarrow> u32 \<Rightarrow> u8 \<Rightarrow> mem \<Rightarrow> mem" where
  "rep_stosb 0 d c m = m"
| "rep_stosb (Suc n) d c m = rep_stosb n (d + 1) c (m(d := c))"

definition store32 :: "u32 \<Rightarrow> u32 \<Rightarrow> mem \<Rightarrow> mem" where
  "store32 d v m = m(d := ucast v, d + 1 := ucast (drop_bit 8 v),
     d + 2 := ucast (drop_bit 16 v), d + 3 := ucast (drop_bit 24 v))"

fun rep_stosl :: "nat \<Rightarrow> u32 \<Rightarrow> u32 \<Rightarrow> mem \<Rightarrow> mem" where
  "rep_stosl 0 d v m = m"
| "rep_stosl (Suc n) d v m = rep_stosl n (d + 4) v (store32 d v m)"

definition memset :: "u32 \<Rightarrow> u32 \<Rightarrow> u32 \<Rightarrow> mem \<Rightarrow> u32 \<times> mem" where
  "memset v c n m =
     (if n = 0 then (v, m)
      else if v mod 4 = 0 \<and> n mod 4 = 0 then
        (let c = c AND 0xFF;
             c = push_bit 24 c OR push_bit 16 c OR push_bit 8 c OR c
         in (v, rep_stosl (unat (n div 4)) v c m))
      else (v, rep_stosb (unat n) v (ucast c) m))"

definition memzero :: "u32 \<Rightarrow> u32 \<Rightarrow> mem \<Rightarrow> u32 \<times> mem" where
  "memzero v n m = memset v 0 n m"

fun rep_movsb :: "nat \<Rightarrow> u32 \<Rightarrow> u32 \<Rightarrow> mem \<Rightarrow> mem" where
  "rep_movsb 0 d s m = m"
| "rep_movsb (Suc n) d s m = rep_movsb n (d + 1) (s + 1) (m(d := m s))"

fun std_rep_movsb :: "nat \<Rightarrow> u32 \<Rightarrow> u32 \<Rightarrow> mem \<Rightarrow> mem" where
  "std_rep_movsb 0 d s m = m"
| "std_rep_movsb (Suc n) d s m = std_rep_movsb n (d - 1) (s - 1) (m(d := m s))"

definition mov32 :: "u32 \<Rightarrow> u32 \<Rightarrow> mem \<Rightarrow> mem" where
  "mov32 d s m = m(d := m s, d + 1 := m (s + 1), d + 2 := m (s + 2), d + 3 := m (s + 3))"

fun rep_movsl :: "nat \<Rightarrow> u32 \<Rightarrow> u32 \<Rightarrow> mem \<Rightarrow> mem" where
  "rep_movsl 0 d s m = m"
| "rep_movsl (Suc n) d s m = rep_movsl n (d + 4) (s + 4) (mov32 d s m)"

fun std_rep_movsl :: "nat \<Rightarrow> u32 \<Rightarrow> u32 \<Rightarrow> mem \<Rightarrow> mem" where
  "std_rep_movsl 0 d s m = m"
| "std_rep_movsl (Suc n) d s m = std_rep_movsl n (d - 4) (s - 4) (mov32 d s m)"

definition memmove :: "u32 \<Rightarrow> u32 \<Rightarrow> u32 \<Rightarrow> mem \<Rightarrow> u32 \<times> mem" where
  "memmove dst src n m =
     (let s = src; d = dst in
      if s < d \<and> s + n > d then
        (let s = s + n; d = d + n in
         if s mod 4 = 0 \<and> d mod 4 = 0 \<and> n mod 4 = 0
         then (dst, std_rep_movsl (unat (n div 4)) (d - 4) (s - 4) m)
         else (dst, std_rep_movsb (unat n) (d - 1) (s - 1) m))
      else
        if s mod 4 = 0 \<and> d mod 4 = 0 \<and> n mod 4 = 0
        then (dst, rep_movsl (unat (n div 4)) d s m)
        else (dst, rep_movsb (unat n) d s m))"

definition memcpy :: "u32 \<Rightarrow> u32 \<Rightarrow> u32 \<Rightarrow> mem \<Rightarrow> u32 \<times> mem" where
  "memcpy dst src n m = memmove dst src n m"

section \<open>Strings\<close>

fun strncmp_from :: "nat \<Rightarrow> (nat \<Rightarrow> u8) \<Rightarrow> (nat \<Rightarrow> u8) \<Rightarrow> nat \<Rightarrow> int" where
  "strncmp_from 0 p q i = 0"
| "strncmp_from (Suc n) p q i =
     (if p i \<noteq> 0 \<and> p i = q i then strncmp_from n p q (Suc i) else uint (p i) - uint (q i))"

definition strncmp :: "(nat \<Rightarrow> u8) \<Rightarrow> (nat \<Rightarrow> u8) \<Rightarrow> nat \<Rightarrow> int" where
  "strncmp p q n = strncmp_from n p q 0"

fun strnlen_from :: "nat \<Rightarrow> (nat \<Rightarrow> u8) \<Rightarrow> nat \<Rightarrow> nat" where
  "strnlen_from 0 s n = n"
| "strnlen_from (Suc sz) s n = (if s n \<noteq> 0 then strnlen_from sz s (Suc n) else n)"

definition strnlen :: "(nat \<Rightarrow> u8) \<Rightarrow> nat \<Rightarrow> nat" where
  "strnlen s sz = strnlen_from sz s 0"

partial_function (option) strcmp_from :: "(nat \<Rightarrow> u8) \<Rightarrow> (nat \<Rightarrow> u8) \<Rightarrow> nat \<Rightarrow> int option" where
  "strcmp_from p q i =
     (if p i \<noteq> 0 \<and> p i = q i then strcmp_from p q (Suc i) else Some (uint (p i) - uint (q i)))"

definition strcmp :: "(nat \<Rightarrow> u8) \<Rightarrow> (nat \<Rightarrow> u8) \<Rightarrow> int option" where
  "strcmp p q = strcmp_from p q 0"

text \<open>The outer \<open>option\<close> of \<open>strchr\<close> is termination, the inner one the null pointer.\<close>

partial_function (option) strchr_from :: "(nat \<Rightarrow> u8) \<Rightarrow> u8 \<Rightarrow> nat \<Rightarrow> nat option option" where
  "strchr_from s c i =
     (if s i \<noteq> 0 then (if s i = c then Some (Some i) else strchr_from s c (Suc i))
      else Some None)"

definition strchr :: "(nat \<Rightarrow> u8) \<Rightarrow> u8 \<Rightarrow> nat option option" where
  "strchr s c = strchr_from s c 0"

fun memcmp_from :: "nat \<Rightarrow> (nat \<Rightarrow> u8) \<Rightarrow> (nat \<Rightarrow> u8) \<Rightarrow> nat \<Rightarrow> int" where
  "memcmp_from 0 s1 s2 i = 0"
| "memcmp_from (Suc n) s1 s2 i =
     (if s1 i \<noteq> s2 i then uint (s1 i) - uint (s2 i) else memcmp_from n s1 s2 (Suc i))"

definition memcmp :: "(nat \<Rightarrow> u8) \<Rightarrow> (nat \<Rightarrow> u8) \<Rightarrow> nat \<Rightarrow> int" where
  "memcmp v1 v2 n = memcmp_from n v1 v2 0"

text \<open>The two loops of \<^verbatim>\<open>strncpy\<close>: the copy up to and including the NUL, and the padding.\<close>

fun strncpy_pad :: "nat \<Rightarrow> (nat \<Rightarrow> u8) \<Rightarrow> nat \<Rightarrow> (nat \<Rightarrow> u8)" where
  "strncpy_pad 0 s i = s"
| "strncpy_pad (Suc n) s i = strncpy_pad n (s(i := 0)) (Suc i)"

fun strncpy_copy :: "nat \<Rightarrow> (nat \<Rightarrow> u8) \<Rightarrow> (nat \<Rightarrow> u8) \<Rightarrow> nat \<Rightarrow> (nat \<Rightarrow> u8)" where
  "strncpy_copy 0 s t i = s"
| "strncpy_copy (Suc n) s t i =
     (if t i \<noteq> 0 then strncpy_copy n (s(i := t i)) t (Suc i)
      else strncpy_pad n (s(i := t i)) (Suc i))"

definition strncpy :: "(nat \<Rightarrow> u8) \<Rightarrow> (nat \<Rightarrow> u8) \<Rightarrow> nat \<Rightarrow> (nat \<Rightarrow> u8)" where
  "strncpy s t n = strncpy_copy n s t 0"

section \<open>What the block operations compute\<close>

lemma unat_less_Suc_iff: "unat (x :: u32) < Suc n \<longleftrightarrow> x = 0 \<or> unat (x - 1) < n"
proof (cases "x = 0")
  case False
  then have "0 < unat x" by (metis gr0I unat_eq_0)
  with False show ?thesis by (auto simp: unat_minus_one)
qed simp

lemma rep_stosb_eq: "rep_stosb n d c m = (\<lambda>a. if unat (a - d) < n then c else m a)"
proof (induction n arbitrary: d m)
  case (Suc n)
  show ?case
    by (simp add: Suc.IH fun_eq_iff unat_less_Suc_iff diff_diff_eq2 diff_diff_eq)
qed simp

lemma rep_stosb_add: "rep_stosb (k + n) d c m = rep_stosb n (d + of_nat k) c (rep_stosb k d c m)"
  by (induction k arbitrary: d m) (simp_all add: ac_simps)

lemma fill_bytes:
  fixes c :: u32
  defines "w \<equiv> push_bit 24 (c AND 0xFF) OR push_bit 16 (c AND 0xFF) OR push_bit 8 (c AND 0xFF) OR (c AND 0xFF)"
  shows "ucast w = (ucast c :: u8)" "ucast (drop_bit 8 w) = (ucast c :: u8)"
    "ucast (drop_bit 16 w) = (ucast c :: u8)" "ucast (drop_bit 24 w) = (ucast c :: u8)"
proof -
  have m: "(0xFF :: u32) = mask 8" by (simp add: mask_eq_exp_minus_1)
  show "ucast w = (ucast c :: u8)" "ucast (drop_bit 8 w) = (ucast c :: u8)"
    "ucast (drop_bit 16 w) = (ucast c :: u8)" "ucast (drop_bit 24 w) = (ucast c :: u8)"
    unfolding w_def m by (rule bit_word_eqI; auto simp: bit_simps)+
qed

lemma rep_stosl_stosb:
  assumes "ucast v = c" "ucast (drop_bit 8 v) = c" "ucast (drop_bit 16 v) = c" "ucast (drop_bit 24 v) = c"
  shows "rep_stosl n d v m = rep_stosb (4 * n) d c m"
proof (induction n arbitrary: d m)
  case (Suc n)
  have "store32 d v m = rep_stosb 4 d c m"
    using assms by (simp add: store32_def eval_nat_numeral add.assoc)
  moreover have "rep_stosb (4 * Suc n) d c m = rep_stosb (4 * n) (d + 4) c (rep_stosb 4 d c m)"
    using rep_stosb_add [of 4 "4 * n" d c m] by simp
  ultimately show ?case by (simp add: Suc.IH)
qed simp

lemma mod4_div4: "n mod 4 = 0 \<Longrightarrow> 4 * unat (n div 4 :: u32) = unat n"
proof -
  assume "n mod 4 = 0"
  then have "unat (n mod 4) = 0" by simp
  then have "unat n mod 4 = 0" by (simp add: unat_mod)
  moreover have "unat (n div 4) = unat n div 4" by (simp add: unat_div)
  ultimately show ?thesis by presburger
qed

lemma memset_eq: "memset v c n m = (v, \<lambda>a. if a - v < n then ucast c else m a)"
  unfolding memset_def Let_def rep_stosl_stosb [OF fill_bytes]
  by (simp add: mod4_div4 rep_stosb_eq word_less_nat_alt)

lemma rep_movsb_eq:
  assumes "d = s \<or> n \<le> unat (d - s)"
  shows "rep_movsb n d s m = (\<lambda>a. if unat (a - d) < n then m (s + (a - d)) else m a)"
  using assms
proof (induction n arbitrary: d s m)
  case (Suc n)
  then have IH: "rep_movsb n (d + 1) (s + 1) (m(d := m s)) =
      (\<lambda>a. if unat (a - (d + 1)) < n then (m(d := m s)) (s + 1 + (a - (d + 1))) else (m(d := m s)) a)"
    by (intro Suc.IH) auto
  show ?case
  proof
    fix a
    have eq: "s + 1 + (a - (d + 1)) = s + (a - d)" and lt: "a - (d + 1) = a - d - 1" by simp_all
    have "s + (a - d) \<noteq> d" if "a \<noteq> d" "unat (a - d) < Suc n"
    proof
      assume *: "s + (a - d) = d"
      then have "a - d = d - s" by (simp add: algebra_simps)
      with Suc.prems that * show False by auto
    qed
    then show "rep_movsb (Suc n) d s m a = (if unat (a - d) < Suc n then m (s + (a - d)) else m a)"
      unfolding rep_movsb.simps IH eq lt by (cases "a = d") (simp_all add: unat_less_Suc_iff)
  qed
qed simp

lemma std_rep_movsb_eq:
  assumes "d = s \<or> n \<le> unat (s - d)"
  shows "std_rep_movsb n d s m = (\<lambda>a. if unat (d - a) < n then m (s + (a - d)) else m a)"
  using assms
proof (induction n arbitrary: d s m)
  case (Suc n)
  then have IH: "std_rep_movsb n (d - 1) (s - 1) (m(d := m s)) =
      (\<lambda>a. if unat (d - 1 - a) < n then (m(d := m s)) (s - 1 + (a - (d - 1))) else (m(d := m s)) a)"
    by (intro Suc.IH) auto
  show ?case
  proof
    fix a
    have eq: "s - 1 + (a - (d - 1)) = s + (a - d)" and lt: "d - 1 - a = d - a - 1" by simp_all
    have "s + (a - d) \<noteq> d" if "a \<noteq> d" "unat (d - a) < Suc n"
    proof
      assume *: "s + (a - d) = d"
      then have "d - a = s - d" by (simp add: algebra_simps)
      with Suc.prems that * show False by auto
    qed
    then show "std_rep_movsb (Suc n) d s m a = (if unat (d - a) < Suc n then m (s + (a - d)) else m a)"
      unfolding std_rep_movsb.simps IH eq lt by (cases "a = d") (simp_all add: unat_less_Suc_iff)
  qed
qed simp

lemma rep_movsb_add: "rep_movsb (k + n) d s m = rep_movsb n (d + of_nat k) (s + of_nat k) (rep_movsb k d s m)"
  by (induction k arbitrary: d s m) (simp_all add: ac_simps)

lemma std_rep_movsb_add:
  "std_rep_movsb (k + n) d s m = std_rep_movsb n (d - of_nat k) (s - of_nat k) (std_rep_movsb k d s m)"
  by (induction k arbitrary: d s m) (simp_all add: algebra_simps)

lemma unat_diff_ne: "4 \<le> unat (d - s :: u32) \<Longrightarrow> s + 1 \<noteq> d \<and> s + 2 \<noteq> d \<and> s + 3 \<noteq> d"
  by auto

lemma four_Suc: "(4::nat) = Suc (Suc (Suc (Suc 0)))"
  by simp

lemma mov32_movsb: "d = s \<or> 4 \<le> unat (d - s) \<Longrightarrow> mov32 d s m = rep_movsb 4 d s m"
  using unat_diff_ne [of d s] unfolding four_Suc rep_movsb.simps
  by (auto simp: mov32_def add.assoc)

lemma std_rep_movsb_4:
  "std_rep_movsb 4 d s m = (let m1 = m(d := m s); m2 = m1(d - 1 := m1 (s - 1));
     m3 = m2(d - 2 := m2 (s - 2)) in m3(d - 3 := m3 (s - 3)))"
  unfolding four_Suc std_rep_movsb.simps by (simp add: Let_def diff_diff_eq)

lemma mov32_std_movsb:
  assumes "d = s \<or> 4 \<le> unat (s - d)"
  shows "mov32 d s m = std_rep_movsb 4 (d + 3) (s + 3) m"
proof -
  have "d + 3 \<noteq> s + 2" "d + 3 \<noteq> s + 1" "d + 3 \<noteq> s" "d + 2 \<noteq> s + 1" "d + 2 \<noteq> s" "d + 1 \<noteq> s"
    if "d \<noteq> s" using that assms by auto
  then show ?thesis
    by (cases "d = s") (auto simp: mov32_def std_rep_movsb_4 fun_eq_iff add.commute [of _ s])
qed

lemma rep_movsl_movsb:
  "d = s \<or> 4 * n \<le> unat (d - s) \<Longrightarrow> rep_movsl n d s m = rep_movsb (4 * n) d s m"
proof (induction n arbitrary: d s m)
  case (Suc n)
  then have "rep_movsl n (d + 4) (s + 4) (mov32 d s m) = rep_movsb (4 * n) (d + 4) (s + 4) (rep_movsb 4 d s m)"
    using mov32_movsb [of d s m] by (subst Suc.IH) auto
  also have "\<dots> = rep_movsb (4 * Suc n) d s m" using rep_movsb_add [of 4 "4 * n" d s m] by simp
  finally show ?case by simp
qed simp

lemma std_rep_movsl_movsb:
  "d = s \<or> 4 * n \<le> unat (s - d) \<Longrightarrow>
    std_rep_movsl n d s m = std_rep_movsb (4 * n) (d + 3) (s + 3) m"
proof (induction n arbitrary: d s m)
  case (Suc n)
  then have "std_rep_movsl n (d - 4) (s - 4) (mov32 d s m) =
      std_rep_movsb (4 * n) (d - 4 + 3) (s - 4 + 3) (std_rep_movsb 4 (d + 3) (s + 3) m)"
    using mov32_std_movsb [of d s m] by (subst Suc.IH) auto
  also have "\<dots> = std_rep_movsb (4 * Suc n) (d + 3) (s + 3) m"
    using std_rep_movsb_add [of 4 "4 * n" "d + 3" "s + 3" m] by simp
  finally show ?case by simp
qed simp

lemma std_range:
  fixes n x :: u32
  assumes "0 < n"
  shows "unat (n - 1 - x) < unat n \<longleftrightarrow> x < n"
proof -
  from assms have "n \<noteq> 0" and "0 < unat n" by (auto simp: word_less_nat_alt)
  then have 1: "unat (n - 1) = unat n - 1" by (simp add: unat_minus_one)
  have "unat (n - 1 - x) = (if unat x \<le> unat n - 1 then unat n - 1 - unat x
      else unat n - 1 + 2 ^ 32 - unat x)"
    using unat_sub_if' [of "n - 1" x] 1 by simp
  moreover have "unat x < 2 ^ 32" using unsigned_less [of x] by simp
  ultimately show ?thesis using \<open>0 < unat n\<close> by (auto simp: word_less_nat_alt)
qed

lemma memmove_eq:
  assumes "unat src + unat n < 2 ^ 32" and "unat dst + unat n \<le> 2 ^ 32"
  shows "memmove dst src n m =
    (dst, \<lambda>a. if a - dst < n then m (src + (a - dst)) else m a)"
proof (cases "src < dst \<and> src + n > dst")
  case True
  then have far: "unat n \<le> unat (src - dst)"
    using assms by (simp add: unat_sub_if' word_less_nat_alt)
  from True have n: "0 < n" by (auto simp: word_neq_0_conv [symmetric])
  have "std_rep_movsb (unat n) (dst + n - 1) (src + n - 1) m =
      (\<lambda>a. if a - dst < n then m (src + (a - dst)) else m a)"
  proof -
    have e: "dst + n - 1 - a = n - 1 - (a - dst)"
      "src + n - 1 + (a - (dst + n - 1)) = src + (a - dst)" for a
      by simp_all
    have "src + n - 1 - (dst + n - 1) = src - dst" by simp
    with far have "unat n \<le> unat (src + n - 1 - (dst + n - 1))" by simp
    then show ?thesis by (simp only: std_rep_movsb_eq [OF disjI2] e std_range [OF n])
  qed
  moreover have "std_rep_movsl (unat (n div 4)) (dst + n - 4) (src + n - 4) m =
      std_rep_movsb (unat n) (dst + n - 1) (src + n - 1) m" if "n mod 4 = 0"
    using far that by (subst std_rep_movsl_movsb) (auto simp: mod4_div4)
  ultimately show ?thesis using True by (simp add: memmove_def Let_def)
next
  case False
  have "unat (src + n) = unat src + unat n" using assms by (simp add: unat_word_ariths)
  with False have far: "dst = src \<or> unat n \<le> unat (dst - src)"
    using assms by (auto simp: unat_sub_if' word_less_nat_alt word_unat_eq_iff)
  then have "rep_movsb (unat n) dst src m = (\<lambda>a. if a - dst < n then m (src + (a - dst)) else m a)"
    by (simp add: rep_movsb_eq word_less_nat_alt)
  moreover have "rep_movsl (unat (n div 4)) dst src m = rep_movsb (unat n) dst src m" if "n mod 4 = 0"
    using far that by (subst rep_movsl_movsb) (auto simp: mod4_div4)
  ultimately show ?thesis unfolding memmove_def Let_def if_not_P [OF False] by simp
qed

section \<open>The string a buffer holds\<close>

definition cstr :: "nat \<Rightarrow> (nat \<Rightarrow> u8) \<Rightarrow> u8 list" where
  "cstr n p = takeWhile (\<lambda>c. c \<noteq> 0) (map p [0..<n])"

lemma upt_Cons_add: "[i..<Suc (i + n)] = i # [Suc i..<Suc (i + n)]"
  by (simp add: upt_conv_Cons)

lemma strncmp_from_0:
  "strncmp_from n p q i = 0 \<longleftrightarrow>
     takeWhile (\<lambda>c. c \<noteq> 0) (map p [i..<i + n]) = takeWhile (\<lambda>c. c \<noteq> 0) (map q [i..<i + n])"
proof (induction n arbitrary: i)
  case (Suc n)
  show ?case using Suc.IH [of "Suc i"] by (auto simp del: upt_Suc simp: upt_Cons_add unsigned_eq_0_iff
        word_uint_eq_iff [symmetric])
qed simp

lemma strncmp_0: "strncmp p q n = 0 \<longleftrightarrow> cstr n p = cstr n q"
  using strncmp_from_0 [of n p q 0] by (simp add: strncmp_def cstr_def)

lemma strncpy_pad_eq: "strncpy_pad n s i = (\<lambda>k. if i \<le> k \<and> k < i + n then 0 else s k)"
  by (induction n arbitrary: s i) (auto simp: fun_eq_iff)

lemma strncpy_copy_outside: "k < i \<or> i + n \<le> k \<Longrightarrow> strncpy_copy n s t i k = s k"
  by (induction n arbitrary: s i) (auto simp: strncpy_pad_eq)

lemma strncpy_copy_str:
  "takeWhile (\<lambda>c. c \<noteq> 0) (map (strncpy_copy n s t i) [i..<i + n]) =
   takeWhile (\<lambda>c. c \<noteq> 0) (map t [i..<i + n])"
proof (induction n arbitrary: s i)
  case (Suc n)
  show ?case
    by (simp del: upt_Suc add: upt_Cons_add strncpy_copy_outside strncpy_pad_eq
        Suc.IH [where i = "Suc i", unfolded add_Suc])
qed simp

lemma strncpy_cstr: "cstr n (strncpy s t n) = cstr n t"
  using strncpy_copy_str [of n s t 0] by (simp add: strncpy_def cstr_def)

lemma strncpy_copy_eq:
  "strncpy_copy n s t i k =
     (if i \<le> k \<and> k < i + n then if \<forall>j. i \<le> j \<and> j \<le> k \<longrightarrow> t j \<noteq> 0 then t k else 0 else s k)"
proof (induction n arbitrary: s i)
  case (Suc n)
  have "(\<forall>j. i \<le> j \<and> j \<le> k \<longrightarrow> t j \<noteq> 0) \<longleftrightarrow> t i \<noteq> 0 \<and> (\<forall>j. Suc i \<le> j \<and> j \<le> k \<longrightarrow> t j \<noteq> 0)" if "i \<le> k"
  proof (intro iffI conjI allI impI)
    fix j assume "t i \<noteq> 0 \<and> (\<forall>j. Suc i \<le> j \<and> j \<le> k \<longrightarrow> t j \<noteq> 0)" "i \<le> j \<and> j \<le> k"
    then show "t j \<noteq> 0" by (cases "j = i") simp_all
  qed (use that in simp_all)
  then show ?case by (auto simp: Suc.IH strncpy_pad_eq)
qed auto

lemma strncpy_eq: "strncpy s t n k = (if k < n then if \<forall>j \<le> k. t j \<noteq> 0 then t k else 0 else s k)"
  by (simp add: strncpy_def strncpy_copy_eq)

text \<open>The result of \<^verbatim>\<open>strncmp\<close> depends on the strings only, and is given by the first difference.\<close>

lemma strncmp_from_cstr:
  "takeWhile (\<lambda>c. c \<noteq> 0) (map p [i..<i + n]) = takeWhile (\<lambda>c. c \<noteq> 0) (map p' [i..<i + n]) \<Longrightarrow>
     strncmp_from n p q i = strncmp_from n p' q i"
proof (induction n arbitrary: i)
  case (Suc n)
  show ?case
    using Suc.IH [of "Suc i"] Suc.prems by (auto simp del: upt_Suc simp: upt_Cons_add split: if_splits)
qed simp

lemma strncmp_cstr: "cstr n p = cstr n p' \<Longrightarrow> strncmp p q n = strncmp p' q n"
  using strncmp_from_cstr [of p 0 n p' q] by (simp add: strncmp_def cstr_def)

lemma strncmp_from_diff:
  "i \<le> k \<Longrightarrow> k < i + n \<Longrightarrow> (\<And>j. i \<le> j \<Longrightarrow> j < k \<Longrightarrow> p j \<noteq> 0 \<and> p j = q j) \<Longrightarrow> p k \<noteq> q k \<Longrightarrow>
     strncmp_from n p q i = uint (p k) - uint (q k)"
proof (induction n arbitrary: i)
  case (Suc n)
  show ?case
  proof (cases "i = k")
    case False
    with Suc.prems(1) have "i < k" by simp
    with Suc.prems(3) [of i] have "p i \<noteq> 0 \<and> p i = q i" "Suc i \<le> k" by auto
    moreover from this have "strncmp_from n p q (Suc i) = uint (p k) - uint (q k)"
      using Suc.prems(2) by (intro Suc.IH Suc.prems(3,4)) simp_all
    ultimately show ?thesis by auto
  qed (use Suc.prems in simp)
qed simp

lemma strncmp_diff:
  "k < n \<Longrightarrow> (\<And>j. j < k \<Longrightarrow> p j \<noteq> 0 \<and> p j = q j) \<Longrightarrow> p k \<noteq> q k \<Longrightarrow> strncmp p q n = uint (p k) - uint (q k)"
  unfolding strncmp_def by (rule strncmp_from_diff) (simp, simp, blast, simp)

lemma strncpy_outside: "n \<le> k \<Longrightarrow> strncpy s t n k = s k"
  by (simp add: strncpy_def strncpy_copy_outside)

lemma strcmp_from_strncmp:
  "i \<le> k \<Longrightarrow> k < i + n \<Longrightarrow> p k = 0 \<Longrightarrow> strcmp_from p q i = Some (strncmp_from n p q i)"
proof (induction n arbitrary: i)
  case (Suc n)
  show ?case
  proof (cases "p i \<noteq> 0 \<and> p i = q i")
    case True
    with Suc.prems have "Suc i \<le> k" by (cases "i = k") auto
    with Suc True show ?thesis by (subst strcmp_from.simps) simp
  next
    case False
    then show ?thesis by (subst strcmp_from.simps) auto
  qed
qed simp

section \<open>Properties\<close>

text \<open>
  C17: \<^verbatim>\<open>memmove\<close> copies the source block as it was before the call, also when the two
  blocks overlap in either direction, in both the word and the byte version of its loop, and
  it changes no other byte; the blocks must not reach the end of the address space.
\<close>

theorem memmove_correct:
  assumes "unat src + unat n < 2 ^ 32" and "unat dst + unat n < 2 ^ 32"
  shows "\<exists>m'. memmove dst src n m = (dst, m') \<and>
    (\<forall>i. if i < n then m' (dst + i) = m (src + i) else m' (dst + i) = m (dst + i))"
  using assms by (simp add: memmove_eq)

theorem memmove_correct_witness:
  "\<exists>m'. memmove 0x1002 0x1000 8 (\<lambda>a. ucast a) = (0x1002, m') \<and>
    (\<forall>i. if i < 8 then m' (0x1002 + i) = ucast (0x1000 + i :: u32)
          else m' (0x1002 + i) = ucast (0x1002 + i :: u32))"
  by (rule memmove_correct) simp_all

text \<open>
  C18: \<^verbatim>\<open>strncpy\<close> stores the string up to its terminator, fills the rest of the \<open>n\<close> bytes with zeros and
  writes nothing beyond them. A name stored that way gives the same result of \<^verbatim>\<open>strncmp\<close> as the name it was
  copied from, against every other name. That result is 0 exactly if the strings of the two
  buffers are equal, and otherwise the difference of the bytes at the first position where they differ.
\<close>

theorem strncpy_strncmp:
  "strncpy s t n = (\<lambda>k. if k < n then if \<forall>j \<le> k. t j \<noteq> 0 then t k else 0 else s k) \<and>
   strncmp (strncpy s t n) q n = strncmp t q n \<and>
   (strncmp t q n = 0 \<longleftrightarrow> cstr n t = cstr n q) \<and>
   (\<forall>k < n. (\<forall>j < k. t j \<noteq> 0 \<and> t j = q j) \<and> t k \<noteq> q k \<longrightarrow> strncmp t q n = uint (t k) - uint (q k))"
  by (auto simp: fun_eq_iff strncpy_eq strncmp_0 strncmp_cstr [OF strncpy_cstr] intro: strncmp_diff)

theorem strncpy_strncmp_witness:
  "strncpy (\<lambda>_. 9) (\<lambda>i. if i = 1 then 0 else 65) 3 2 = 0 \<and>
   strncmp (\<lambda>i. if i = 1 then 0 else 65) (\<lambda>i. if i = 1 then 66 else 65) 3 = -66"
proof -
  have "(\<forall>j < Suc 0. (if j = 1 then 0 else 65 :: u8) \<noteq> 0 \<and> (if j = 1 then 0 else 65 :: u8) = (if j = 1 then 66 else 65))"
    by simp
  with strncpy_strncmp [of "\<lambda>_. 9" "\<lambda>i. if i = 1 then 0 else 65" 3 "\<lambda>i. if i = 1 then 66 else 65"]
  show ?thesis by (auto dest!: spec [of _ 1] split: if_splits)
qed

text \<open>
  C19: \<^verbatim>\<open>strcmp\<close> returns on every terminated string, with the result of \<^verbatim>\<open>strncmp\<close> at any
  bound that includes the terminator.
\<close>

theorem strcmp_terminates:
  assumes "p k = 0" and "k < n"
  shows "strcmp p q = Some (strncmp p q n)"
  using strcmp_from_strncmp [of 0 k n p q] assms by (simp add: strcmp_def strncmp_def)

theorem strcmp_terminates_witness:
  "strcmp (\<lambda>i. if i = 0 then 65 else 0) (\<lambda>i. if i = 0 then 66 else 0) = Some (-1)"
  using strcmp_terminates [of "\<lambda>i. if i = 0 then 65 else 0" 1 "Suc (Suc 0)"
    "\<lambda>i. if i = 0 then 66 else 0"]
  by (simp add: strncmp_def)

end
