(* ===== verification/Mboot.thy ===== *)
theory Mboot
  imports Spinlock KLib
begin

text \<open>
  The physical memory map of \<^verbatim>\<open>kern/dev/mboot.c\<close>: the list of memory ranges that the boot
  loader reports, sorted and merged by \<^verbatim>\<open>pmmap_init\<close>, and its readers \<^verbatim>\<open>get_size\<close>,
  \<^verbatim>\<open>get_mms\<close>, \<^verbatim>\<open>get_mml\<close> and \<^verbatim>\<open>is_usable\<close>.

  A singly linked list of slots is the list of the slots' contents; the slots themselves are
  only counted. The multiboot buffer is the function from the number of an entry to the
  entry found there.
\<close>

section \<open>State\<close>

record pmmap =
  pm_start :: u32
  pm_end :: u32
  pm_type :: u32

record mboot_mmap =
  base_addr_low :: u32
  base_addr_high :: u32
  length_low :: u32
  length_high :: u32
  mmap_type :: u32

record mboot = kbase +
  pmmap_slots_next_free :: nat
  pmmap_list :: "pmmap list"
  pmmap_sublist :: "nat \<Rightarrow> pmmap list"
  max_usable_memory :: u32
  mem_npages :: u32
  pmmap_nentries :: nat

definition MEM_RAM :: u32 where "MEM_RAM = 1"
definition MEM_RESERVED :: u32 where "MEM_RESERVED = 2"
definition MEM_ACPI :: u32 where "MEM_ACPI = 3"
definition MEM_NVS :: u32 where "MEM_NVS = 4"
definition MEM_BAD :: u32 where "MEM_BAD = 5"

definition PMMAP_USABLE :: nat where "PMMAP_USABLE = 0"
definition PMMAP_RESV :: nat where "PMMAP_RESV = 1"
definition PMMAP_ACPI :: nat where "PMMAP_ACPI = 2"
definition PMMAP_NVS :: nat where "PMMAP_NVS = 3"

definition PMMAP_SUBLIST_NR :: "u32 \<Rightarrow> nat option" where
  "PMMAP_SUBLIST_NR type =
     (if type = MEM_RAM then Some PMMAP_USABLE
      else if type = MEM_RESERVED \<or> type = MEM_BAD then Some PMMAP_RESV
      else if type = MEM_ACPI then Some PMMAP_ACPI
      else if type = MEM_NVS then Some PMMAP_NVS
      else None)"

section \<open>Operations\<close>

definition pmmap_alloc_slot :: "('z mboot_scheme, nat option) kmon" where
  "pmmap_alloc_slot =
     kbind (kget pmmap_slots_next_free) (\<lambda>n.
       if n = 128 then kret None
       else kthen (kmodify (\<lambda>s. s\<lparr>pmmap_slots_next_free := n + 1\<rparr>)) (kret (Some n)))"

text \<open>The new slot goes after the last slot that does not start above it.\<close>

fun slist_insert :: "pmmap \<Rightarrow> pmmap list \<Rightarrow> pmmap list" where
  "slist_insert f [] = [f]"
| "slist_insert f (slot # slots) =
     (if pm_start f < pm_start slot then f # slot # slots else slot # slist_insert f slots)"

definition pmmap_insert :: "u32 \<Rightarrow> u32 \<Rightarrow> u32 \<Rightarrow> ('z mboot_scheme, unit) kmon" where
  "pmmap_insert start end' type =
     kbind pmmap_alloc_slot (\<lambda>free_slot.
       case free_slot of
         None \<Rightarrow> kpanic ''More than 128 E820 entries.''
       | Some _ \<Rightarrow> kmodify (\<lambda>s. s\<lparr>pmmap_list :=
           slist_insert \<lparr>pm_start = start, pm_end = end', pm_type = type\<rparr> (pmmap_list s)\<rparr>))"

text \<open>
  Step 1 of \<^verbatim>\<open>pmmap_merge\<close>: a slot absorbs its successor, and the traversal continues with
  the successor of the removed one.
\<close>

fun merge_overlapped :: "pmmap list \<Rightarrow> pmmap list" where
  "merge_overlapped [] = []"
| "merge_overlapped [slot] = [slot]"
| "merge_overlapped (slot # next_slot # slots) =
     (if pm_start slot \<le> pm_start next_slot \<and> pm_end slot \<ge> pm_start next_slot \<and>
         pm_type slot = pm_type next_slot
      then slot\<lparr>pm_end := max_u32 (pm_end slot) (pm_end next_slot)\<rparr> # merge_overlapped slots
      else slot # merge_overlapped (next_slot # slots))"

definition sublist_of :: "pmmap \<Rightarrow> nat" where
  "sublist_of slot =
     (case PMMAP_SUBLIST_NR (pm_type slot) of None \<Rightarrow> PMMAP_RESV | Some n \<Rightarrow> n)"

definition pmmap_merge :: "('z mboot_scheme, unit) kmon" where
  "pmmap_merge =
     kthen (kmodify (\<lambda>s. s\<lparr>pmmap_list := merge_overlapped (pmmap_list s)\<rparr>))
    (kthen (kmodify (\<lambda>s. s\<lparr>pmmap_sublist :=
        (\<lambda>n. filter (\<lambda>slot. sublist_of slot = n) (pmmap_list s) @ pmmap_sublist s n)\<rparr>))
    (kbind (kget (\<lambda>s. filter (\<lambda>slot. sublist_of slot = PMMAP_USABLE) (pmmap_list s))) (\<lambda>usable.
       kwhen (usable \<noteq> []) (kmodify (\<lambda>s. s\<lparr>max_usable_memory := pm_end (last usable)\<rparr>)))))"

definition mmap_end :: "u32 \<Rightarrow> mboot_mmap \<Rightarrow> u32" where
  "mmap_end start p =
     (if length_high p \<noteq> 0 \<or> length_low p \<ge> 0xffffffff - start then 0xffffffff
      else start + length_low p)"

definition pmmap_init :: "(nat \<Rightarrow> mboot_mmap) \<Rightarrow> u32 \<Rightarrow> ('z mboot_scheme, unit) kmon" where
  "pmmap_init mmap_addr mmap_length =
     kthen (kmodify (\<lambda>s. s\<lparr>pmmap_list := [], pmmap_sublist := (\<lambda>_. [])\<rparr>))
    (kthen (kfor 0 ((unat mmap_length + 23) div 24) (\<lambda>i.
       let p = mmap_addr i in
       if base_addr_high p \<noteq> 0 then kret ()
       else
         let start = base_addr_low p
         in pmmap_insert start (mmap_end start p) (mmap_type p)))
    (kthen pmmap_merge
    (kthen (kmodify (\<lambda>s. s\<lparr>pmmap_nentries := pmmap_nentries s + length (pmmap_list s)\<rparr>))
       (kmodify (\<lambda>s. s\<lparr>mem_npages := rounddown (max_usable_memory s) PAGESIZE div PAGESIZE\<rparr>)))))"

definition get_size :: "('z mboot_scheme, nat) kmon" where
  "get_size = kget pmmap_nentries"

text \<open>The slot that the loop of the three readers stops at.\<close>

definition nth_slot :: "'z mboot_scheme \<Rightarrow> nat \<Rightarrow> pmmap option" where
  "nth_slot s idx =
     (if idx < length (pmmap_list s) \<and> idx \<noteq> pmmap_nentries s
      then Some (pmmap_list s ! idx) else None)"

definition get_mms :: "nat \<Rightarrow> ('z mboot_scheme, u32) kmon" where
  "get_mms idx =
     kget (\<lambda>s. case nth_slot s idx of None \<Rightarrow> 0 | Some slot \<Rightarrow> pm_start slot)"

definition get_mml :: "nat \<Rightarrow> ('z mboot_scheme, u32) kmon" where
  "get_mml idx =
     kget (\<lambda>s. case nth_slot s idx of None \<Rightarrow> 0 | Some slot \<Rightarrow> pm_end slot - pm_start slot)"

definition is_usable :: "nat \<Rightarrow> ('z mboot_scheme, bool) kmon" where
  "is_usable idx =
     kget (\<lambda>s. case nth_slot s idx of None \<Rightarrow> False | Some slot \<Rightarrow> pm_type slot = MEM_RAM)"

section \<open>Coverage\<close>

text \<open>The addresses of a type that a list of ranges covers.\<close>

definition covers :: "u32 \<Rightarrow> pmmap list \<Rightarrow> u32 \<Rightarrow> bool" where
  "covers type slots a = (\<exists>slot \<in> set slots. pm_type slot = type \<and> pm_start slot \<le> a \<and> a < pm_end slot)"

lemma covers_Nil [simp]: "\<not> covers t [] a"
  by (simp add: covers_def)

lemma covers_Cons [simp]:
  "covers t (x # xs) a \<longleftrightarrow> pm_type x = t \<and> pm_start x \<le> a \<and> a < pm_end x \<or> covers t xs a"
  by (auto simp: covers_def)

lemma covers_insert:
  "covers t (slist_insert x xs) a \<longleftrightarrow>
     pm_type x = t \<and> pm_start x \<le> a \<and> a < pm_end x \<or> covers t xs a"
  by (induction xs) auto

lemma covers_merge: "covers t (merge_overlapped xs) a = covers t xs a"
  by (induction xs rule: merge_overlapped.induct) (auto simp: max_u32_def)

definition start_sorted :: "pmmap list \<Rightarrow> bool" where
  "start_sorted slots = sorted (map pm_start slots)"

lemma start_sorted_simps [simp]:
  "start_sorted []"
  "start_sorted (x # xs) \<longleftrightarrow> (\<forall>y \<in> set xs. pm_start x \<le> pm_start y) \<and> start_sorted xs"
  by (auto simp: start_sorted_def)

lemma set_slist_insert [simp]: "set (slist_insert x xs) = insert x (set xs)"
  by (induction xs) auto

lemma sorted_slist_insert: "start_sorted xs \<Longrightarrow> start_sorted (slist_insert x xs)"
  by (induction xs) auto

lemma lower_merge_overlapped:
  "\<forall>x \<in> set xs. k \<le> pm_start x \<Longrightarrow> \<forall>x \<in> set (merge_overlapped xs). k \<le> pm_start x"
  by (induction xs rule: merge_overlapped.induct) auto

lemma sorted_merge_overlapped: "start_sorted xs \<Longrightarrow> start_sorted (merge_overlapped xs)"
proof (induction xs rule: merge_overlapped.induct)
  case (3 slot next_slot slots)
  have low: "\<forall>y \<in> set (merge_overlapped slots). pm_start slot \<le> pm_start y"
    "\<forall>y \<in> set (merge_overlapped (next_slot # slots)). pm_start slot \<le> pm_start y"
    using "3.prems" by (intro lower_merge_overlapped; simp)+
  show ?case
  proof (cases "pm_start slot \<le> pm_start next_slot \<and> pm_end slot \<ge> pm_start next_slot \<and>
      pm_type slot = pm_type next_slot")
    case True
    from "3.IH"(1) [OF this] "3.prems" have "start_sorted (merge_overlapped slots)" by simp
    with True low(1) show ?thesis by simp
  next
    case False
    from "3.IH"(2) [OF this] "3.prems" have "start_sorted (merge_overlapped (next_slot # slots))"
      by simp
    with False low(2) show ?thesis by (simp only: merge_overlapped.simps if_False start_sorted_simps)
  qed
qed simp_all

lemma length_slist_insert [simp]: "length (slist_insert x xs) = Suc (length xs)"
  by (induction xs) auto

lemma length_merge_overlapped: "length (merge_overlapped xs) \<le> length xs"
  by (induction xs rule: merge_overlapped.induct) auto

section \<open>Properties\<close>

text \<open>
  The addresses that the first \<open>n\<close> entries of the multiboot buffer report: an entry is the range
  that starts at its 64-bit base address and has its 64-bit length. The end of a stored range is a
  32-bit number that the range does not include, so that the last address below 4 GB is in none.
\<close>

definition mmap_base :: "mboot_mmap \<Rightarrow> nat" where
  "mmap_base p = unat (base_addr_high p) * 2 ^ 32 + unat (base_addr_low p)"

definition mmap_len :: "mboot_mmap \<Rightarrow> nat" where
  "mmap_len p = unat (length_high p) * 2 ^ 32 + unat (length_low p)"

definition reported :: "(nat \<Rightarrow> mboot_mmap) \<Rightarrow> nat \<Rightarrow> u32 \<Rightarrow> nat \<Rightarrow> bool" where
  "reported mm n type a =
     (\<exists>i < n. mmap_type (mm i) = type \<and> mmap_base (mm i) \<le> a \<and> a < mmap_base (mm i) + mmap_len (mm i))"

definition pmmap_rel :: "(nat \<Rightarrow> mboot_mmap) \<Rightarrow> nat \<Rightarrow> pmmap list \<Rightarrow> bool" where
  "pmmap_rel mm n slots =
     (start_sorted slots \<and> length slots \<le> n \<and>
      (\<forall>t a. covers t slots a \<longleftrightarrow> reported mm n t (unat a) \<and> a \<noteq> 0xffffffff))"

lemma mmap_end_range:
  assumes "base_addr_high p = 0"
  shows "base_addr_low p \<le> a \<and> a < mmap_end (base_addr_low p) p \<longleftrightarrow>
    mmap_base p \<le> unat a \<and> unat a < mmap_base p + mmap_len p \<and> a \<noteq> 0xffffffff"
proof -
  let ?b = "base_addr_low p"
  have a: "unat a < 2 ^ 32" "unat ?b < 2 ^ 32" using unsigned_less [of a] unsigned_less [of ?b] by simp_all
  have top: "unat (0xffffffff - ?b) = 0xffffffff - unat ?b"
    using a(2) by (simp add: unat_sub word_le_nat_alt)
  have max: "a \<noteq> 0xffffffff \<longleftrightarrow> unat a < 0xffffffff" using a(1) by (auto simp: word_unat_eq_iff)
  consider "length_high p \<noteq> 0" | "length_high p = 0" "length_low p \<ge> 0xffffffff - ?b"
    | "length_high p = 0" "\<not> length_low p \<ge> 0xffffffff - ?b" by blast
  then show ?thesis
  proof cases
    case 1
    then have "1 \<le> unat (length_high p)" by (simp add: Suc_le_eq unat_gt_0)
    then have "2 ^ 32 \<le> mmap_len p" by (simp add: mmap_len_def)
    with 1 a assms max show ?thesis by (auto simp: mmap_end_def mmap_base_def word_le_nat_alt word_less_nat_alt)
  next
    case 2
    then have "0xffffffff \<le> unat ?b + unat (length_low p)" using top by (simp add: word_le_nat_alt)
    with 2 assms max show ?thesis by (auto simp: mmap_end_def mmap_base_def mmap_len_def word_le_nat_alt word_less_nat_alt)
  next
    case 3
    then have l: "unat ?b + unat (length_low p) < 0xffffffff" using top by (simp add: word_le_nat_alt)
    then have "unat (?b + length_low p) = unat ?b + unat (length_low p)" by (simp add: unat_word_ariths)
    with 3 l assms max show ?thesis by (auto simp: mmap_end_def mmap_base_def mmap_len_def word_le_nat_alt word_less_nat_alt)
  qed
qed

lemma mmap_base_high: "base_addr_high p \<noteq> 0 \<Longrightarrow> unat (a :: u32) < mmap_base p"
proof -
  assume "base_addr_high p \<noteq> 0"
  then have "1 \<le> unat (base_addr_high p)" by (simp add: Suc_le_eq unat_gt_0)
  then have "2 ^ 32 \<le> mmap_base p" by (simp add: mmap_base_def)
  moreover have "unat a < 2 ^ 32" using unsigned_less [of a] by simp
  ultimately show ?thesis by linarith
qed

lemma reported_Suc:
  "reported mm (Suc n) t a \<longleftrightarrow> reported mm n t a \<or>
     mmap_type (mm n) = t \<and> mmap_base (mm n) \<le> a \<and> a < mmap_base (mm n) + mmap_len (mm n)"
  by (auto simp: reported_def less_Suc_eq)

lemma returns_pmmap_insert:
  "pmmap_slots_next_free s < 128 \<Longrightarrow>
   returns (pmmap_insert a b t) s Q =
     Q () (s\<lparr>pmmap_slots_next_free := Suc (pmmap_slots_next_free s),
            pmmap_list := slist_insert \<lparr>pm_start = a, pm_end = b, pm_type = t\<rparr> (pmmap_list s)\<rparr>)"
  by (simp add: pmmap_insert_def pmmap_alloc_slot_def kwp)

text \<open>What the operations on the memory map leave alone.\<close>

definition mboot_frame :: "'z mboot_scheme \<Rightarrow> 'z mboot_scheme \<Rightarrow> bool" where
  "mboot_frame s t =
     (ks_magic t = ks_magic s \<and> ks_cpu_idx t = ks_cpu_idx s \<and> locks t = locks s \<and>
      mboot.more t = mboot.more s)"

lemma mboot_frame_simps [simp]:
  "mboot_frame s s"
  "mboot_frame s (t\<lparr>pmmap_list := a\<rparr>) = mboot_frame s t"
  "mboot_frame s (t\<lparr>pmmap_sublist := b\<rparr>) = mboot_frame s t"
  "mboot_frame s (t\<lparr>pmmap_slots_next_free := c\<rparr>) = mboot_frame s t"
  "mboot_frame s (t\<lparr>max_usable_memory := d\<rparr>) = mboot_frame s t"
  "mboot_frame s (t\<lparr>mem_npages := e\<rparr>) = mboot_frame s t"
  "mboot_frame s (t\<lparr>pmmap_nentries := f\<rparr>) = mboot_frame s t"
  by (simp_all add: mboot_frame_def)

lemma returns_pmmap_merge:
  "returns pmmap_merge s (\<lambda>_ t. pmmap_list t = merge_overlapped (pmmap_list s) \<and>
     pmmap_nentries t = pmmap_nentries s \<and> (\<forall>r. mboot_frame r s \<longrightarrow> mboot_frame r t))"
  by (simp add: pmmap_merge_def kwp)

lemma pmmap_rel_merge:
  "pmmap_rel mm n xs \<Longrightarrow> pmmap_rel mm n (merge_overlapped xs)"
  using length_merge_overlapped [of xs]
  by (simp add: pmmap_rel_def sorted_merge_overlapped covers_merge)

lemma pmmap_rel_insert:
  "pmmap_rel mm n xs \<Longrightarrow> base_addr_high (mm n) = 0 \<Longrightarrow>
   pmmap_rel mm (Suc n) (slist_insert \<lparr>pm_start = base_addr_low (mm n),
     pm_end = mmap_end (base_addr_low (mm n)) (mm n), pm_type = mmap_type (mm n)\<rparr> xs)"
  using mmap_end_range [of "mm n"]
  by (auto simp: pmmap_rel_def reported_Suc covers_insert sorted_slist_insert)

lemma pmmap_rel_skip:
  "pmmap_rel mm n xs \<Longrightarrow> base_addr_high (mm n) \<noteq> 0 \<Longrightarrow> pmmap_rel mm (Suc n) xs"
  using mmap_base_high [of "mm n"] by (auto simp: pmmap_rel_def reported_Suc simp flip: not_less)

lemma returns_pmmap_init:
  assumes "n = (unat len + 23) div 24" and "n \<le> 128" and "pmmap_slots_next_free s = 0"
    and "pmmap_nentries s = 0"
  shows "returns (pmmap_init mm len) s (\<lambda>_ t. pmmap_rel mm n (pmmap_list t) \<and>
    pmmap_nentries t = length (pmmap_list t) \<and> mboot_frame s t)"
proof -
  let ?I = "\<lambda>i t. pmmap_rel mm i (pmmap_list t) \<and> pmmap_slots_next_free t \<le> i \<and>
    pmmap_nentries t = 0 \<and> mboot_frame s t"
  let ?s0 = "s\<lparr>pmmap_list := [], pmmap_sublist := (\<lambda>_. [])\<rparr>"
  let ?body = "\<lambda>i. let p = mm i in
       if base_addr_high p \<noteq> 0 then kret ()
       else let start = base_addr_low p in pmmap_insert start (mmap_end start p) (mmap_type p)"
  have "returns (kfor 0 n ?body) ?s0 (\<lambda>_ t. ?I n t)"
    using assms
    by (intro returns_kfor)
       (auto simp: kwp Let_def returns_pmmap_insert pmmap_rel_insert pmmap_rel_skip,
        simp add: pmmap_rel_def reported_def)
  then have "returns (kfor 0 n ?body) ?s0 (\<lambda>_ t. returns pmmap_merge t
      (\<lambda>_ u. pmmap_rel mm n (pmmap_list u) \<and> pmmap_nentries u = 0 \<and> mboot_frame s u))"
    by (rule returns_mono) (auto intro!: returns_mono [OF returns_pmmap_merge] pmmap_rel_merge)
  then show ?thesis
    using assms(1) by (auto simp: pmmap_init_def kwp elim!: returns_mono)
qed

text \<open>
  C20: \<^verbatim>\<open>pmmap_init\<close> accepts every map of at most 128 entries, and the list it builds is sorted
  by start address and covers, for each memory type, exactly the addresses below \<^verbatim>\<open>0xffffffff\<close> in the
  ranges of that type, whose 64-bit base and length the boot loader reports: cutting the ranges to 32 bits
  and merging them loses and adds no other address.
\<close>

theorem pmmap_init_covers:
  assumes "n = (unat len + 23) div 24" and "n \<le> 128" and "pmmap_slots_next_free s = 0"
    and "pmmap_nentries s = 0"
  shows "returns (pmmap_init mm len) s (\<lambda>_ t.
    start_sorted (pmmap_list t) \<and> pmmap_nentries t = length (pmmap_list t) \<and>
    (\<forall>type a. covers type (pmmap_list t) a \<longleftrightarrow> reported mm n type (unat a) \<and> a \<noteq> 0xffffffff))"
  by (rule returns_mono [OF returns_pmmap_init [OF assms]]) (simp add: pmmap_rel_def)

definition boot_state :: mboot where
  "boot_state = \<lparr>ks_cpu_idx = 0, ks_magic = KSTACK_MAGIC, locks = (\<lambda>_. unlocked),
     pmmap_slots_next_free = 0, pmmap_list = [], pmmap_sublist = (\<lambda>_. []),
     max_usable_memory = 0, mem_npages = 0, pmmap_nentries = 0\<rparr>"

theorem pmmap_init_covers_witness:
  "returns (pmmap_init (\<lambda>i. \<lparr>base_addr_low = of_nat i * 0x1000, base_addr_high = 0,
      length_low = 0x1000, length_high = 0, mmap_type = MEM_RAM\<rparr>) 48) boot_state (\<lambda>_ t.
    start_sorted (pmmap_list t) \<and> pmmap_nentries t = length (pmmap_list t) \<and>
    (\<forall>type a. covers type (pmmap_list t) a \<longleftrightarrow>
      reported (\<lambda>i. \<lparr>base_addr_low = of_nat i * 0x1000, base_addr_high = 0,
        length_low = 0x1000, length_high = 0, mmap_type = MEM_RAM\<rparr>) 2 type (unat a) \<and> a \<noteq> 0xffffffff))"
  by (rule pmmap_init_covers) (simp_all add: boot_state_def)

end
