(* ===== verification/MAT.thy ===== *)
theory MAT
  imports Mboot "HOL-Library.While_Combinator"
begin

text \<open>
  The physical page allocator: the allocation table of \<^verbatim>\<open>kern/pmm/MATIntro\<close>, its
  initialisation from the memory map (\<^verbatim>\<open>MATInit\<close>) and \<^verbatim>\<open>palloc\<close> and \<^verbatim>\<open>pfree\<close>
  (\<^verbatim>\<open>MATOp\<close>).
\<close>

section \<open>State\<close>

record ATStruct =
  perm :: u32
  allocated :: u32

record pmm = mboot +
  NUM_PAGES :: nat
  AT :: "nat \<Rightarrow> ATStruct"
  last_palloc_index :: nat

definition AT_SIZE :: nat where "AT_SIZE = 1048576"
definition VM_USERLO :: u32 where [kconst]: "VM_USERLO = 0x40000000"
definition VM_USERHI :: u32 where [kconst]: "VM_USERHI = 0xF0000000"
definition VM_USERLO_PI :: nat where [kconst]: "VM_USERLO_PI = 0x40000"
definition VM_USERHI_PI :: nat where [kconst]: "VM_USERHI_PI = 0xF0000"

section \<open>The allocation table\<close>

definition mem_spinlock_init :: "('z pmm_scheme, unit) kmon" where
  "mem_spinlock_init = spinlock_init MemLk"

definition mem_lock :: "('z pmm_scheme, unit) kmon" where
  "mem_lock = spinlock_acquire MemLk"

definition mem_unlock :: "('z pmm_scheme, unit) kmon" where
  "mem_unlock = spinlock_release MemLk"

definition get_nps :: "('z pmm_scheme, nat) kmon" where
  "get_nps = kget NUM_PAGES"

definition set_nps :: "nat \<Rightarrow> ('z pmm_scheme, unit) kmon" where
  "set_nps nps = kmodify (\<lambda>s. s\<lparr>NUM_PAGES := nps\<rparr>)"

definition at_is_norm :: "nat \<Rightarrow> ('z pmm_scheme, bool) kmon" where
  "at_is_norm page_index =
     kthen (kindex page_index AT_SIZE) (kget (\<lambda>s. perm (AT s page_index) > 1))"

definition at_set_perm :: "nat \<Rightarrow> u32 \<Rightarrow> ('z pmm_scheme, unit) kmon" where
  "at_set_perm page_index p =
     kthen (kindex page_index AT_SIZE)
       (kmodify (\<lambda>s. s\<lparr>AT := (AT s)(page_index := \<lparr>perm = p, allocated = 0\<rparr>)\<rparr>))"

definition at_is_allocated :: "nat \<Rightarrow> ('z pmm_scheme, bool) kmon" where
  "at_is_allocated page_index =
     kthen (kindex page_index AT_SIZE) (kget (\<lambda>s. allocated (AT s page_index) > 0))"

definition at_set_allocated :: "nat \<Rightarrow> u32 \<Rightarrow> ('z pmm_scheme, unit) kmon" where
  "at_set_allocated page_index a =
     kthen (kindex page_index AT_SIZE)
       (kmodify (\<lambda>s. s\<lparr>AT := (AT s)(page_index := (AT s page_index)\<lparr>allocated := a\<rparr>)\<rparr>))"

section \<open>Initialisation from the memory map\<close>

text \<open>
  \<^verbatim>\<open>devinit\<close> is the initialisation of the layer below, of which the allocator uses the
  memory map. The inner loop stops at the first range that contains the whole page.
\<close>

definition page_range :: "nat \<Rightarrow> nat \<Rightarrow> ('z pmm_scheme, bool option) kmon" where
  "page_range pg_idx entry_idx =
     kbind (is_usable entry_idx) (\<lambda>isnorm.
     kbind (get_mms entry_idx) (\<lambda>start.
     kbind (get_mml entry_idx) (\<lambda>len.
       if start \<le> of_nat pg_idx * PAGESIZE \<and> (of_nat pg_idx + 1) * PAGESIZE \<le> start + len
       then kret (Some isnorm) else kret None)))"

definition init_page :: "nat \<Rightarrow> nat \<Rightarrow> ('z pmm_scheme, unit) kmon" where
  "init_page pmmap_size pg_idx =
     (if pg_idx < VM_USERLO_PI \<or> VM_USERHI_PI \<le> pg_idx then at_set_perm pg_idx 1
      else
        kbind (kscan 0 pmmap_size (page_range pg_idx)) (\<lambda>flag.
          if flag = Some True then at_set_perm pg_idx 2 else at_set_perm pg_idx 0))"

definition pmem_init :: "('z pmm_scheme, unit) kmon \<Rightarrow> ('z pmm_scheme, unit) kmon" where
  "pmem_init devinit =
     kthen devinit
    (kthen mem_spinlock_init
    (kbind get_size (\<lambda>pmmap_size.
     kbind (kfold 0 pmmap_size (\<lambda>entry_idx nps.
        kbind (get_mms entry_idx) (\<lambda>mms.
        kbind (get_mml entry_idx) (\<lambda>mml.
          let cur_addr = mms + mml in kret (if nps < cur_addr then cur_addr else nps)))) 0) (\<lambda>nps.
     let nps = unat (rounddown nps PAGESIZE div PAGESIZE) in
     kthen (set_nps nps) (kfor 0 nps (init_page pmmap_size))))))"

section \<open>Allocation\<close>

definition avail :: "(nat \<Rightarrow> ATStruct) \<Rightarrow> nat \<Rightarrow> bool" where
  "avail tbl i = (perm (tbl i) > 1 \<and> \<not> allocated (tbl i) > 0)"

text \<open>
  The loop of \<^verbatim>\<open>palloc\<close>, on its local variables \<^verbatim>\<open>palloc_index\<close>, \<^verbatim>\<open>palloc_free_index\<close>
  and \<^verbatim>\<open>first\<close>; \<open>None\<close> if it does not end.
\<close>

definition palloc_cond :: "nat \<Rightarrow> nat \<Rightarrow> nat \<times> nat \<times> bool \<Rightarrow> bool" where
  "palloc_cond nps start = (\<lambda>(palloc_index, palloc_free_index, first).
     (palloc_index \<noteq> start \<or> first) \<and> palloc_free_index = nps)"

definition palloc_body :: "(nat \<Rightarrow> ATStruct) \<Rightarrow> nat \<times> nat \<times> bool \<Rightarrow> nat \<times> nat \<times> bool" where
  "palloc_body tbl = (\<lambda>(palloc_index, palloc_free_index, first).
     (if palloc_index + 1 \<ge> VM_USERHI_PI then VM_USERLO_PI else palloc_index + 1,
      if avail tbl palloc_index then palloc_index else palloc_free_index, False))"

definition palloc_scan :: "(nat \<Rightarrow> ATStruct) \<Rightarrow> nat \<Rightarrow> nat \<Rightarrow> nat option" where
  "palloc_scan tbl nps start =
     map_option (\<lambda>(_, palloc_free_index, _). palloc_free_index)
       (while_option (palloc_cond nps start) (palloc_body tbl) (start, nps, True))"

definition palloc :: "('z pmm_scheme, nat) kmon" where
  "palloc =
     kthen mem_lock
    (kbind get_nps (\<lambda>nps.
     kbind (kget last_palloc_index) (\<lambda>start.
     kthen (kindex start AT_SIZE)
    (kbind (kget AT) (\<lambda>tbl.
     case palloc_scan tbl nps start of
       None \<Rightarrow> kstop Spin
     | Some palloc_free_index \<Rightarrow>
         kbind (if palloc_free_index = nps
                then kthen (kmodify (\<lambda>s. s\<lparr>last_palloc_index := VM_USERLO_PI\<rparr>)) (kret 0)
                else kthen (at_set_allocated palloc_free_index 1)
                    (kthen (kmodify (\<lambda>s. s\<lparr>last_palloc_index := palloc_free_index\<rparr>))
                      (kret palloc_free_index))) (\<lambda>r.
         kthen mem_unlock (kret r)))))))"

definition pfree :: "nat \<Rightarrow> ('z pmm_scheme, unit) kmon" where
  "pfree pfree_index =
     kthen mem_lock (kthen (at_set_allocated pfree_index 0) mem_unlock)"

section \<open>The loop of \<open>palloc\<close> ends and finds a free page if there is one\<close>

definition palloc_next :: "nat \<Rightarrow> nat" where
  "palloc_next i = (if i + 1 \<ge> VM_USERHI_PI then VM_USERLO_PI else i + 1)"

definition scanned :: "nat \<Rightarrow> nat \<Rightarrow> nat \<Rightarrow> bool" where
  "scanned start i p = (if start < i then start \<le> p \<and> p < i else start \<le> p \<or> p < i)"

definition palloc_inv :: "(nat \<Rightarrow> ATStruct) \<Rightarrow> nat \<Rightarrow> nat \<Rightarrow> nat \<times> nat \<times> bool \<Rightarrow> bool" where
  "palloc_inv tbl nps start = (\<lambda>(i, free, first).
     VM_USERLO_PI \<le> i \<and> i < VM_USERHI_PI \<and> (first \<longrightarrow> i = start \<and> free = nps) \<and>
     (if free = nps
      then first \<or> (\<forall>p. VM_USERLO_PI \<le> p \<and> p < VM_USERHI_PI \<and>
             scanned start i p \<longrightarrow> \<not> avail tbl p)
      else avail tbl free \<and> VM_USERLO_PI \<le> free \<and> free < VM_USERHI_PI))"

definition palloc_measure :: "nat \<Rightarrow> nat \<times> nat \<times> bool \<Rightarrow> nat" where
  "palloc_measure start = (\<lambda>(i, free, first).
     if first then 2 * (VM_USERHI_PI - VM_USERLO_PI)
     else if start < i then VM_USERHI_PI - i + (VM_USERHI_PI - VM_USERLO_PI) else start - i)"

lemma palloc_next_range:
  "VM_USERLO_PI \<le> i \<Longrightarrow> i < VM_USERHI_PI \<Longrightarrow> VM_USERLO_PI \<le> palloc_next i \<and> palloc_next i < VM_USERHI_PI"
  by (simp add: palloc_next_def)

lemma scanned_next:
  assumes "VM_USERLO_PI \<le> i" "i < VM_USERHI_PI" "VM_USERLO_PI \<le> start" "start < VM_USERHI_PI"
    "VM_USERLO_PI \<le> p" "p < VM_USERHI_PI" "scanned start (palloc_next i) p"
  shows "p = i \<or> i \<noteq> start \<and> scanned start i p"
  using assms by (simp add: scanned_def palloc_next_def split: if_splits) linarith+

lemma palloc_next_measure:
  assumes "VM_USERLO_PI \<le> i" "i < VM_USERHI_PI" "VM_USERLO_PI \<le> start" "start < VM_USERHI_PI"
    "i \<noteq> start \<or> first" "first \<longrightarrow> i = start"
  shows "palloc_measure start (palloc_next i, free', False) < palloc_measure start (i, free, first)"
  using assms by (cases first) (auto simp: palloc_measure_def palloc_next_def)

lemma palloc_step:
  assumes "palloc_inv tbl nps start x" and "palloc_cond nps start x"
    and "VM_USERLO_PI \<le> start" "start < VM_USERHI_PI" and "\<not> avail tbl nps"
  shows "palloc_inv tbl nps start (palloc_body tbl x) \<and>
    palloc_measure start (palloc_body tbl x) < palloc_measure start x"
proof -
  obtain i free first where x: "x = (i, free, first)" by (cases x) auto
  have body: "palloc_body tbl x = (palloc_next i, if avail tbl i then i else free, False)"
    by (simp add: x palloc_body_def palloc_next_def)
  have free: "free = nps" and i: "VM_USERLO_PI \<le> i" "i < VM_USERHI_PI" and ne: "i \<noteq> start \<or> first"
    and fi: "first \<longrightarrow> i = start"
    and seen: "first \<or> (\<forall>p. VM_USERLO_PI \<le> p \<and> p < VM_USERHI_PI \<and> scanned start i p \<longrightarrow> \<not> avail tbl p)"
    using assms(1,2) by (auto simp: x palloc_inv_def palloc_cond_def)
  have "palloc_inv tbl nps start (palloc_body tbl x)"
  proof (cases "avail tbl i")
    case True
    with assms(5) i have "i \<noteq> nps" by auto
    with True i show ?thesis by (simp add: body palloc_inv_def palloc_next_range)
  next
    case False
    have "\<not> avail tbl p" if "VM_USERLO_PI \<le> p" "p < VM_USERHI_PI" "scanned start (palloc_next i) p" for p
      using scanned_next [OF i assms(3,4) that] seen False fi that(1,2) by blast
    with False i free show ?thesis by (simp add: body palloc_inv_def palloc_next_range)
  qed
  moreover have "palloc_measure start (palloc_body tbl x) < palloc_measure start x"
    unfolding body unfolding x using palloc_next_measure [OF i assms(3,4) ne fi] .
  ultimately show ?thesis ..
qed

lemma palloc_scan_total:
  assumes "VM_USERLO_PI \<le> start" "start < VM_USERHI_PI" and "\<not> avail tbl nps"
  obtains r where "palloc_scan tbl nps start = Some r"
    and "if r = nps then \<forall>p. VM_USERLO_PI \<le> p \<and> p < VM_USERHI_PI \<longrightarrow> \<not> avail tbl p
         else avail tbl r \<and> VM_USERLO_PI \<le> r \<and> r < VM_USERHI_PI"
proof -
  have inv0: "palloc_inv tbl nps start (start, nps, True)"
    using assms by (simp add: palloc_inv_def)
  obtain i r first where
    t: "while_option (palloc_cond nps start) (palloc_body tbl) (start, nps, True) = Some (i, r, first)"
    using measure_while_option_Some [of "palloc_inv tbl nps start" "palloc_cond nps start"
        "palloc_body tbl" "palloc_measure start", OF _ inv0] palloc_step [OF _ _ assms] by fastforce
  have inv: "palloc_inv tbl nps start (i, r, first)"
    by (rule while_option_rule [where P = "palloc_inv tbl nps start", OF _ t inv0]) (use palloc_step [OF _ _ assms] in blast)
  have stop: "\<not> palloc_cond nps start (i, r, first)" using while_option_stop [OF t] .
  show ?thesis
  proof
    show "palloc_scan tbl nps start = Some r" by (simp add: palloc_scan_def t)
    show "if r = nps then \<forall>p. VM_USERLO_PI \<le> p \<and> p < VM_USERHI_PI \<longrightarrow> \<not> avail tbl p
         else avail tbl r \<and> VM_USERLO_PI \<le> r \<and> r < VM_USERHI_PI"
      using inv stop by (auto simp: palloc_inv_def palloc_cond_def scanned_def le_less_linear)
  qed
qed

section \<open>Specification of the allocator\<close>

definition pmm_ok :: "'z pmm_scheme \<Rightarrow> bool" where
  "pmm_ok s =
     (VM_USERLO_PI \<le> last_palloc_index s \<and> last_palloc_index s < VM_USERHI_PI \<and>
      perm (AT s (NUM_PAGES s)) \<le> 1 \<and> lock_free s MemLk \<and> kstack_ok s)"

definition palloc_post :: "'z pmm_scheme \<Rightarrow> nat \<Rightarrow> 'z pmm_scheme \<Rightarrow> bool" where
  "palloc_post s p t =
     (\<exists>i. VM_USERLO_PI \<le> i \<and> i < VM_USERHI_PI \<and>
       (if p = 0
        then (\<forall>q. VM_USERLO_PI \<le> q \<and> q < VM_USERHI_PI \<longrightarrow> \<not> avail (AT s) q) \<and>
             t = s\<lparr>last_palloc_index := i\<rparr>
        else avail (AT s) p \<and> VM_USERLO_PI \<le> p \<and> p < VM_USERHI_PI \<and>
             t = s\<lparr>AT := (AT s)(p := (AT s p)\<lparr>allocated := 1\<rparr>), last_palloc_index := i\<rparr>))"

lemma returns_palloc: "pmm_ok s \<Longrightarrow> returns palloc s (palloc_post s)"
proof -
  assume ok: "pmm_ok s"
  then have start: "VM_USERLO_PI \<le> last_palloc_index s" "last_palloc_index s < VM_USERHI_PI"
    and na: "\<not> avail (AT s) (NUM_PAGES s)" and lk: "lock_free s MemLk" "kstack_ok s"
    by (auto simp: pmm_ok_def avail_def)
  obtain r where r: "palloc_scan (AT s) (NUM_PAGES s) (last_palloc_index s) = Some r"
    "if r = NUM_PAGES s then \<forall>p. VM_USERLO_PI \<le> p \<and> p < VM_USERHI_PI \<longrightarrow> \<not> avail (AT s) p
     else avail (AT s) r \<and> VM_USERLO_PI \<le> r \<and> r < VM_USERHI_PI"
    by (rule palloc_scan_total [OF start na])
  have sz: "VM_USERHI_PI < AT_SIZE" "0 < VM_USERLO_PI" by (simp_all add: kconst AT_SIZE_def)
  show ?thesis
  proof (cases "r = NUM_PAGES s")
    case True
    have "returns palloc s (\<lambda>p t. p = 0 \<and> t = s\<lparr>last_palloc_index := VM_USERLO_PI\<rparr>)"
      using lk r(1) True start(2) sz
      by (simp add: palloc_def mem_lock_def mem_unlock_def get_nps_def taken_def kwp)
    then show ?thesis
      by (rule returns_mono) (use r(2) True in \<open>auto simp: palloc_post_def kconst\<close>)
  next
    case False
    with r(2) have a: "avail (AT s) r" "VM_USERLO_PI \<le> r" "r < VM_USERHI_PI" by simp_all
    have "returns palloc s (\<lambda>p t. p = r \<and>
        t = s\<lparr>AT := (AT s)(r := (AT s r)\<lparr>allocated := 1\<rparr>), last_palloc_index := r\<rparr>)"
      using lk r(1) False start(2) sz a(3)
      by (simp add: palloc_def mem_lock_def mem_unlock_def get_nps_def at_set_allocated_def
          taken_def kwp)
    then show ?thesis
      by (rule returns_mono) (use a sz in \<open>auto simp: palloc_post_def\<close>)
  qed
qed

lemma returns_pfree:
  assumes "lock_free s MemLk" and "kstack_ok s" and "p < AT_SIZE"
  shows "returns (pfree p) s (\<lambda>_ t. t = s\<lparr>AT := (AT s)(p := (AT s p)\<lparr>allocated := 0\<rparr>)\<rparr>)"
  using assms
  by (simp add: pfree_def mem_lock_def mem_unlock_def at_set_allocated_def taken_def kwp)

section \<open>The table after initialisation\<close>

definition page_in :: "nat \<Rightarrow> pmmap \<Rightarrow> bool" where
  "page_in pg slot =
     (pm_start slot \<le> of_nat pg * PAGESIZE \<and> (of_nat pg + 1) * PAGESIZE \<le> pm_end slot)"

definition page_perm :: "pmmap list \<Rightarrow> nat \<Rightarrow> u32" where
  "page_perm slots pg =
     (if pg < VM_USERLO_PI \<or> VM_USERHI_PI \<le> pg then 1
      else case find (page_in pg) slots of
             Some slot \<Rightarrow> if pm_type slot = MEM_RAM then 2 else 0
           | None \<Rightarrow> 0)"

lemma returns_page_range:
  assumes "pmmap_nentries s = length (pmmap_list s)" and "e < length (pmmap_list s)"
  shows "returns (page_range pg e) s Q =
    Q (if page_in pg (pmmap_list s ! e) then Some (pm_type (pmmap_list s ! e) = MEM_RAM) else None) s"
  using assms
  by (simp add: page_range_def is_usable_def get_mms_def get_mml_def nth_slot_def page_in_def kwp)

lemma find_first:
  "i < length xs \<Longrightarrow> P (xs ! i) \<Longrightarrow> \<forall>j < i. \<not> P (xs ! j) \<Longrightarrow> find P xs = Some (xs ! i)"
  by (auto simp: find_Some_iff)

lemma returns_scan_ranges:
  assumes "pmmap_nentries s = length (pmmap_list s)"
  shows "returns (kscan 0 (length (pmmap_list s)) (page_range pg)) s (\<lambda>r t. t = s \<and>
    r = map_option (\<lambda>slot. pm_type slot = MEM_RAM) (find (page_in pg) (pmmap_list s)))"
proof (rule returns_kscan [where I = "\<lambda>i t. t = s \<and> (\<forall>j < i. \<not> page_in pg (pmmap_list s ! j))"])
  show "t = s \<and> None = map_option (\<lambda>slot. pm_type slot = MEM_RAM) (find (page_in pg) (pmmap_list s))"
    if "t = s \<and> (\<forall>j < length (pmmap_list s). \<not> page_in pg (pmmap_list s ! j))" for t
    using that by (auto simp: find_None_iff in_set_conv_nth)
  show "returns (page_range pg j) t (\<lambda>r u. case r of
      None \<Rightarrow> u = s \<and> (\<forall>i < Suc j. \<not> page_in pg (pmmap_list s ! i))
    | Some x \<Rightarrow> u = s \<and> Some x = map_option (\<lambda>slot. pm_type slot = MEM_RAM)
        (find (page_in pg) (pmmap_list s)))"
    if "j < length (pmmap_list s)" "t = s \<and> (\<forall>i < j. \<not> page_in pg (pmmap_list s ! i))" for j t
    using that assms find_first [of j "pmmap_list s" "page_in pg"]
    by (auto simp: returns_page_range less_Suc_eq)
qed auto

lemma returns_init_page:
  assumes "pmmap_nentries s = length (pmmap_list s)" and "pg < AT_SIZE"
  shows "returns (init_page (length (pmmap_list s)) pg) s (\<lambda>_ t.
    t = s\<lparr>AT := (AT s)(pg := \<lparr>perm = page_perm (pmmap_list s) pg, allocated = 0\<rparr>)\<rparr>)"
proof (cases "pg < VM_USERLO_PI \<or> VM_USERHI_PI \<le> pg")
  case True
  with assms(2) show ?thesis by (simp add: init_page_def at_set_perm_def page_perm_def kwp)
next
  case False
  then show ?thesis
    using returns_scan_ranges [OF assms(1), of pg] assms(2)
    by (auto simp: init_page_def at_set_perm_def page_perm_def kwp split: option.splits
        elim!: returns_mono)
qed

lemma highest_addr_bound: "unat (rounddown a PAGESIZE div PAGESIZE) < AT_SIZE"
proof -
  have "unat (rounddown a PAGESIZE) < 2 ^ 32" using unsigned_less [of "rounddown a PAGESIZE"] by simp
  then show ?thesis by (simp add: unat_div kconst AT_SIZE_def less_mult_imp_div_less)
qed

definition init_AT :: "pmmap list \<Rightarrow> nat \<Rightarrow> (nat \<Rightarrow> ATStruct) \<Rightarrow> nat \<Rightarrow> ATStruct" where
  "init_AT slots n tbl =
     (\<lambda>pg. if pg < n then \<lparr>perm = page_perm slots pg, allocated = 0\<rparr> else tbl pg)"

lemma init_AT_0 [simp]: "init_AT slots 0 tbl = tbl"
  by (simp add: init_AT_def)

lemma init_AT_Suc:
  "(init_AT slots n tbl)(n := \<lparr>perm = page_perm slots n, allocated = 0\<rparr>) = init_AT slots (Suc n) tbl"
  by (auto simp: init_AT_def fun_eq_iff)

lemma returns_init_pages:
  assumes "pmmap_nentries u = length (pmmap_list u)" and "n < AT_SIZE"
  shows "returns (kfor 0 n (init_page (length (pmmap_list u)))) u
    (\<lambda>_ t. t = u\<lparr>AT := init_AT (pmmap_list u) n (AT u)\<rparr>)"
proof (rule returns_kfor [where I = "\<lambda>i t. t = u\<lparr>AT := init_AT (pmmap_list u) i (AT u)\<rparr>"])
  fix j t assume "j < n" and t: "t = u\<lparr>AT := init_AT (pmmap_list u) j (AT u)\<rparr>"
  then show "returns (init_page (length (pmmap_list u)) j) t
      (\<lambda>_ v. v = u\<lparr>AT := init_AT (pmmap_list u) (Suc j) (AT u)\<rparr>)"
    using returns_init_page [of t j] assms by (simp add: init_AT_Suc)
qed simp_all

lemma returns_highest_addr:
  "returns (kfold 0 k (\<lambda>entry_idx nps. kbind (get_mms entry_idx) (\<lambda>mms.
        kbind (get_mml entry_idx) (\<lambda>mml.
          let cur_addr = mms + mml in kret (if nps < cur_addr then cur_addr else nps)))) 0) u
      (\<lambda>_ t. t = u)"
  by (rule returns_kfold [where I = "\<lambda>_ _ t. t = u"])
     (auto simp: get_mms_def get_mml_def Let_def kwp)

lemma returns_pmem_init:
  assumes "returns devinit s (\<lambda>_ t. pmmap_nentries t = length (pmmap_list t) \<and> P t)"
  shows "returns (pmem_init devinit) s (\<lambda>_ t. \<exists>u n. P u \<and> n < AT_SIZE \<and>
     t = u\<lparr>locks := (locks u)(MemLk := unlocked), NUM_PAGES := n,
       AT := init_AT (pmmap_list u) n (AT u)\<rparr>)"
  unfolding pmem_init_def returns_kthen
proof (rule returns_mono [OF assms])
  fix t assume t: "pmmap_nentries t = length (pmmap_list t) \<and> P t"
  let ?t = "t\<lparr>locks := (locks t)(MemLk := unlocked)\<rparr>"
  have pages: "returns (kthen (set_nps n) (kfor 0 n (init_page (length (pmmap_list t))))) ?t (\<lambda>_ v.
      v = ?t\<lparr>NUM_PAGES := n, AT := init_AT (pmmap_list t) n (AT t)\<rparr>)" if "n < AT_SIZE" for n
    using returns_init_pages [of "?t\<lparr>NUM_PAGES := n\<rparr>" n] t that by (simp add: set_nps_def kwp)
  show "returns mem_spinlock_init t (\<lambda>_ t. returns (kbind get_size (\<lambda>pmmap_size.
        kbind (kfold 0 pmmap_size (\<lambda>entry_idx nps. kbind (get_mms entry_idx) (\<lambda>mms.
          kbind (get_mml entry_idx) (\<lambda>mml.
            let cur_addr = mms + mml in kret (if nps < cur_addr then cur_addr else nps)))) 0)
         (\<lambda>nps. let nps = unat (rounddown nps PAGESIZE div PAGESIZE) in
           kthen (set_nps nps) (kfor 0 nps (init_page pmmap_size))))) t
      (\<lambda>_ t. \<exists>u n. P u \<and> n < AT_SIZE \<and> t = u\<lparr>locks := (locks u)(MemLk := unlocked), NUM_PAGES := n,
         AT := init_AT (pmmap_list u) n (AT u)\<rparr>))"
    unfolding mem_spinlock_init_def returns_spinlock_init get_size_def returns_kbind returns_kget
    using t
    by (intro returns_mono [OF returns_highest_addr])
       (auto simp: Let_def intro!: returns_mono [OF pages] highest_addr_bound)
qed

lemma mboot_frame_pmm:
  "mboot_frame s (t :: 'z pmm_scheme) \<Longrightarrow>
     AT t = AT s \<and> NUM_PAGES t = NUM_PAGES s \<and> last_palloc_index t = last_palloc_index s \<and>
     pmm.more t = pmm.more s"
  by (cases s; cases t) (simp add: mboot_frame_def)

lemma page_perm_usable:
  assumes "1 < page_perm slots pg"
  shows "VM_USERLO_PI \<le> pg \<and> pg < VM_USERHI_PI \<and>
    (\<exists>slot \<in> set slots. pm_type slot = MEM_RAM \<and> page_in pg slot)"
  using assms
  by (auto simp: page_perm_def find_Some_iff split: if_splits option.splits)

lemma page_in_addr:
  assumes "page_in pg slot" and "pg < VM_USERHI_PI" and "unat a div 4096 = pg"
  shows "pm_start slot \<le> a \<and> a < pm_end slot"
proof -
  have pg: "pg < 0xF0000" using assms(2) by (simp add: kconst)
  have "unat (of_nat pg * PAGESIZE) = pg * 4096"
    and "unat ((of_nat pg + 1) * PAGESIZE) = (pg + 1) * 4096"
    using pg by (simp_all add: kconst unat_word_ariths unat_of_nat)
  with assms show ?thesis
    by (auto simp: page_in_def word_le_nat_alt word_less_nat_alt)
qed

definition all_reserved :: "(nat \<Rightarrow> ATStruct) \<Rightarrow> bool" where
  "all_reserved tbl = (\<forall>pg. perm (tbl pg) = 0)"

lemma avail_init_AT:
  "all_reserved tbl \<Longrightarrow> avail (init_AT slots n tbl) pg \<longleftrightarrow> pg < n \<and> 1 < page_perm slots pg"
  by (simp add: avail_def init_AT_def all_reserved_def)

section \<open>Properties\<close>

text \<open>
  C21: initialised from a multiboot map of at most 128 entries, the allocation table offers
  only pages of the user range \<^verbatim>\<open>[VM_USERLO, VM_USERHI)\<close> of which every byte lies in a range
  that the boot loader reported as RAM, and the allocator is ready for use.
\<close>

theorem pmem_init_usable:
  assumes "n = (unat len + 23) div 24" and "n \<le> 128" and "pmmap_slots_next_free s = 0"
    and "pmmap_nentries s = 0" and "all_reserved (AT s)"
    and "VM_USERLO_PI \<le> last_palloc_index s" and "last_palloc_index s < VM_USERHI_PI"
    and "kstack_ok s"
  shows "returns (pmem_init (pmmap_init mm len)) s (\<lambda>_ t. pmm_ok t \<and>
    (\<forall>pg. avail (AT t) pg \<longrightarrow> VM_USERLO_PI \<le> pg \<and> pg < VM_USERHI_PI \<and>
       (\<forall>a :: u32. unat a div 4096 = pg \<longrightarrow> reported mm n MEM_RAM (unat a))))"
proof -
  have "returns (pmmap_init mm len) s (\<lambda>_ t. pmmap_nentries t = length (pmmap_list t) \<and>
      pmmap_rel mm n (pmmap_list t) \<and> mboot_frame s t)"
    by (rule returns_mono [OF returns_pmmap_init [OF assms(1-4)]]) simp
  from returns_pmem_init [OF this] show ?thesis
  proof (rule returns_mono)
    fix t assume "\<exists>u k. (pmmap_rel mm n (pmmap_list u) \<and> mboot_frame s u) \<and> k < AT_SIZE \<and>
      t = u\<lparr>locks := (locks u)(MemLk := unlocked), NUM_PAGES := k,
        AT := init_AT (pmmap_list u) k (AT u)\<rparr>"
    then obtain u k where rel: "pmmap_rel mm n (pmmap_list u)" and fr: "mboot_frame s u"
      and t: "t = u\<lparr>locks := (locks u)(MemLk := unlocked), NUM_PAGES := k,
        AT := init_AT (pmmap_list u) k (AT u)\<rparr>"
      by blast
    note av = avail_init_AT [OF assms(5), of "pmmap_list u" k]
    have AT: "AT u = AT s" and "last_palloc_index u = last_palloc_index s" and "ks_magic u = ks_magic s"
      using mboot_frame_pmm [OF fr] fr by (simp_all add: mboot_frame_def)
    then have "pmm_ok t"
      using assms(5-8)
      by (simp add: pmm_ok_def t lock_free_def kstack_ok_def init_AT_def all_reserved_def)
    moreover have "reported mm n MEM_RAM (unat a)" if "avail (AT t) pg" "unat a div 4096 = pg" for pg and a :: u32
    proof -
      from that(1) page_perm_usable obtain slot where "slot \<in> set (pmmap_list u)"
        "pm_type slot = MEM_RAM" "page_in pg slot" "pg < VM_USERHI_PI"
        by (auto simp: t AT av)
      with page_in_addr [OF _ _ that(2)] have "covers MEM_RAM (pmmap_list u) a"
        by (auto simp: covers_def)
      with rel show ?thesis by (simp add: pmmap_rel_def)
    qed
    moreover have "VM_USERLO_PI \<le> pg \<and> pg < VM_USERHI_PI" if "avail (AT t) pg" for pg
      using that page_perm_usable by (auto simp: t AT av)
    ultimately show "pmm_ok t \<and> (\<forall>pg. avail (AT t) pg \<longrightarrow> VM_USERLO_PI \<le> pg \<and> pg < VM_USERHI_PI \<and>
       (\<forall>a :: u32. unat a div 4096 = pg \<longrightarrow> reported mm n MEM_RAM (unat a)))"
      by blast
  qed
qed

definition pmm_start :: pmm where
  "pmm_start = mboot.extend boot_state \<lparr>NUM_PAGES = 0, AT = (\<lambda>_. \<lparr>perm = 0, allocated = 0\<rparr>),
     last_palloc_index = VM_USERLO_PI\<rparr>"

theorem pmem_init_usable_witness:
  "returns (pmem_init (pmmap_init (\<lambda>i. \<lparr>base_addr_low = 0x40000000, base_addr_high = 0,
      length_low = 0x8000, length_high = 0, mmap_type = MEM_RAM\<rparr>) 24)) pmm_start (\<lambda>_ t. pmm_ok t \<and>
    (\<forall>pg. avail (AT t) pg \<longrightarrow> VM_USERLO_PI \<le> pg \<and> pg < VM_USERHI_PI \<and>
       (\<forall>a :: u32. unat a div 4096 = pg \<longrightarrow> reported (\<lambda>i. \<lparr>base_addr_low = 0x40000000,
          base_addr_high = 0, length_low = 0x8000, length_high = 0, mmap_type = MEM_RAM\<rparr>) 1
          MEM_RAM (unat a))))"
  by (rule pmem_init_usable)
     (simp_all add: pmm_start_def boot_state_def mboot.defs all_reserved_def kconst kstack_ok_def)

text \<open>
  C22: \<^verbatim>\<open>palloc\<close> always returns. It returns a page that was free, of normal permission and in
  the user range, and marks that page and no other; it returns 0 only if no such page is
  left. The allocator stays ready for use.
\<close>

theorem palloc_correct:
  assumes "pmm_ok s"
  shows "returns palloc s (\<lambda>p t. pmm_ok t \<and>
    (if p = 0 then (\<forall>q. VM_USERLO_PI \<le> q \<and> q < VM_USERHI_PI \<longrightarrow> \<not> avail (AT s) q) \<and> AT t = AT s
     else VM_USERLO_PI \<le> p \<and> p < VM_USERHI_PI \<and> avail (AT s) p \<and> \<not> avail (AT t) p \<and>
       (\<forall>q. q \<noteq> p \<longrightarrow> AT t q = AT s q)))"
  by (rule returns_mono [OF returns_palloc [OF assms]])
     (use assms in \<open>auto simp: palloc_post_def pmm_ok_def avail_def lock_free_def kstack_ok_def
        split: if_splits\<close>)

definition pmm_one :: pmm where
  "pmm_one = pmm_start\<lparr>NUM_PAGES := 0x40002, AT := (AT pmm_start)(0x40001 := \<lparr>perm = 2, allocated = 0\<rparr>)\<rparr>"

theorem palloc_correct_witness:
  "returns palloc pmm_one (\<lambda>p t. pmm_ok t \<and>
    (if p = 0 then (\<forall>q. VM_USERLO_PI \<le> q \<and> q < VM_USERHI_PI \<longrightarrow> \<not> avail (AT pmm_one) q) \<and>
       AT t = AT pmm_one
     else VM_USERLO_PI \<le> p \<and> p < VM_USERHI_PI \<and> avail (AT pmm_one) p \<and> \<not> avail (AT t) p \<and>
       (\<forall>q. q \<noteq> p \<longrightarrow> AT t q = AT pmm_one q)))"
  by (rule palloc_correct)
     (simp add: pmm_ok_def pmm_one_def pmm_start_def boot_state_def mboot.defs avail_def
        lock_free_def kstack_ok_def kconst)

end
