(* ===== verification/Container.thy ===== *)
theory Container
  imports MAT
begin

text \<open>
  The resource containers of \<^verbatim>\<open>kern/pmm/MContainer\<close>: a tree of processes, each with a
  quota of physical pages of which it uses some itself and gives some to its children.

  The fields of \<^verbatim>\<open>struct SContainer\<close> are C integers of 32 bits. Where the code adds an
  unsigned operand the sum and the comparison are unsigned, and wrap; where it adds a literal
  they are signed, and an overflow is undefined.
\<close>

section \<open>State\<close>

record SContainer =
  quota :: u32
  usage :: u32
  parent :: u32
  nchildren :: u32
  used :: u32

record cont = pmm +
  CONTAINER :: "nat \<Rightarrow> SContainer"

definition upd_container :: "nat \<Rightarrow> (SContainer \<Rightarrow> SContainer) \<Rightarrow> ('z cont_scheme, unit) kmon" where
  "upd_container cid f =
     kthen (kindex cid NUM_IDS) (kmodify (\<lambda>s. s\<lparr>CONTAINER := (CONTAINER s)(cid := f (CONTAINER s cid))\<rparr>))"

definition get_container :: "nat \<Rightarrow> (SContainer \<Rightarrow> 'a) \<Rightarrow> ('z cont_scheme, 'a) kmon" where
  "get_container cid f = kthen (kindex cid NUM_IDS) (kget (\<lambda>s. f (CONTAINER s cid)))"

section \<open>Operations\<close>

definition container_init :: "('z cont_scheme, unit) kmon \<Rightarrow> ('z cont_scheme, unit) kmon" where
  "container_init devinit =
     kthen (pmem_init devinit)
    (kbind get_nps (\<lambda>nps.
     kbind (kfold 1 nps (\<lambda>idx real_quota.
       kbind (at_is_norm idx) (\<lambda>norm.
       if norm then kbind (at_is_allocated idx) (\<lambda>al. kret (if \<not> al then real_quota + 1 else real_quota))
       else kret real_quota)) 0) (\<lambda>real_quota.
     kthen (upd_container 0 (\<lambda>_. \<lparr>quota = real_quota, usage = 0, parent = 0, nchildren = 0, used = 1\<rparr>))
       (kfor 0 NUM_IDS (\<lambda>idx. spinlock_init (ContainerLk idx))))))"

definition container_get_parent :: "nat \<Rightarrow> ('z cont_scheme, u32) kmon" where
  "container_get_parent cid = get_container cid parent"

definition container_get_nchildren :: "nat \<Rightarrow> ('z cont_scheme, u32) kmon" where
  "container_get_nchildren cid = get_container cid nchildren"

definition container_get_quota :: "nat \<Rightarrow> ('z cont_scheme, u32) kmon" where
  "container_get_quota cid = get_container cid quota"

definition container_get_usage :: "nat \<Rightarrow> ('z cont_scheme, u32) kmon" where
  "container_get_usage cid = get_container cid usage"

definition container_can_consume :: "nat \<Rightarrow> u32 \<Rightarrow> ('z cont_scheme, bool) kmon" where
  "container_can_consume cid n = get_container cid (\<lambda>c. usage c + n \<le> quota c)"

definition container_split :: "nat \<Rightarrow> u32 \<Rightarrow> ('z cont_scheme, nat) kmon" where
  "container_split cid q =
     kthen (kindex cid NUM_IDS)
    (kthen (spinlock_acquire (ContainerLk cid))
    (kbind (get_container cid nchildren) (\<lambda>nc.
     let child = unat (of_nat cid * MAX_CHILDREN + 1 + nc) in
     if NUM_IDS \<le> child then kthen (spinlock_release (ContainerLk cid)) (kret NUM_IDS)
     else
       kthen (upd_container child
         (\<lambda>c. \<lparr>quota = q, usage = 0, parent = of_nat cid, nchildren = 0, used = 1\<rparr>))
      (kthen (upd_container cid (\<lambda>c. c\<lparr>usage := usage c + q\<rparr>))
      (kthen (upd_container cid (\<lambda>c. c\<lparr>nchildren := nchildren c + 1\<rparr>))
      (kthen (spinlock_release (ContainerLk cid)) (kret child)))))))"

definition container_alloc :: "nat \<Rightarrow> ('z cont_scheme, nat) kmon" where
  "container_alloc cid =
     kthen (kindex cid NUM_IDS)
    (kthen (spinlock_acquire (ContainerLk cid))
    (kbind (get_container cid (\<lambda>c. c)) (\<lambda>c.
     kthen (kdefined (sint (usage c) + 1 < 2 ^ 31))
    (kbind (if sint (usage c) + 1 \<le> sint (quota c)
            then kthen (upd_container cid (\<lambda>c. c\<lparr>usage := usage c + 1\<rparr>)) palloc
            else kret 0) (\<lambda>page_index.
     kthen (spinlock_release (ContainerLk cid)) (kret page_index))))))"

definition container_free :: "nat \<Rightarrow> nat \<Rightarrow> ('z cont_scheme, unit) kmon" where
  "container_free cid page_index =
     kthen (kindex cid NUM_IDS)
    (kthen (spinlock_acquire (ContainerLk cid))
    (kbind (at_is_allocated page_index) (\<lambda>al.
     kthen (kwhen al
       (kthen (pfree page_index)
         (kbind (get_container cid usage) (\<lambda>u.
            kwhen (sint u > 0) (upd_container cid (\<lambda>c. c\<lparr>usage := usage c - 1\<rparr>))))))
      (spinlock_release (ContainerLk cid)))))"

section \<open>Accounting\<close>

text \<open>
  The pages the allocator manages, those handed out, and the containers in use. The
  invariant: no container uses more than its quota, and what all containers use is what
  they gave to their children plus the pages that are handed out.
\<close>

definition norm_pages :: "'z pmm_scheme \<Rightarrow> nat set" where
  "norm_pages s = {p. VM_USERLO_PI \<le> p \<and> p < VM_USERHI_PI \<and> perm (AT s p) > 1}"

definition held_pages :: "'z pmm_scheme \<Rightarrow> nat set" where
  "held_pages s = {p \<in> norm_pages s. allocated (AT s p) > 0}"

definition live :: "'z cont_scheme \<Rightarrow> nat set" where
  "live s = {cid. cid < NUM_IDS \<and> used (CONTAINER s cid) \<noteq> 0}"

definition quota_of :: "'z cont_scheme \<Rightarrow> nat \<Rightarrow> nat" where
  "quota_of s cid = unat (quota (CONTAINER s cid))"

definition usage_of :: "'z cont_scheme \<Rightarrow> nat \<Rightarrow> nat" where
  "usage_of s cid = unat (usage (CONTAINER s cid))"

definition cont_inv :: "'z cont_scheme \<Rightarrow> bool" where
  "cont_inv s =
     (0 \<in> live s \<and> pmm_ok s \<and> (\<forall>cid < NUM_IDS. lock_free s (ContainerLk cid)) \<and>
      quota_of s 0 = card (norm_pages s) \<and>
      (\<forall>cid \<in> live s. usage_of s cid \<le> quota_of s cid \<and> quota_of s cid \<le> AT_SIZE) \<and>
      sum (usage_of s) (live s) = sum (quota_of s) (live s - {0}) + card (held_pages s))"

lemma cont_inv_bounds:
  assumes "cont_inv s" and "cid \<in> live s"
  shows "quota_of s cid < 2 ^ 31" "usage_of s cid < 2 ^ 31" "usage_of s cid + 1 < 2 ^ 31"
    "cid < NUM_IDS" "pmm_ok s" "kstack_ok s" "lock_free s (ContainerLk cid)" "lock_free s MemLk"
proof -
  from assms have "usage_of s cid \<le> quota_of s cid" "quota_of s cid \<le> AT_SIZE"
    by (simp_all add: cont_inv_def)
  then show "quota_of s cid < 2 ^ 31" "usage_of s cid < 2 ^ 31" "usage_of s cid + 1 < 2 ^ 31"
    by (simp_all add: AT_SIZE_def)
qed (use assms in \<open>auto simp: cont_inv_def live_def pmm_ok_def\<close>)

lemma finite_live [simp]: "finite (live s)"
  by (simp add: live_def)

lemma finite_norm_pages [simp]: "finite (norm_pages s)"
  by (rule finite_subset [of _ "{..<VM_USERHI_PI}"]) (auto simp: norm_pages_def)

lemma held_subset: "held_pages s \<subseteq> norm_pages s"
  by (auto simp: held_pages_def)

lemma sint_small: "unat (x :: u32) < 2 ^ 31 \<Longrightarrow> sint x = int (unat x)"
proof -
  assume "unat x < 2 ^ 31"
  then have "int (unat x) < int (2 ^ 31)" by (simp only: of_nat_less_iff)
  moreover have "- (2 ^ 31) \<le> uint x" by (rule order_trans [of _ 0]) simp_all
  ultimately show ?thesis using signed_take_bit_int_eq_self [of 31 "uint x"] by (simp add: sint_uint)
qed

lemma sint_succ:
  fixes u q :: u32
  assumes "unat u < unat q" and "unat q < 2 ^ 31"
  shows "sint u + 1 < 2 ^ 31" and "sint u + 1 \<le> sint q"
proof -
  have q: "unat q < 2147483648" using assms(2) by simp
  have "sint u = int (unat u)" "sint q = int (unat q)"
    using assms by (simp_all only: sint_small)
  moreover have "int (unat u) + 1 \<le> int (unat q)" "int (unat q) < 2147483648"
    using assms(1) q by linarith+
  ultimately show "sint u + 1 < 2 ^ 31" "sint u + 1 \<le> sint q" by simp_all
qed

lemma sum_fun_upd:
  fixes f :: "'a \<Rightarrow> nat"
  assumes "finite A" and "a \<in> A"
  shows "sum (f(a := v)) A + f a = sum f A + v"
proof -
  have "sum (f(a := v)) A = v + sum (f(a := v)) (A - {a})"
    using assms by (simp add: sum.remove)
  also have "sum (f(a := v)) (A - {a}) = sum f (A - {a})" by (rule sum.cong) auto
  finally show ?thesis using assms sum.remove [of A a f] by simp
qed

lemma page_left:
  assumes "cont_inv s" and "cid \<in> live s" and "usage_of s cid < quota_of s cid"
  shows "\<exists>p. VM_USERLO_PI \<le> p \<and> p < VM_USERHI_PI \<and> avail (AT s) p"
proof -
  have "sum (usage_of s) (live s) < sum (quota_of s) (live s)"
    using assms by (intro sum_strict_mono_ex1) (auto simp: cont_inv_def)
  also have "\<dots> = sum (quota_of s) (live s - {0}) + card (norm_pages s)"
    using assms(1) by (simp add: cont_inv_def sum.remove [of "live s" 0])
  finally have "card (held_pages s) < card (norm_pages s)"
    using assms(1) by (simp add: cont_inv_def)
  then have "held_pages s \<noteq> norm_pages s" by auto
  with held_subset [of s] obtain p where "p \<in> norm_pages s" "p \<notin> held_pages s" by blast
  then show ?thesis by (auto simp: norm_pages_def held_pages_def avail_def)
qed

text \<open>One page more for a container, and one page less.\<close>

definition took_page :: "nat \<Rightarrow> nat \<Rightarrow> 'z cont_scheme \<Rightarrow> 'z cont_scheme \<Rightarrow> bool" where
  "took_page cid p s t =
     (\<exists>i. VM_USERLO_PI \<le> i \<and> i < VM_USERHI_PI \<and>
       t = s\<lparr>CONTAINER := (CONTAINER s)(cid := (CONTAINER s cid)\<lparr>usage := usage (CONTAINER s cid) + 1\<rparr>),
             AT := (AT s)(p := (AT s p)\<lparr>allocated := 1\<rparr>), last_palloc_index := i\<rparr>)"

lemma took_page_inv:
  assumes "cont_inv s" and "cid \<in> live s" and "usage_of s cid < quota_of s cid"
    and "avail (AT s) p" and "VM_USERLO_PI \<le> p" and "p < VM_USERHI_PI" and "took_page cid p s t"
  shows "cont_inv t \<and> usage_of t = (usage_of s)(cid := usage_of s cid + 1) \<and>
    held_pages t = insert p (held_pages s) \<and> p \<notin> held_pages s"
proof -
  from assms(7) obtain i where i: "VM_USERLO_PI \<le> i" "i < VM_USERHI_PI" and
    t: "t = s\<lparr>CONTAINER := (CONTAINER s)(cid := (CONTAINER s cid)\<lparr>usage := usage (CONTAINER s cid) + 1\<rparr>),
             AT := (AT s)(p := (AT s p)\<lparr>allocated := 1\<rparr>), last_palloc_index := i\<rparr>"
    by (auto simp: took_page_def)
  from cont_inv_bounds [OF assms(1,2)] have "quota_of s cid < 2 ^ 31" by simp
  with assms(3) have u: "usage_of t = (usage_of s)(cid := usage_of s cid + 1)"
    by (auto simp: t usage_of_def quota_of_def fun_eq_iff unat_word_ariths)
  have q: "quota_of t = quota_of s" and l: "live t = live s" and n: "norm_pages t = norm_pages s"
    by (auto simp: t quota_of_def live_def norm_pages_def fun_eq_iff)
  have h: "held_pages t = insert p (held_pages s)" and p: "p \<notin> held_pages s"
    using assms(4-6) by (auto simp: t held_pages_def norm_pages_def avail_def)
  have fin: "finite (held_pages s)" using finite_subset [OF held_subset] by simp
  have "sum (usage_of t) (live t) = sum (quota_of t) (live t - {0}) + card (held_pages t)"
    using sum_fun_upd [OF finite_live assms(2), of "usage_of s" "usage_of s cid + 1"] assms(1) p fin
    by (simp add: u q l h cont_inv_def)
  moreover have "pmm_ok t"
    using assms(1) i by (auto simp: t cont_inv_def pmm_ok_def avail_def lock_free_def kstack_ok_def)
  ultimately have "cont_inv t"
    using assms(1,3) by (auto simp: cont_inv_def u q l n) (auto simp: t lock_free_def)
  with u h p show ?thesis by simp
qed

lemma returns_container_alloc:
  assumes "cont_inv s" and "cid \<in> live s" and "usage_of s cid < quota_of s cid"
  shows "returns (container_alloc cid) s (\<lambda>p t.
    avail (AT s) p \<and> VM_USERLO_PI \<le> p \<and> p < VM_USERHI_PI \<and> took_page cid p s t)"
proof -
  let ?s = "(taken s (ContainerLk cid))\<lparr>CONTAINER := (CONTAINER s)(cid :=
      (CONTAINER s cid)\<lparr>usage := usage (CONTAINER s cid) + 1\<rparr>)\<rparr>"
  have cid: "cid < NUM_IDS" and ok: "pmm_ok s" and lk: "lock_free s (ContainerLk cid)"
    and b: "quota_of s cid < 2 ^ 31"
    using cont_inv_bounds [OF assms(1,2)] by simp_all
  have signed: "sint (usage (CONTAINER s cid)) + 1 < 2 ^ 31"
    "sint (usage (CONTAINER s cid)) + 1 \<le> sint (quota (CONTAINER s cid))"
    using b assms(3) by (simp_all only: sint_succ quota_of_def usage_of_def)
  have "pmm_ok ?s" using ok by (simp add: pmm_ok_def lock_free_def kstack_ok_def taken_def)
  from returns_palloc [OF this]
  have "returns palloc ?s (\<lambda>p t. returns (spinlock_release (ContainerLk cid)) t (\<lambda>_ t.
      avail (AT s) p \<and> VM_USERLO_PI \<le> p \<and> p < VM_USERHI_PI \<and> took_page cid p s t))"
  proof (rule returns_mono)
    fix p t assume post: "palloc_post ?s p t"
    from page_left [OF assms] post have "p \<noteq> 0"
      by (auto simp: palloc_post_def taken_def split: if_splits)
    with post lk show "returns (spinlock_release (ContainerLk cid)) t (\<lambda>_ t.
      avail (AT s) p \<and> VM_USERLO_PI \<le> p \<and> p < VM_USERHI_PI \<and> took_page cid p s t)"
      by (auto simp: palloc_post_def taken_def took_page_def kwp)
  qed
  then show ?thesis
    using cid ok lk signed
    by (simp add: container_alloc_def get_container_def upd_container_def kwp pmm_ok_def
        taken_def)
qed

lemma returns_container_alloc_full:
  assumes "cont_inv s" and "cid \<in> live s" and "usage_of s cid = quota_of s cid"
  shows "returns (container_alloc cid) s (\<lambda>p t. p = 0 \<and> t = s)"
proof -
  have cid: "cid < NUM_IDS" and "kstack_ok s" and lk: "lock_free s (ContainerLk cid)"
    and b: "usage_of s cid + 1 < 2 ^ 31"
    using cont_inv_bounds [OF assms(1,2)] by simp_all
  have eq: "usage (CONTAINER s cid) = quota (CONTAINER s cid)"
    using assms(3) by (simp add: usage_of_def quota_of_def word_unat_eq_iff)
  have "unat (quota (CONTAINER s cid)) < 2 ^ 31" and "unat (quota (CONTAINER s cid)) + 1 < 2147483648"
    using assms(3) b by (simp_all add: usage_of_def quota_of_def)
  then have "sint (usage (CONTAINER s cid)) + 1 < 2147483648"
    by (simp only: eq sint_small)
  then show ?thesis
    using cid lk \<open>kstack_ok s\<close> eq
    by (simp add: container_alloc_def get_container_def kwp) (simp add: taken_def)
qed

lemma returns_container_split:
  assumes "cont_inv s" and "cid \<in> live s" and "usage_of s cid + unat q \<le> quota_of s cid"
    and "child = unat (of_nat cid * MAX_CHILDREN + 1 + nchildren (CONTAINER s cid))"
    and "child < NUM_IDS" and "child \<notin> live s"
  shows "returns (container_split cid q) s (\<lambda>r t. r = child \<and> cont_inv t \<and>
    live t = insert child (live s) \<and> quota_of t = (quota_of s)(child := unat q) \<and>
    usage_of t = (usage_of s)(child := 0, cid := usage_of s cid + unat q))"
proof -
  let ?C = "(CONTAINER s)(child := \<lparr>quota = q, usage = 0, parent = of_nat cid, nchildren = 0, used = 1\<rparr>,
     cid := (CONTAINER s cid)\<lparr>usage := usage (CONTAINER s cid) + q,
                              nchildren := nchildren (CONTAINER s cid) + 1\<rparr>)"
  let ?t = "s\<lparr>CONTAINER := ?C\<rparr>"
  have cid: "cid < NUM_IDS" and ok: "kstack_ok s" and lk: "lock_free s (ContainerLk cid)"
    and b: "quota_of s cid < 2 ^ 31" and ne: "cid \<noteq> child"
    using cont_inv_bounds [OF assms(1,2)] assms(2,6) by auto
  have "returns (container_split cid q) s (\<lambda>r t. r = child \<and> t = ?t)"
    using cid ok lk assms(5) ne
    by (simp add: container_split_def get_container_def upd_container_def kwp Let_def
        assms(4) [symmetric] taken_def fun_upd_twist)
  moreover have "cont_inv ?t \<and> live ?t = insert child (live s) \<and>
    quota_of ?t = (quota_of s)(child := unat q) \<and>
    usage_of ?t = (usage_of s)(child := 0, cid := usage_of s cid + unat q)"
  proof -
    have l: "live ?t = insert child (live s)" using assms(2,5) by (auto simp: live_def)
    have qt: "quota_of ?t = (quota_of s)(child := unat q)"
      using ne by (auto simp: quota_of_def fun_eq_iff)
    have "unat (usage (CONTAINER s cid) + q) = usage_of s cid + unat q"
      using assms(3) b by (simp add: usage_of_def unat_word_ariths)
    then have ut: "usage_of ?t = (usage_of s)(child := 0, cid := usage_of s cid + unat q)"
      using ne by (auto simp: usage_of_def fun_eq_iff)
    have cl: "child \<notin> live s" and "0 \<in> live s" using assms(1,6) by (simp_all add: cont_inv_def)
    then have child: "child \<noteq> 0" by metis
    have "sum (usage_of ?t) (live ?t) = sum (usage_of s) (live s) + unat q"
    proof -
      have "sum (usage_of ?t) (live ?t) = sum ((usage_of s)(cid := usage_of s cid + unat q)) (live s)"
        using cl ne by (simp add: l ut) (rule sum.cong, auto)
      with sum_fun_upd [OF finite_live assms(2), of "usage_of s" "usage_of s cid + unat q"]
      show ?thesis by simp
    qed
    moreover have "sum (quota_of ?t) (live ?t - {0}) = sum (quota_of s) (live s - {0}) + unat q"
    proof -
      have "live ?t - {0} = insert child (live s - {0})" using child by (auto simp: l)
      moreover have "sum ((quota_of s)(child := unat q)) (live s - {0}) = sum (quota_of s) (live s - {0})"
        using cl by (intro sum.cong) auto
      ultimately show ?thesis using cl by (simp add: qt)
    qed
    moreover have "pmm_ok ?t" and "norm_pages ?t = norm_pages s" and "held_pages ?t = held_pages s"
      and "\<forall>i < NUM_IDS. lock_free ?t (ContainerLk i)"
      using assms(1)
      by (auto simp: cont_inv_def pmm_ok_def lock_free_def kstack_ok_def norm_pages_def held_pages_def)
    moreover have "unat q \<le> AT_SIZE" using assms(1-3) by (fastforce simp: cont_inv_def)
    ultimately have "cont_inv ?t"
      using assms(1,2,3) child b ne by (auto simp: cont_inv_def l qt ut)
    with l qt ut show ?thesis by blast
  qed
  ultimately show ?thesis by (auto elim!: returns_mono)
qed

lemma returns_container_free:
  assumes "cont_inv s" and "cid \<in> live s" and "0 < usage_of s cid" and "p \<in> held_pages s"
  shows "returns (container_free cid p) s (\<lambda>_ t. cont_inv t \<and> held_pages t = held_pages s - {p} \<and>
    usage_of t = (usage_of s)(cid := usage_of s cid - 1))"
proof -
  let ?t = "s\<lparr>AT := (AT s)(p := (AT s p)\<lparr>allocated := 0\<rparr>),
     CONTAINER := (CONTAINER s)(cid := (CONTAINER s cid)\<lparr>usage := usage (CONTAINER s cid) - 1\<rparr>)\<rparr>"
  have cid: "cid < NUM_IDS" and ok: "kstack_ok s" and lk: "lock_free s (ContainerLk cid)" "lock_free s MemLk"
    and b: "usage_of s cid < 2 ^ 31"
    using cont_inv_bounds [OF assms(1,2)] by simp_all
  have p: "p < AT_SIZE" "0 < allocated (AT s p)" "1 < perm (AT s p)"
    using assms(4) by (auto simp: held_pages_def norm_pages_def kconst AT_SIZE_def)
  have "sint (usage (CONTAINER s cid)) = int (unat (usage (CONTAINER s cid)))"
    using b by (intro sint_small) (simp add: usage_of_def)
  then have pos: "0 < sint (usage (CONTAINER s cid))" using assms(3) unfolding usage_of_def by linarith
  let ?m = "(taken s (ContainerLk cid))"
  have "returns (pfree p) ?m (\<lambda>_ t. t = ?m\<lparr>AT := (AT s)(p := (AT s p)\<lparr>allocated := 0\<rparr>)\<rparr>)"
    using returns_pfree [of ?m p] p lk ok by (simp add: taken_def kstack_ok_def lock_free_def)
  then have "returns (container_free cid p) s (\<lambda>_ t. t = ?t)"
    using cid ok lk p pos
    by (auto simp: container_free_def get_container_def upd_container_def at_is_allocated_def kwp
        taken_def elim!: returns_mono)
  moreover have "cont_inv ?t \<and> held_pages ?t = held_pages s - {p} \<and>
    usage_of ?t = (usage_of s)(cid := usage_of s cid - 1)"
  proof -
    have q: "quota_of ?t = quota_of s" and l: "live ?t = live s" and n: "norm_pages ?t = norm_pages s"
      by (auto simp: quota_of_def live_def norm_pages_def fun_eq_iff)
    have h: "held_pages ?t = held_pages s - {p}" by (auto simp: held_pages_def norm_pages_def)
    have "usage (CONTAINER s cid) \<noteq> 0" using assms(3) by (auto simp: usage_of_def)
    then have u: "usage_of ?t = (usage_of s)(cid := usage_of s cid - 1)"
      by (auto simp: usage_of_def fun_eq_iff unat_minus_one)
    have fin: "finite (held_pages s)" using finite_subset [OF held_subset] by simp
    have "sum (usage_of ?t) (live ?t) = sum (quota_of ?t) (live ?t - {0}) + card (held_pages ?t)"
      using sum_fun_upd [OF finite_live assms(2), of "usage_of s" "usage_of s cid - 1"] assms(1,3,4) fin
        card_gt_0_iff [of "held_pages s"]
      by (auto simp: u q l h cont_inv_def card_Diff_singleton)
    moreover have "pmm_ok ?t"
      using assms(1,4) by (auto simp: cont_inv_def pmm_ok_def avail_def lock_free_def kstack_ok_def)
    ultimately have "cont_inv ?t"
      using assms(1) by (auto simp: cont_inv_def u q l n lock_free_def) 
    with u h show ?thesis by simp
  qed
  ultimately show ?thesis by (auto elim!: returns_mono)
qed

section \<open>Initialisation\<close>

definition free_count :: "(nat \<Rightarrow> ATStruct) \<Rightarrow> nat \<Rightarrow> nat" where
  "free_count tbl n = card {i. 1 \<le> i \<and> i < n \<and> avail tbl i}"

lemma free_count_Suc:
  "1 \<le> n \<Longrightarrow> free_count tbl (Suc n) = free_count tbl n + (if avail tbl n then 1 else 0)"
proof -
  assume "1 \<le> n"
  then have "{i. 1 \<le> i \<and> i < Suc n \<and> avail tbl i} =
      (if avail tbl n then insert n {i. 1 \<le> i \<and> i < n \<and> avail tbl i}
       else {i. 1 \<le> i \<and> i < n \<and> avail tbl i})"
    by (auto simp: less_Suc_eq)
  then show ?thesis by (simp add: free_count_def)
qed

lemma free_count_1 [simp]: "free_count tbl (Suc 0) = 0"
proof -
  have "{i. 1 \<le> i \<and> i < Suc 0 \<and> avail tbl i} = {}" by auto
  then show ?thesis by (simp only: free_count_def card.empty)
qed

lemma returns_count_free:
  assumes "NUM_PAGES s < AT_SIZE"
  shows "returns (kfold 1 (NUM_PAGES s) (\<lambda>idx real_quota.
       kbind (at_is_norm idx) (\<lambda>norm.
       if norm then kbind (at_is_allocated idx) (\<lambda>al. kret (if \<not> al then real_quota + 1 else real_quota))
       else kret real_quota)) (0 :: u32)) s
     (\<lambda>q t. t = s \<and> q = of_nat (free_count (AT s) (NUM_PAGES s)))"
proof (cases "1 \<le> NUM_PAGES s")
  case True
  show ?thesis
  proof (rule returns_kfold [where I = "\<lambda>i q t. t = s \<and> q = of_nat (free_count (AT s) i)"])
    show "s = s \<and> (0 :: u32) = of_nat (free_count (AT s) 1)" by simp
    fix j and y :: u32 and t
    assume "1 \<le> j" "j < NUM_PAGES s" "t = s \<and> y = of_nat (free_count (AT s) j)"
    then show "returns (kbind (at_is_norm j) (\<lambda>norm.
       if norm then kbind (at_is_allocated j) (\<lambda>al. kret (if \<not> al then y + 1 else y)) else kret y)) t
       (\<lambda>q t. t = s \<and> q = of_nat (free_count (AT s) (Suc j)))"
      using assms
      by (auto simp: at_is_norm_def at_is_allocated_def kwp free_count_Suc avail_def)
  qed (use True in simp)
next
  case False
  then have "NUM_PAGES s = 0" by simp
  then show ?thesis by (simp add: kfold.simps [of "Suc 0" 0] kwp free_count_def)
qed

lemma returns_init_container_locks:
  "returns (kfor 0 n (\<lambda>idx. spinlock_init (ContainerLk idx))) s (\<lambda>_ t. \<exists>f. t = s\<lparr>locks := f\<rparr> \<and>
     (\<forall>j < n. f (ContainerLk j) = unlocked) \<and> f MemLk = locks s MemLk)"
proof (rule returns_kfor [where I = "\<lambda>i t. \<exists>f. t = s\<lparr>locks := f\<rparr> \<and>
     (\<forall>j < i. f (ContainerLk j) = unlocked) \<and> f MemLk = locks s MemLk"])
  show "\<exists>f. s = s\<lparr>locks := f\<rparr> \<and> (\<forall>j < 0. f (ContainerLk j) = unlocked) \<and> f MemLk = locks s MemLk"
    by (rule exI [of _ "locks s"]) simp
qed (auto simp: kwp less_Suc_eq)

lemma norm_pages_init:
  assumes "all_reserved tbl" and "AT s = init_AT slots n tbl"
  shows "norm_pages s = {i. 1 \<le> i \<and> i < n \<and> avail (AT s) i}" and "held_pages s = {}"
proof -
  have "1 < perm (AT s i) \<longleftrightarrow> i < n \<and> 1 < page_perm slots i" for i
    using assms by (simp add: init_AT_def all_reserved_def)
  moreover have "allocated (AT s i) = 0" if "i < n" for i
    using assms that by (simp add: init_AT_def)
  moreover have "1 \<le> VM_USERLO_PI" by (simp add: kconst)
  ultimately show "norm_pages s = {i. 1 \<le> i \<and> i < n \<and> avail (AT s) i}" "held_pages s = {}"
    using page_perm_usable [of slots] by (fastforce simp: norm_pages_def held_pages_def avail_def)+
qed

lemma container_init_inv:
  assumes "n < AT_SIZE" and "all_reserved tbl" and "\<forall>i. used (CONTAINER u i) = 0"
    and "VM_USERLO_PI \<le> last_palloc_index u" and "last_palloc_index u < VM_USERHI_PI"
    and "kstack_ok u" and "f MemLk = unlocked" and "\<forall>j < NUM_IDS. f (ContainerLk j) = unlocked"
  shows "cont_inv (u\<lparr>locks := f, NUM_PAGES := n, AT := init_AT slots n tbl,
    CONTAINER := (CONTAINER u)(0 := \<lparr>quota = of_nat (free_count (init_AT slots n tbl) n), usage = 0,
       parent = 0, nchildren = 0, used = 1\<rparr>)\<rparr>)" (is "cont_inv ?t")
proof -
  have l: "live ?t = {0}" using assms(3) by (auto simp: live_def kconst)
  have np: "norm_pages ?t = {i. 1 \<le> i \<and> i < n \<and> avail (AT ?t) i}" and "held_pages ?t = {}"
    by (rule norm_pages_init [OF assms(2), where n = n and slots = slots]; simp)+
  have "free_count (init_AT slots n tbl) n \<le> n"
    unfolding free_count_def by (rule order_trans [OF card_mono [of "{..<n}"]]) auto
  then have "free_count (init_AT slots n tbl) n \<le> AT_SIZE" and "free_count (init_AT slots n tbl) n < 2 ^ 32"
    using assms(1) by (simp_all add: AT_SIZE_def)
  then have "quota_of ?t 0 = card (norm_pages ?t)" and "quota_of ?t 0 \<le> AT_SIZE"
    unfolding np by (simp_all add: quota_of_def unat_of_nat free_count_def)
  moreover have "pmm_ok ?t"
    using assms(2,4-7) by (simp add: pmm_ok_def init_AT_def all_reserved_def lock_free_def kstack_ok_def)
  ultimately show ?thesis
    using \<open>held_pages ?t = {}\<close> assms(8)
    by (simp add: cont_inv_def l usage_of_def lock_free_def)
qed

lemma mboot_frame_cont:
  "mboot_frame s (t :: 'z cont_scheme) \<Longrightarrow> CONTAINER t = CONTAINER s \<and> cont.more t = cont.more s"
  by (cases s; cases t) (simp add: mboot_frame_def)

lemma returns_container_init:
  assumes "(unat len + 23) div 24 \<le> 128" and "pmmap_slots_next_free s = 0"
    and "pmmap_nentries s = 0" and "all_reserved (AT s)" and "\<forall>i. used (CONTAINER s i) = 0"
    and "VM_USERLO_PI \<le> last_palloc_index s" and "last_palloc_index s < VM_USERHI_PI"
    and "kstack_ok s"
  shows "returns (container_init (pmmap_init mm len)) s
    (\<lambda>_ t. cont_inv t \<and> live t = {0} \<and> held_pages t = {} \<and> cont.more t = cont.more s)"
proof -
  have "returns (pmmap_init mm len) s (\<lambda>_ t. pmmap_nentries t = length (pmmap_list t) \<and> mboot_frame s t)"
    by (rule returns_mono [OF returns_pmmap_init [OF refl assms(1-3)]]) simp
  from returns_pmem_init [OF this] show ?thesis
    unfolding container_init_def returns_kthen
  proof (rule returns_mono)
    fix t assume "\<exists>u n. mboot_frame s u \<and> n < AT_SIZE \<and>
      t = u\<lparr>locks := (locks u)(MemLk := unlocked), NUM_PAGES := n, AT := init_AT (pmmap_list u) n (AT u)\<rparr>"
    then obtain u n where fr: "mboot_frame s u" and n: "n < AT_SIZE" and
      t: "t = u\<lparr>locks := (locks u)(MemLk := unlocked), NUM_PAGES := n,
             AT := init_AT (pmmap_list u) n (AT u)\<rparr>" by blast
    let ?tbl = "init_AT (pmmap_list u) n (AT u)"
    let ?c = "(CONTAINER u)(0 := \<lparr>quota = of_nat (free_count ?tbl n), usage = 0,
       parent = 0, nchildren = 0, used = 1\<rparr>)"
    have u: "all_reserved (AT u)" "\<forall>i. used (CONTAINER u i) = 0" "VM_USERLO_PI \<le> last_palloc_index u"
      "last_palloc_index u < VM_USERHI_PI" "kstack_ok u"
      using assms(4-8) mboot_frame_pmm [OF fr] mboot_frame_cont [OF fr] fr
      by (simp_all add: mboot_frame_def kstack_ok_def)
    have fin: "cont_inv v \<and> live v = {0} \<and> held_pages v = {} \<and> cont.more v = cont.more s"
      if "\<exists>f. v = t\<lparr>CONTAINER := ?c, locks := f\<rparr> \<and>
         (\<forall>j < NUM_IDS. f (ContainerLk j) = unlocked) \<and> f MemLk = unlocked" for v
    proof -
      from that obtain f where v: "v = t\<lparr>CONTAINER := ?c, locks := f\<rparr>"
        and f: "f MemLk = unlocked" "\<forall>j < NUM_IDS. f (ContainerLk j) = unlocked" by blast
      have "v = u\<lparr>locks := f, NUM_PAGES := n, AT := ?tbl, CONTAINER := ?c\<rparr>" by (simp add: v t)
      with container_init_inv [OF n u f] u(2) mboot_frame_cont [OF fr]
        norm_pages_init(2) [OF u(1), of v "pmmap_list u" n]
      show ?thesis by (auto simp: live_def kconst)
    qed
    show "returns (kbind get_nps (\<lambda>nps. kbind (kfold 1 nps (\<lambda>idx real_quota.
         kbind (at_is_norm idx) (\<lambda>norm. if norm
           then kbind (at_is_allocated idx) (\<lambda>al. kret (if \<not> al then real_quota + 1 else real_quota))
           else kret real_quota)) 0) (\<lambda>real_quota.
       kthen (upd_container 0 (\<lambda>_. \<lparr>quota = real_quota, usage = 0, parent = 0, nchildren = 0, used = 1\<rparr>))
         (kfor 0 NUM_IDS (\<lambda>idx. spinlock_init (ContainerLk idx)))))) t (\<lambda>_ t. cont_inv t \<and> live t = {0} \<and> held_pages t = {} \<and> cont.more t = cont.more s)"
    proof -
      have tt: "NUM_PAGES t = n" "AT t = ?tbl" "CONTAINER t = CONTAINER u" "locks t MemLk = unlocked"
        by (simp_all add: t)
      have "(0 :: nat) < NUM_IDS" by (simp add: kconst)
      with n tt show ?thesis
        unfolding get_nps_def returns_kbind returns_kget
        by (intro returns_mono [OF returns_count_free])
           (auto simp: upd_container_def kwp intro!: returns_mono [OF returns_init_container_locks] fin)
    qed
  qed
qed

section \<open>Properties\<close>

text \<open>
  C23: \<^verbatim>\<open>container_init\<close> leaves one container in use, the root process, whose quota is the number
  of pages the allocator can hand out, with the accounting invariant of the containers.
\<close>

theorem container_init_root:
  assumes "(unat len + 23) div 24 \<le> 128" and "pmmap_slots_next_free s = 0"
    and "pmmap_nentries s = 0" and "all_reserved (AT s)" and "\<forall>i. used (CONTAINER s i) = 0"
    and "VM_USERLO_PI \<le> last_palloc_index s" and "last_palloc_index s < VM_USERHI_PI"
    and "kstack_ok s"
  shows "returns (container_init (pmmap_init mm len)) s (\<lambda>_ t. cont_inv t \<and> live t = {0})"
  by (rule returns_mono [OF returns_container_init [OF assms]]) simp

definition cont_start :: cont where
  "cont_start = pmm.extend pmm_start
     \<lparr>CONTAINER = (\<lambda>_. \<lparr>quota = 0, usage = 0, parent = 0, nchildren = 0, used = 0\<rparr>)\<rparr>"

theorem container_init_root_witness:
  "returns (container_init (pmmap_init (\<lambda>i. \<lparr>base_addr_low = 0x40000000, base_addr_high = 0,
      length_low = 0x8000, length_high = 0, mmap_type = MEM_RAM\<rparr>) 24)) cont_start
    (\<lambda>_ t. cont_inv t \<and> live t = {0})"
  by (rule container_init_root)
     (simp_all add: cont_start_def pmm_start_def boot_state_def mboot.defs pmm.defs all_reserved_def
        kconst kstack_ok_def)

text \<open>
  C24: a container below its quota always gets a page: \<^verbatim>\<open>container_alloc\<close> returns a page that no
  container held, charges it to the container, and keeps the accounting invariant. The
  quotas handed down the tree therefore never promise more pages than there are.
\<close>

theorem container_alloc_succeeds:
  assumes "cont_inv s" and "cid \<in> live s" and "usage_of s cid < quota_of s cid"
  shows "returns (container_alloc cid) s (\<lambda>p t. p \<in> norm_pages s \<and> p \<notin> held_pages s \<and>
    held_pages t = insert p (held_pages s) \<and> usage_of t = (usage_of s)(cid := usage_of s cid + 1) \<and>
    cont_inv t)"
  by (rule returns_mono [OF returns_container_alloc [OF assms]])
     (use took_page_inv [OF assms] in \<open>auto simp: norm_pages_def avail_def\<close>)

definition cont_one :: cont where
  "cont_one = pmm.extend pmm_one \<lparr>CONTAINER = (\<lambda>i. \<lparr>quota = if i = 0 then 1 else 0, usage = 0,
     parent = 0, nchildren = 0, used = if i = 0 then 1 else 0\<rparr>)\<rparr>"

lemma cont_one_live [simp]: "live cont_one = {0}"
  by (auto simp: live_def cont_one_def pmm_one_def pmm_start_def boot_state_def mboot.defs pmm.defs kconst)

lemma cont_one_pages: "norm_pages cont_one = {0x40001}" "held_pages cont_one = {}"
proof -
  show "norm_pages cont_one = {0x40001}"
    by (auto simp: norm_pages_def cont_one_def pmm_one_def pmm_start_def boot_state_def mboot.defs
        pmm.defs kconst split: if_splits)
  show "held_pages cont_one = {}"
    by (auto simp: held_pages_def cont_one_def pmm_one_def pmm_start_def boot_state_def mboot.defs
        pmm.defs split: if_splits)
qed

lemma cont_one_quota [simp]: "quota_of cont_one 0 = 1" "usage_of cont_one i = 0"
  by (simp_all add: quota_of_def usage_of_def cont_one_def pmm_one_def pmm_start_def boot_state_def
      mboot.defs pmm.defs)

lemma cont_one_inv: "cont_inv cont_one"
proof -
  have "pmm_ok cont_one" "\<forall>i. lock_free cont_one (ContainerLk i)"
    by (simp_all add: pmm_ok_def cont_one_def pmm_one_def pmm_start_def boot_state_def mboot.defs
        pmm.defs lock_free_def kstack_ok_def kconst)
  then show ?thesis by (simp add: cont_inv_def cont_one_pages AT_SIZE_def)
qed

theorem container_alloc_succeeds_witness:
  "returns (container_alloc 0) cont_one (\<lambda>p t. p \<in> norm_pages cont_one \<and> p \<notin> held_pages cont_one \<and>
    held_pages t = insert p (held_pages cont_one) \<and>
    usage_of t = (usage_of cont_one)(0 := usage_of cont_one 0 + 1) \<and> cont_inv t)"
  by (rule container_alloc_succeeds) (simp_all add: cont_one_inv)

text \<open>
  C25: \<^verbatim>\<open>container_split\<close> gives a child, at the tree position of the next child, exactly the
  quota it charges to the parent, and keeps the accounting invariant, if the parent can spare
  the quota and the position is free.
\<close>

theorem container_split_quota:
  assumes "cont_inv s" and "cid \<in> live s" and "usage_of s cid + unat q \<le> quota_of s cid"
    and "child = unat (of_nat cid * MAX_CHILDREN + 1 + nchildren (CONTAINER s cid))"
    and "child < NUM_IDS" and "child \<notin> live s"
  shows "returns (container_split cid q) s (\<lambda>r t. r = child \<and> cont_inv t \<and>
    live t = insert child (live s) \<and> quota_of t = (quota_of s)(child := unat q) \<and>
    usage_of t = (usage_of s)(child := 0, cid := usage_of s cid + unat q))"
  by (rule returns_container_split [OF assms])

theorem container_split_quota_witness:
  "returns (container_split 0 1) cont_one (\<lambda>r t. r = 1 \<and> cont_inv t \<and>
    live t = insert 1 (live cont_one) \<and> quota_of t = (quota_of cont_one)(1 := unat (1 :: u32)) \<and>
    usage_of t = (usage_of cont_one)(1 := 0, 0 := usage_of cont_one 0 + unat (1 :: u32)))"
  by (rule container_split_quota)
     (simp_all add: cont_one_inv, simp_all add: cont_one_def pmm.defs mboot.defs pmm_one_def
        pmm_start_def boot_state_def kconst)

text \<open>
  C26: freeing a page that is handed out, on account of a container that uses at least one,
  takes it back and keeps the accounting invariant.
\<close>

theorem container_free_returns_page:
  assumes "cont_inv s" and "cid \<in> live s" and "0 < usage_of s cid" and "p \<in> held_pages s"
  shows "returns (container_free cid p) s (\<lambda>_ t. cont_inv t \<and> held_pages t = held_pages s - {p} \<and>
    usage_of t = (usage_of s)(cid := usage_of s cid - 1))"
  by (rule returns_container_free [OF assms])

theorem container_free_returns_page_witness:
  "\<exists>s :: cont. \<exists>p. p \<in> held_pages s \<and> returns (container_free 0 p) s (\<lambda>_ t. cont_inv t \<and>
    held_pages t = held_pages s - {p} \<and> usage_of t = (usage_of s)(0 := usage_of s 0 - 1))"
proof -
  have "returns (container_alloc 0) cont_one (\<lambda>p t. avail (AT cont_one) p \<and> VM_USERLO_PI \<le> p \<and>
      p < VM_USERHI_PI \<and> took_page 0 p cont_one t)"
    by (rule returns_container_alloc) (simp_all add: cont_one_inv)
  then obtain p t where "avail (AT cont_one) p" "VM_USERLO_PI \<le> p" "p < VM_USERHI_PI"
    "took_page 0 p cont_one t"
    by (auto elim: returnsE)
  from took_page_inv [OF cont_one_inv _ _ this]
  have t: "cont_inv t" "usage_of t 0 = 1" "p \<in> held_pages t" by simp_all
  moreover from t(1) have "0 \<in> live t" by (simp add: cont_inv_def)
  ultimately have "returns (container_free 0 p) t (\<lambda>_ u. cont_inv u \<and> held_pages u = held_pages t - {p} \<and>
      usage_of u = (usage_of t)(0 := usage_of t 0 - 1))"
    by (intro container_free_returns_page) simp_all
  with t(3) show ?thesis by blast
qed

text \<open>
  C27: the check of \<^verbatim>\<open>container_can_consume\<close> wraps: every container that uses a page is told that
  it can consume \<^verbatim>\<open>0xFFFFFFFF\<close> more pages, whatever its quota.
\<close>

theorem container_can_consume_wraps:
  assumes "cid < NUM_IDS" and "0 < usage_of s cid" and "usage_of s cid \<le> quota_of s cid"
  shows "container_can_consume cid 0xFFFFFFFF s = Ret True s"
proof -
  have "usage (CONTAINER s cid) - 1 \<le> quota (CONTAINER s cid)"
  proof -
    have "usage (CONTAINER s cid) \<noteq> 0" using assms(2) by (auto simp: usage_of_def)
    with assms(3) show ?thesis
      by (simp add: word_le_nat_alt unat_minus_one usage_of_def quota_of_def)
  qed
  moreover have "usage (CONTAINER s cid) + 0xFFFFFFFF = usage (CONTAINER s cid) - 1" by simp
  ultimately have "usage (CONTAINER s cid) + 0xFFFFFFFF \<le> quota (CONTAINER s cid)" by metis
  with assms(1) show ?thesis
    by (simp add: container_can_consume_def get_container_def kwp flip: returns_eq_Ret)
qed

theorem container_can_consume_wraps_witness:
  "\<exists>s :: cont. quota_of s 0 = 5 \<and> container_can_consume 0 0xFFFFFFFF s = Ret True s"
proof -
  let ?s = "cont_one\<lparr>CONTAINER := (\<lambda>_. \<lparr>quota = 5, usage = 1, parent = 0, nchildren = 0, used = 1\<rparr>)\<rparr>"
  have "container_can_consume 0 0xFFFFFFFF ?s = Ret True ?s"
    by (rule container_can_consume_wraps) (simp_all add: kconst usage_of_def quota_of_def)
  moreover have "quota_of ?s 0 = 5" by (simp add: quota_of_def)
  ultimately show ?thesis by blast
qed

end
