(* ===== verification/VMM.thy ===== *)
theory VMM
  imports Container
begin

text \<open>
  The page structures of \<^verbatim>\<open>kern/vmm\<close>: the page directories of the processes, the identity
  page tables of the kernel, and the operations that map and unmap virtual addresses.

  Physical memory is a function from addresses to bytes. The page tables live in it, the
  dynamically allocated ones in pages of the allocator and the identity tables at
  \<open>IDPTbl_base\<close>, the link address of \<^verbatim>\<open>IDPTbl\<close>; the page directories are the array
  \<^verbatim>\<open>PDirPool\<close>. CR3 is the number of the directory it points to.
\<close>

section \<open>State\<close>

record vmm = cont +
  phys_mem :: mem
  IDPTbl_base :: u32
  PDirPool :: "nat \<Rightarrow> nat \<Rightarrow> u32"
  cr0 :: u32
  cr3 :: nat
  cr4 :: u32

definition PT_PERM_PTU :: u32 where "PT_PERM_PTU = PTE_P OR PTE_W OR PTE_U"
definition ADDR_MASK :: "u32 \<Rightarrow> u32" where "ADDR_MASK x = x AND 0xfffff000"
definition PDE_ADDR :: "u32 \<Rightarrow> nat" where "PDE_ADDR x = unat (drop_bit 22 x)"
definition PTE_ADDR :: "u32 \<Rightarrow> nat" where "PTE_ADDR x = unat (drop_bit 12 x AND 0x3ff)"
definition VM_USERLO_PDE :: nat where [kconst]: "VM_USERLO_PDE = 256"
definition VM_USERHI_PDE :: nat where [kconst]: "VM_USERHI_PDE = 960"
definition CR0_PE :: u32 where "CR0_PE = 0x00000001"
definition CR0_MP :: u32 where "CR0_MP = 0x00000002"
definition CR0_EM :: u32 where "CR0_EM = 0x00000004"
definition CR0_TS :: u32 where "CR0_TS = 0x00000008"
definition CR0_NE :: u32 where "CR0_NE = 0x00000020"
definition CR0_WP :: u32 where "CR0_WP = 0x00010000"
definition CR0_AM :: u32 where "CR0_AM = 0x00040000"
definition CR0_PG :: u32 where "CR0_PG = 0x80000000"
definition CR4_PGE :: u32 where "CR4_PGE = 0x00000080"

definition load32 :: "u32 \<Rightarrow> mem \<Rightarrow> u32" where
  "load32 a m = ucast (m a) OR push_bit 8 (ucast (m (a + 1))) OR
     push_bit 16 (ucast (m (a + 2))) OR push_bit 24 (ucast (m (a + 3)))"

definition kload32 :: "u32 \<Rightarrow> ('z vmm_scheme, u32) kmon" where
  "kload32 a = kget (\<lambda>s. load32 a (phys_mem s))"

definition kstore32 :: "u32 \<Rightarrow> u32 \<Rightarrow> ('z vmm_scheme, unit) kmon" where
  "kstore32 a v = kmodify (\<lambda>s. s\<lparr>phys_mem := store32 a v (phys_mem s)\<rparr>)"

section \<open>\<^verbatim>\<open>MPTIntro\<close>\<close>

definition set_pdir_base :: "nat \<Rightarrow> ('z vmm_scheme, unit) kmon" where
  "set_pdir_base index = kthen (kindex index NUM_IDS) (kmodify (\<lambda>s. s\<lparr>cr3 := index\<rparr>))"

definition get_pdir_entry :: "nat \<Rightarrow> nat \<Rightarrow> ('z vmm_scheme, u32) kmon" where
  "get_pdir_entry proc_index pde_index =
     kthen (kindex proc_index NUM_IDS) (kthen (kindex pde_index 1024)
       (kget (\<lambda>s. PDirPool s proc_index pde_index)))"

definition put_pdir_entry :: "nat \<Rightarrow> nat \<Rightarrow> u32 \<Rightarrow> ('z vmm_scheme, unit) kmon" where
  "put_pdir_entry proc_index pde_index v =
     kthen (kindex proc_index NUM_IDS) (kthen (kindex pde_index 1024)
       (kmodify (\<lambda>s. s\<lparr>PDirPool := (PDirPool s)(proc_index :=
          (PDirPool s proc_index)(pde_index := v))\<rparr>)))"

definition set_pdir_entry :: "nat \<Rightarrow> nat \<Rightarrow> u32 \<Rightarrow> ('z vmm_scheme, unit) kmon" where
  "set_pdir_entry proc_index pde_index page_index =
     (let addr = push_bit 12 page_index in put_pdir_entry proc_index pde_index (addr OR PT_PERM_PTU))"

definition IDPTbl :: "'z vmm_scheme \<Rightarrow> nat \<Rightarrow> u32" where
  "IDPTbl s pde_index = IDPTbl_base s + of_nat pde_index * 4096"

definition set_pdir_entry_identity :: "nat \<Rightarrow> nat \<Rightarrow> ('z vmm_scheme, unit) kmon" where
  "set_pdir_entry_identity proc_index pde_index =
     kbind (kget (\<lambda>s. IDPTbl s pde_index)) (\<lambda>addr.
       put_pdir_entry proc_index pde_index (addr OR PT_PERM_PTU))"

definition rmv_pdir_entry :: "nat \<Rightarrow> nat \<Rightarrow> ('z vmm_scheme, unit) kmon" where
  "rmv_pdir_entry proc_index pde_index = put_pdir_entry proc_index pde_index 0"

definition ptbl_slot :: "nat \<Rightarrow> nat \<Rightarrow> nat \<Rightarrow> ('z vmm_scheme, u32) kmon" where
  "ptbl_slot proc_index pde_index pte_index =
     kbind (get_pdir_entry proc_index pde_index) (\<lambda>pde.
       kret (ADDR_MASK pde + 4 * of_nat pte_index))"

definition get_ptbl_entry :: "nat \<Rightarrow> nat \<Rightarrow> nat \<Rightarrow> ('z vmm_scheme, u32) kmon" where
  "get_ptbl_entry proc_index pde_index pte_index =
     kbind (ptbl_slot proc_index pde_index pte_index) kload32"

definition set_ptbl_entry :: "nat \<Rightarrow> nat \<Rightarrow> nat \<Rightarrow> u32 \<Rightarrow> u32 \<Rightarrow> ('z vmm_scheme, unit) kmon" where
  "set_ptbl_entry proc_index pde_index pte_index page_index prm =
     kbind (ptbl_slot proc_index pde_index pte_index) (\<lambda>a.
       kstore32 a (push_bit 12 page_index OR prm))"

definition set_ptbl_entry_identity :: "nat \<Rightarrow> nat \<Rightarrow> u32 \<Rightarrow> ('z vmm_scheme, unit) kmon" where
  "set_ptbl_entry_identity pde_index pte_index prm =
     kthen (kindex pde_index 1024) (kthen (kindex pte_index 1024)
       (let addr = push_bit 22 (of_nat pde_index) OR push_bit 12 (of_nat pte_index) in
        kbind (kget (\<lambda>s. IDPTbl s pde_index)) (\<lambda>pt.
          kstore32 (pt + 4 * of_nat pte_index) (addr OR prm))))"

definition rmv_ptbl_entry :: "nat \<Rightarrow> nat \<Rightarrow> nat \<Rightarrow> ('z vmm_scheme, unit) kmon" where
  "rmv_ptbl_entry proc_index pde_index pte_index =
     kbind (ptbl_slot proc_index pde_index pte_index) (\<lambda>a. kstore32 a 0)"

section \<open>\<^verbatim>\<open>MPTOp\<close>\<close>

definition get_ptbl_entry_by_va :: "nat \<Rightarrow> u32 \<Rightarrow> ('z vmm_scheme, u32) kmon" where
  "get_ptbl_entry_by_va proc_index vaddr =
     (let pde_index = PDE_ADDR vaddr in
      kbind (get_pdir_entry proc_index pde_index) (\<lambda>pde.
        if pde \<noteq> 0 then get_ptbl_entry proc_index pde_index (PTE_ADDR vaddr) else kret 0))"

definition get_pdir_entry_by_va :: "nat \<Rightarrow> u32 \<Rightarrow> ('z vmm_scheme, u32) kmon" where
  "get_pdir_entry_by_va proc_index vaddr = get_pdir_entry proc_index (PDE_ADDR vaddr)"

definition rmv_ptbl_entry_by_va :: "nat \<Rightarrow> u32 \<Rightarrow> ('z vmm_scheme, unit) kmon" where
  "rmv_ptbl_entry_by_va proc_index vaddr =
     (let pde_index = PDE_ADDR vaddr in
      kbind (get_pdir_entry proc_index pde_index) (\<lambda>pde.
        kwhen (pde \<noteq> 0) (rmv_ptbl_entry proc_index pde_index (PTE_ADDR vaddr))))"

definition rmv_pdir_entry_by_va :: "nat \<Rightarrow> u32 \<Rightarrow> ('z vmm_scheme, unit) kmon" where
  "rmv_pdir_entry_by_va proc_index vaddr = rmv_pdir_entry proc_index (PDE_ADDR vaddr)"

definition set_ptbl_entry_by_va :: "nat \<Rightarrow> u32 \<Rightarrow> u32 \<Rightarrow> u32 \<Rightarrow> ('z vmm_scheme, unit) kmon" where
  "set_ptbl_entry_by_va proc_index vaddr page_index prm =
     set_ptbl_entry proc_index (PDE_ADDR vaddr) (PTE_ADDR vaddr) page_index prm"

definition set_pdir_entry_by_va :: "nat \<Rightarrow> u32 \<Rightarrow> u32 \<Rightarrow> ('z vmm_scheme, unit) kmon" where
  "set_pdir_entry_by_va proc_index vaddr page_index =
     set_pdir_entry proc_index (PDE_ADDR vaddr) page_index"

definition idptbl_init :: "('z vmm_scheme, unit) kmon \<Rightarrow> ('z vmm_scheme, unit) kmon" where
  "idptbl_init devinit =
     kthen (container_init devinit)
       (kfor 0 1024 (\<lambda>pde_index.
          let prm = (if pde_index < VM_USERLO_PDE \<or> VM_USERHI_PDE \<le> pde_index
                     then PTE_P OR PTE_W OR PTE_G else PTE_P OR PTE_W)
          in kfor 0 1024 (\<lambda>pte_index. set_ptbl_entry_identity pde_index pte_index prm)))"

section \<open>\<^verbatim>\<open>MPTComm\<close>, \<^verbatim>\<open>MPTKern\<close>, \<^verbatim>\<open>MPTNew\<close> and \<^verbatim>\<open>MPTInit\<close>\<close>

definition pdir_init :: "('z vmm_scheme, unit) kmon \<Rightarrow> ('z vmm_scheme, unit) kmon" where
  "pdir_init devinit =
     kthen (idptbl_init devinit)
       (kfor 0 NUM_IDS (\<lambda>proc_index.
          kfor 0 1024 (\<lambda>pde_index.
            if pde_index < VM_USERLO_PDE \<or> VM_USERHI_PDE \<le> pde_index
            then set_pdir_entry_identity proc_index pde_index
            else rmv_pdir_entry proc_index pde_index)))"

definition alloc_ptbl :: "nat \<Rightarrow> u32 \<Rightarrow> ('z vmm_scheme, u32) kmon" where
  "alloc_ptbl proc_index vaddr =
     kbind (container_alloc proc_index) (\<lambda>page_index.
       let pde_index = PDE_ADDR vaddr in
       if page_index = 0 then kret 0
       else
         kthen (set_pdir_entry_by_va proc_index vaddr (of_nat page_index))
        (kthen (kfor 0 1024 (\<lambda>pte_index. rmv_ptbl_entry proc_index pde_index pte_index))
          (kret (of_nat page_index))))"

definition free_ptbl :: "nat \<Rightarrow> u32 \<Rightarrow> ('z vmm_scheme, unit) kmon" where
  "free_ptbl proc_index vaddr =
     kbind (get_pdir_entry_by_va proc_index vaddr) (\<lambda>pde.
       let page_index = drop_bit 12 pde in
       kthen (rmv_pdir_entry proc_index (PDE_ADDR vaddr))
         (container_free proc_index (unat page_index)))"

definition pdir_init_kern :: "('z vmm_scheme, unit) kmon \<Rightarrow> ('z vmm_scheme, unit) kmon" where
  "pdir_init_kern devinit =
     kthen (pdir_init devinit)
       (kfor VM_USERLO_PDE VM_USERHI_PDE (\<lambda>pde_index. set_pdir_entry_identity 0 pde_index))"

definition map_page :: "nat \<Rightarrow> u32 \<Rightarrow> u32 \<Rightarrow> u32 \<Rightarrow> ('z vmm_scheme, u32) kmon" where
  "map_page proc_index vaddr page_index prm =
     kbind (get_pdir_entry_by_va proc_index vaddr) (\<lambda>pde_entry.
     let pde_page_index = drop_bit 12 pde_entry in
     if pde_entry = 0 then
       kbind (alloc_ptbl proc_index vaddr) (\<lambda>pde_page_index.
         if pde_page_index = 0 then kret MagicNumber
         else kthen (set_ptbl_entry_by_va proc_index vaddr page_index prm) (kret pde_page_index))
     else kthen (set_ptbl_entry_by_va proc_index vaddr page_index prm) (kret pde_page_index))"

definition unmap_page :: "nat \<Rightarrow> u32 \<Rightarrow> ('z vmm_scheme, u32) kmon" where
  "unmap_page proc_index vaddr =
     kbind (get_ptbl_entry_by_va proc_index vaddr) (\<lambda>pte_entry.
       kthen (kwhen (pte_entry \<noteq> 0) (rmv_ptbl_entry_by_va proc_index vaddr)) (kret pte_entry))"

definition alloc_page :: "nat \<Rightarrow> u32 \<Rightarrow> u32 \<Rightarrow> ('z vmm_scheme, u32) kmon" where
  "alloc_page proc_index vaddr prm =
     kbind (container_alloc proc_index) (\<lambda>page_index.
       if page_index \<noteq> 0 then map_page proc_index vaddr (of_nat page_index) prm
       else kret MagicNumber)"

definition alloc_mem_quota :: "nat \<Rightarrow> u32 \<Rightarrow> ('z vmm_scheme, nat) kmon" where
  "alloc_mem_quota cid q = container_split cid q"

definition enable_paging :: "('z vmm_scheme, unit) kmon" where
  "enable_paging =
     kthen (kmodify (\<lambda>s. s\<lparr>cr4 := cr4 s OR CR4_PGE\<rparr>))
       (kmodify (\<lambda>s. s\<lparr>cr0 := (cr0 s OR (CR0_PE OR CR0_PG OR CR0_AM OR CR0_WP OR CR0_NE OR CR0_MP))
          AND NOT (CR0_EM OR CR0_TS)\<rparr>))"

definition paging_init :: "('z vmm_scheme, unit) kmon \<Rightarrow> ('z vmm_scheme, unit) kmon" where
  "paging_init devinit = kthen (pdir_init_kern devinit) (kthen (set_pdir_base 0) enable_paging)"

definition paging_init_ap :: "('z vmm_scheme, unit) kmon" where
  "paging_init_ap = kthen (set_pdir_base 0) enable_paging"

section \<open>Words in memory\<close>

lemma load32_store32: "load32 a (store32 a v m) = v"
proof -
  have ne: "a + 1 \<noteq> a" "a + 2 \<noteq> a" "a + 3 \<noteq> a" "a + 1 \<noteq> a + 2" "a + 1 \<noteq> a + 3" "a + 2 \<noteq> a + 3"
    by simp_all
  have "load32 a (store32 a v m) = ucast (ucast v :: u8) OR push_bit 8 (ucast (ucast (drop_bit 8 v) :: u8)) OR
     push_bit 16 (ucast (ucast (drop_bit 16 v) :: u8)) OR push_bit 24 (ucast (ucast (drop_bit 24 v) :: u8))"
    using ne by (simp add: load32_def store32_def)
  also have "\<dots> = v" (is "?w = v")
  proof (rule bit_word_eqI)
    fix n assume "n < LENGTH(32)"
    then consider "n < 8" | "8 \<le> n" "n < 16" | "16 \<le> n" "n < 24" | "24 \<le> n" "n < 32" by fastforce
    then show "bit ?w n = bit v n" by cases (auto simp: bit_simps)
  qed
  finally show ?thesis .
qed

lemma aligned_add:
  fixes a :: u32
  assumes "unat a mod 4 = 0" and "i < 4"
  shows "unat (a + of_nat i) = unat a + i"
proof -
  have "unat a < 2 ^ 32" using unsigned_less [of a] by simp
  with assms have "unat a + i < 4294967296" by simp presburger
  then show ?thesis by (simp add: unat_word_ariths unat_of_nat)
qed

lemma aligned_disjoint:
  fixes a b :: u32
  assumes "unat a mod 4 = 0" and "unat b mod 4 = 0" and "a \<noteq> b" and "i < 4" and "j < 4"
  shows "a + of_nat i \<noteq> b + of_nat j"
proof
  assume "a + of_nat i = b + of_nat j"
  then have "unat a + i = unat b + j" using assms aligned_add by metis
  with assms(1,2,4,5) have "unat a = unat b" by presburger
  with assms(3) show False by (simp add: word_unat_eq_iff)
qed

lemma load32_store32_other:
  assumes "unat a mod 4 = 0" and "unat b mod 4 = 0" and "a \<noteq> b"
  shows "load32 b (store32 a v m) = load32 b m"
proof -
  note d = aligned_disjoint [OF assms]
  show ?thesis
    using d [of 0 0] d [of 0 1] d [of 0 2] d [of 0 3] d [of 1 0] d [of 1 1] d [of 1 2] d [of 1 3]
      d [of 2 0] d [of 2 1] d [of 2 2] d [of 2 3] d [of 3 0] d [of 3 1] d [of 3 2] d [of 3 3]
    by (simp add: load32_def store32_def)
qed

text \<open>The address of entry \<open>k\<close> of a page table in page \<open>f\<close>.\<close>

definition slot :: "nat \<Rightarrow> nat \<Rightarrow> u32" where
  "slot f k = of_nat (f * 4096 + 4 * k)"

lemma unat_slot: "f < 2 ^ 20 \<Longrightarrow> k < 1024 \<Longrightarrow> unat (slot f k) = f * 4096 + 4 * k"
  by (simp only: slot_def unat_of_nat) simp

lemma slot_aligned: "f < 2 ^ 20 \<Longrightarrow> k < 1024 \<Longrightarrow> unat (slot f k) mod 4 = 0"
  by (simp add: unat_slot)

lemma slot_inj:
  assumes "f < 2 ^ 20" "k < 1024" "f' < 2 ^ 20" "k' < 1024"
  shows "slot f k = slot f' k' \<longleftrightarrow> f = f' \<and> k = k'"
proof
  assume "slot f k = slot f' k'"
  then have eq: "f * 4096 + 4 * k = f' * 4096 + 4 * k'" using assms unat_slot by metis
  then have "(f * 4096 + 4 * k) div 4096 = (f' * 4096 + 4 * k') div 4096" by (rule arg_cong)
  with assms(2,4) have "f = f'" by simp
  with eq show "f = f' \<and> k = k'" by simp
qed simp

lemma load32_store32_slot:
  assumes "f < 2 ^ 20" "k < 1024" "f' < 2 ^ 20" "k' < 1024"
  shows "load32 (slot f' k') (store32 (slot f k) v m) =
    (if f = f' \<and> k = k' then v else load32 (slot f' k') m)"
  using load32_store32_other [OF slot_aligned slot_aligned, OF assms] slot_inj [OF assms]
  by (simp add: load32_store32)

section \<open>Directory entries\<close>

definition pde_of :: "nat \<Rightarrow> u32" where
  "pde_of f = push_bit 12 (of_nat f) OR PT_PERM_PTU"

lemma PT_PERM_PTU_mask: "PT_PERM_PTU = mask 3"
  by (simp add: PT_PERM_PTU_def kconst mask_eq_exp_minus_1)

lemma page_mask: "(0xfffff000 :: u32) = NOT (mask 12)"
  by (simp add: mask_eq_exp_minus_1)

lemma ADDR_MASK_pde: "ADDR_MASK (push_bit 12 x OR PT_PERM_PTU) = push_bit 12 x"
  unfolding ADDR_MASK_def page_mask PT_PERM_PTU_mask
  by (rule bit_word_eqI) (auto simp: bit_simps)

lemma drop_pde: "drop_bit 12 (push_bit 12 x OR PT_PERM_PTU) = x AND mask 20"
  unfolding PT_PERM_PTU_mask by (rule bit_word_eqI) (auto simp: bit_simps)

lemma push_of_nat: "push_bit 12 (of_nat f :: u32) = of_nat (f * 4096)"
  by (simp add: push_bit_eq_mult)

lemma ADDR_MASK_pde_of: "ADDR_MASK (pde_of f) + 4 * of_nat k = slot f k"
  unfolding pde_of_def ADDR_MASK_pde unfolding push_of_nat slot_def by simp

lemma unat_drop_pde_of: "f < 2 ^ 20 \<Longrightarrow> unat (drop_bit 12 (pde_of f)) = f"
  by (simp only: pde_of_def drop_pde take_bit_eq_mask [symmetric]) (simp add: unsigned_take_bit_eq take_bit_nat_eq_self unat_of_nat)

lemma pde_of_inj: "f < 2 ^ 20 \<Longrightarrow> f' < 2 ^ 20 \<Longrightarrow> pde_of f = pde_of f' \<Longrightarrow> f = f'"
  by (metis unat_drop_pde_of)

lemma pde_of_nonzero [simp]: "pde_of f \<noteq> 0"
proof
  assume "pde_of f = 0"
  then have "bit (pde_of f) 0 = False" by simp
  then show False by (simp add: pde_of_def PT_PERM_PTU_mask bit_simps)
qed

lemma PDE_ADDR_div: "PDE_ADDR va = unat va div 4096 div 1024"
  by (simp add: PDE_ADDR_def drop_bit_eq_div unat_div div_mult2_eq [symmetric])

lemma PTE_ADDR_mod: "PTE_ADDR va = unat va div 4096 mod 1024"
proof -
  have m: "(0x3ff :: u32) = mask 10" by (simp add: mask_eq_exp_minus_1)
  show ?thesis
    unfolding PTE_ADDR_def m take_bit_eq_mask [symmetric] unsigned_take_bit_eq
    by (simp add: drop_bit_eq_div take_bit_eq_mod unat_div)
qed

lemma PTE_ADDR_less [simp]: "PTE_ADDR va < 1024"
  by (simp add: PTE_ADDR_mod)

lemma PDE_ADDR_less [simp]: "PDE_ADDR va < 1024"
proof -
  have "unat va < 2 ^ 32" using unsigned_less [of va] by simp
  then show ?thesis by (simp add: PDE_ADDR_div)
qed

lemma same_page: "PDE_ADDR va = PDE_ADDR va' \<and> PTE_ADDR va = PTE_ADDR va' \<longleftrightarrow>
    unat va div 4096 = unat va' div 4096"
  unfolding PDE_ADDR_div PTE_ADDR_mod by (metis div_mult_mod_eq)

definition user_va :: "u32 \<Rightarrow> bool" where
  "user_va va = (VM_USERLO \<le> va \<and> va < VM_USERHI)"

definition user_pde :: "nat \<Rightarrow> bool" where
  "user_pde p = (VM_USERLO_PDE \<le> p \<and> p < VM_USERHI_PDE)"

lemma user_va_pde: "user_va va \<longleftrightarrow> user_pde (PDE_ADDR va)"
  by (simp add: user_va_def user_pde_def PDE_ADDR_div kconst word_le_nat_alt word_less_nat_alt
      div_mult2_eq [symmetric] less_eq_div_iff_mult_less_eq div_less_iff_less_mult)

section \<open>Translation\<close>

definition lookup :: "'z vmm_scheme \<Rightarrow> nat \<Rightarrow> u32 \<Rightarrow> u32" where
  "lookup s pid va =
     (if PDirPool s pid (PDE_ADDR va) = 0 then 0
      else load32 (ADDR_MASK (PDirPool s pid (PDE_ADDR va)) + 4 * of_nat (PTE_ADDR va)) (phys_mem s))"

lemma returns_get_ptbl_entry_by_va [kwp]:
  "returns (get_ptbl_entry_by_va pid va) s Q = (pid < NUM_IDS \<and> Q (lookup s pid va) s)"
  by (auto simp: get_ptbl_entry_by_va_def get_pdir_entry_def get_ptbl_entry_def ptbl_slot_def
      kload32_def lookup_def Let_def kwp)

text \<open>
  The page tables of the user range of every process but process 0, whose range is mapped by
  the identity tables: each is a page that some container holds, and no two are the same.
\<close>

definition user_dir :: "nat \<Rightarrow> nat \<Rightarrow> bool" where
  "user_dir pid pde = (0 < pid \<and> pid < NUM_IDS \<and> user_pde pde)"

definition vm_inv :: "'z vmm_scheme \<Rightarrow> bool" where
  "vm_inv s =
     (cont_inv s \<and>
      (\<forall>pid pde. user_dir pid pde \<longrightarrow>
         PDirPool s pid pde = 0 \<or> (\<exists>f \<in> held_pages s. PDirPool s pid pde = pde_of f)) \<and>
      (\<forall>pid pde pid' pde' f. user_dir pid pde \<and> user_dir pid' pde' \<and>
         PDirPool s pid pde = pde_of f \<and> PDirPool s pid' pde' = pde_of f \<longrightarrow> pid = pid' \<and> pde = pde'))"

lemma held_page_bound: "f \<in> held_pages s \<Longrightarrow> f < 2 ^ 20"
  by (simp add: held_pages_def norm_pages_def kconst)

lemma vm_inv_cases:
  assumes "vm_inv s" and "user_dir pid pde"
  obtains "PDirPool s pid pde = 0"
  | f where "f \<in> held_pages s" "f < 2 ^ 20" "PDirPool s pid pde = pde_of f"
  using assms held_page_bound unfolding vm_inv_def by blast

lemma vm_inv_inj:
  "vm_inv s \<Longrightarrow> user_dir pid pde \<Longrightarrow> user_dir pid' pde' \<Longrightarrow> PDirPool s pid pde = pde_of f \<Longrightarrow>
   PDirPool s pid' pde' = pde_of f \<Longrightarrow> pid = pid' \<and> pde = pde'"
  unfolding vm_inv_def by blast

lemma lookup_pde_of:
  "PDirPool s pid (PDE_ADDR va) = pde_of f \<Longrightarrow> lookup s pid va = load32 (slot f (PTE_ADDR va)) (phys_mem s)"
  by (simp add: lookup_def ADDR_MASK_pde_of)

lemma cont_frame_simps [simp]:
  "cont_inv (s\<lparr>phys_mem := m\<rparr>) = cont_inv s"
  "cont_inv (s\<lparr>PDirPool := d\<rparr>) = cont_inv s"
  "held_pages (s\<lparr>phys_mem := m\<rparr>) = held_pages s"
  "held_pages (s\<lparr>PDirPool := d\<rparr>) = held_pages s"
proof -
  have "norm_pages (s\<lparr>phys_mem := m\<rparr>) = norm_pages s" "norm_pages (s\<lparr>PDirPool := d\<rparr>) = norm_pages s"
    "live (s\<lparr>phys_mem := m\<rparr>) = live s" "live (s\<lparr>PDirPool := d\<rparr>) = live s"
    "usage_of (s\<lparr>phys_mem := m\<rparr>) = usage_of s" "usage_of (s\<lparr>PDirPool := d\<rparr>) = usage_of s"
    "quota_of (s\<lparr>phys_mem := m\<rparr>) = quota_of s" "quota_of (s\<lparr>PDirPool := d\<rparr>) = quota_of s"
    by (auto simp: norm_pages_def live_def usage_of_def quota_of_def fun_eq_iff)
  moreover from this(1,2)
  show "held_pages (s\<lparr>phys_mem := m\<rparr>) = held_pages s" "held_pages (s\<lparr>PDirPool := d\<rparr>) = held_pages s"
    by (simp_all add: held_pages_def)
  ultimately show "cont_inv (s\<lparr>phys_mem := m\<rparr>) = cont_inv s" "cont_inv (s\<lparr>PDirPool := d\<rparr>) = cont_inv s"
    by (simp_all add: cont_inv_def pmm_ok_def lock_free_def kstack_ok_def)
qed

text \<open>The pages that container \<open>pid\<close> was charged for between two states; no other container is charged.\<close>

definition charged :: "nat \<Rightarrow> nat set \<Rightarrow> 'z vmm_scheme \<Rightarrow> 'z vmm_scheme \<Rightarrow> bool" where
  "charged pid P s t = (held_pages t = P \<union> held_pages s \<and> P \<inter> held_pages s = {} \<and>
     usage_of t = (usage_of s)(pid := usage_of s pid + card P))"

lemma usage_of_frame [simp]:
  "usage_of (s\<lparr>phys_mem := m\<rparr>) = usage_of s" "usage_of (s\<lparr>PDirPool := d\<rparr>) = usage_of s"
  by (simp_all add: usage_of_def fun_eq_iff)

lemma charged_frame [simp]: "charged pid P s (t\<lparr>phys_mem := m\<rparr>) = charged pid P s t"
  by (simp add: charged_def)

lemma charged_none [simp]: "charged pid {} s s"
  by (simp add: charged_def)

lemma charged_trans:
  assumes "charged pid P s t" "charged pid P' t u" "finite P" "finite P'"
  shows "charged pid (P' \<union> P) s u \<and> card (P' \<union> P) = card P' + card P"
proof -
  have "P' \<inter> P = {}" using assms(1,2) by (auto simp: charged_def)
  then have "card (P' \<union> P) = card P' + card P" using assms(3,4) by (simp add: card_Un_disjoint)
  with assms(1,2) show ?thesis by (auto simp: charged_def)
qed

lemma vm_inv_phys_mem [simp]: "vm_inv (s\<lparr>phys_mem := m\<rparr>) = vm_inv s"
  by (simp add: vm_inv_def)

definition same_entry :: "nat \<Rightarrow> u32 \<Rightarrow> nat \<Rightarrow> u32 \<Rightarrow> bool" where
  "same_entry pid va pid' va' = (pid' = pid \<and> unat va' div 4096 = unat va div 4096)"

definition remapped :: "nat \<Rightarrow> u32 \<Rightarrow> u32 \<Rightarrow> 'z vmm_scheme \<Rightarrow> 'z vmm_scheme \<Rightarrow> bool" where
  "remapped pid va v s t =
     (\<forall>pid' va'. 0 < pid' \<and> pid' < NUM_IDS \<and> user_va va' \<longrightarrow>
        lookup t pid' va' = (if same_entry pid va pid' va' then v else lookup s pid' va'))"

lemma store_entry_remapped:
  assumes inv: "vm_inv s" and pid: "0 < pid" "pid < NUM_IDS" and va: "user_va va"
    and f: "PDirPool s pid (PDE_ADDR va) = pde_of f" "f < 2 ^ 20"
  shows "remapped pid va v s (s\<lparr>phys_mem := store32 (slot f (PTE_ADDR va)) v (phys_mem s)\<rparr>)"
  unfolding remapped_def
proof (intro allI impI)
  fix pid' va' assume a: "0 < pid' \<and> pid' < NUM_IDS \<and> user_va va'"
  let ?t = "s\<lparr>phys_mem := store32 (slot f (PTE_ADDR va)) v (phys_mem s)\<rparr>"
  have d: "user_dir pid (PDE_ADDR va)" "user_dir pid' (PDE_ADDR va')"
    using a pid va by (simp_all add: user_dir_def user_va_pde)
  from inv d(2) show "lookup ?t pid' va' = (if same_entry pid va pid' va' then v else lookup s pid' va')"
  proof (rule vm_inv_cases)
    assume z: "PDirPool s pid' (PDE_ADDR va') = 0"
    then have "\<not> same_entry pid va pid' va'"
      using f(1) same_page [of va' va] by (auto simp: same_entry_def)
    with z show ?thesis by (simp add: lookup_def)
  next
    fix f' assume f': "f' < 2 ^ 20" "PDirPool s pid' (PDE_ADDR va') = pde_of f'"
    have "f = f' \<longleftrightarrow> pid' = pid \<and> PDE_ADDR va' = PDE_ADDR va"
      using vm_inv_inj [OF inv d f(1)] pde_of_inj [OF f(2) f'(1)] f(1) f'(2) by metis
    then have "f = f' \<and> PTE_ADDR va = PTE_ADDR va' \<longleftrightarrow> same_entry pid va pid' va'"
      using same_page [of va' va] unfolding same_entry_def by metis
    then show ?thesis
      using f' f(2) by (simp add: lookup_pde_of load32_store32_slot)
  qed
qed

section \<open>New page tables\<close>

lemma returns_rmv_ptbl_entry:
  "pid < NUM_IDS \<Longrightarrow> pde < 1024 \<Longrightarrow> PDirPool u pid pde = pde_of f \<Longrightarrow>
   returns (rmv_ptbl_entry pid pde k) u Q = Q () (u\<lparr>phys_mem := store32 (slot f k) 0 (phys_mem u)\<rparr>)"
  by (simp add: rmv_ptbl_entry_def ptbl_slot_def get_pdir_entry_def kstore32_def kwp ADDR_MASK_pde_of)

text \<open>The table in page \<open>f\<close> has the entries \<open>v\<close> up to \<open>n\<close>; no other table changed.\<close>

definition filled :: "nat \<Rightarrow> nat \<Rightarrow> (nat \<Rightarrow> u32) \<Rightarrow> mem \<Rightarrow> mem \<Rightarrow> bool" where
  "filled f n v m m' =
     ((\<forall>k < n. load32 (slot f k) m' = v k) \<and>
      (\<forall>f' k. f' < 2 ^ 20 \<and> f' \<noteq> f \<and> k < 1024 \<longrightarrow> load32 (slot f' k) m' = load32 (slot f' k) m))"

abbreviation "cleared f \<equiv> filled f 1024 (\<lambda>_. 0)"

lemma filled_Suc:
  "filled f n v m m' \<Longrightarrow> n < 1024 \<Longrightarrow> f < 2 ^ 20 \<Longrightarrow> filled f (Suc n) v m (store32 (slot f n) (v n) m')"
  by (auto simp: filled_def load32_store32_slot less_Suc_eq)

lemma returns_fill_table:
  assumes "f < 2 ^ 20"
    and "\<And>k m Q. k < 1024 \<Longrightarrow>
      returns (body k) (u\<lparr>phys_mem := m\<rparr>) Q = Q () (u\<lparr>phys_mem := store32 (slot f k) (v k) m\<rparr>)"
  shows "returns (kfor 0 1024 body) u
    (\<lambda>_ t. \<exists>m. t = u\<lparr>phys_mem := m\<rparr> \<and> filled f 1024 v (phys_mem u) m)"
proof (rule returns_kfor [where I = "\<lambda>n t. \<exists>m. t = u\<lparr>phys_mem := m\<rparr> \<and> filled f n v (phys_mem u) m"])
  show "\<exists>m. u = u\<lparr>phys_mem := m\<rparr> \<and> filled f 0 v (phys_mem u) m"
    by (rule exI [of _ "phys_mem u"]) (simp add: filled_def)
  fix j t assume "j < 1024" and "\<exists>m. t = u\<lparr>phys_mem := m\<rparr> \<and> filled f j v (phys_mem u) m"
  then obtain m where "t = u\<lparr>phys_mem := m\<rparr>" "filled f j v (phys_mem u) m" by blast
  with \<open>j < 1024\<close> show "returns (body j) t
      (\<lambda>_ t. \<exists>m. t = u\<lparr>phys_mem := m\<rparr> \<and> filled f (Suc j) v (phys_mem u) m)"
    using filled_Suc [of f j v _ m] assms by blast
qed simp

lemma returns_clear_ptbl:
  assumes "pid < NUM_IDS" and "pde < 1024" and "PDirPool u pid pde = pde_of f" and "f < 2 ^ 20"
  shows "returns (kfor 0 1024 (\<lambda>k. rmv_ptbl_entry pid pde k)) u
    (\<lambda>_ t. \<exists>m. t = u\<lparr>phys_mem := m\<rparr> \<and> cleared f (phys_mem u) m)"
  using assms by (intro returns_fill_table) (simp_all add: returns_rmv_ptbl_entry [where f = f])

definition new_ptbl :: "nat \<Rightarrow> u32 \<Rightarrow> nat \<Rightarrow> 'z vmm_scheme \<Rightarrow> 'z vmm_scheme \<Rightarrow> bool" where
  "new_ptbl pid va f s t =
     (\<exists>u m. took_page pid f s u \<and> cleared f (phys_mem s) m \<and>
        t = u\<lparr>PDirPool := (PDirPool s)(pid := (PDirPool s pid)(PDE_ADDR va := pde_of f)), phys_mem := m\<rparr>)"

lemma returns_alloc_ptbl:
  assumes "cont_inv s" and "pid \<in> live s" and "usage_of s pid < quota_of s pid"
  shows "returns (alloc_ptbl pid va) s (\<lambda>r t. \<exists>f. r = of_nat f \<and> avail (AT s) f \<and>
    VM_USERLO_PI \<le> f \<and> f < VM_USERHI_PI \<and> new_ptbl pid va f s t)"
  unfolding alloc_ptbl_def returns_kbind
proof (rule returns_mono [OF returns_container_alloc [OF assms]])
  fix f u assume u: "avail (AT s) f \<and> VM_USERLO_PI \<le> f \<and> f < VM_USERHI_PI \<and> took_page pid f s u"
  then have sel: "PDirPool u = PDirPool s" "phys_mem u = phys_mem s" and "f \<noteq> 0" and "f < 2 ^ 20"
    by (auto simp: took_page_def kconst)
  have pid: "pid < NUM_IDS" using assms(2) by (simp add: live_def)
  let ?v = "u\<lparr>PDirPool := (PDirPool s)(pid := (PDirPool s pid)(PDE_ADDR va := pde_of f))\<rparr>"
  have "returns (kfor 0 1024 (\<lambda>k. rmv_ptbl_entry pid (PDE_ADDR va) k)) ?v
      (\<lambda>_ t. \<exists>m. t = ?v\<lparr>phys_mem := m\<rparr> \<and> cleared f (phys_mem s) m)"
    using returns_clear_ptbl [of pid "PDE_ADDR va" ?v f] pid \<open>f < 2 ^ 20\<close> sel by simp
  then show "returns (let pde_index = PDE_ADDR va in
       if f = 0 then kret 0
       else kthen (set_pdir_entry_by_va pid va (of_nat f))
           (kthen (kfor 0 1024 (\<lambda>pte_index. rmv_ptbl_entry pid pde_index pte_index)) (kret (of_nat f)))) u
     (\<lambda>r t. \<exists>f. r = of_nat f \<and> avail (AT s) f \<and> VM_USERLO_PI \<le> f \<and> f < VM_USERHI_PI \<and> new_ptbl pid va f s t)"
    using u pid \<open>f \<noteq> 0\<close> sel
    by (auto simp: set_pdir_entry_by_va_def set_pdir_entry_def put_pdir_entry_def pde_of_def Let_def kwp
        new_ptbl_def elim!: returns_mono)
qed

lemma new_ptbl_inv:
  assumes inv: "vm_inv s" and pid: "0 < pid" "pid \<in> live s" and q: "usage_of s pid < quota_of s pid"
    and va: "user_va va" and z: "PDirPool s pid (PDE_ADDR va) = 0"
    and f: "avail (AT s) f" "VM_USERLO_PI \<le> f" "f < VM_USERHI_PI" and t: "new_ptbl pid va f s t"
  shows "vm_inv t \<and> PDirPool t pid (PDE_ADDR va) = pde_of f \<and>
    (\<forall>pid' va'. 0 < pid' \<and> pid' < NUM_IDS \<and> user_va va' \<longrightarrow> lookup t pid' va' = lookup s pid' va')"
proof -
  obtain u m where took: "took_page pid f s u" and m: "cleared f (phys_mem s) m"
    and t: "t = u\<lparr>PDirPool := (PDirPool s)(pid := (PDirPool s pid)(PDE_ADDR va := pde_of f)), phys_mem := m\<rparr>"
    using t unfolding new_ptbl_def by blast
  have ci: "cont_inv s" using inv by (simp add: vm_inv_def)
  have b: "f < 2 ^ 20" using f(3) by (simp add: kconst)
  from took_page_inv [OF ci pid(2) q f took] have cu: "cont_inv u"
    and held: "held_pages u = insert f (held_pages s)" and nf: "f \<notin> held_pages s" by simp_all
  have fresh: "PDirPool s pid' pde' \<noteq> pde_of f" if "user_dir pid' pde'" for pid' pde'
    using inv that nf pde_of_inj [OF b] by (metis vm_inv_cases pde_of_nonzero)
  have ud: "user_dir pid (PDE_ADDR va)"
    using pid va by (simp add: user_dir_def user_va_pde live_def)
  have dir: "PDirPool t pid' pde' = (if pid' = pid \<and> pde' = PDE_ADDR va then pde_of f else PDirPool s pid' pde')"
    for pid' pde' by (simp add: t)
  have "vm_inv t"
    unfolding vm_inv_def
  proof (intro conjI allI impI)
    show "cont_inv t" using cu by (simp add: t)
    show "PDirPool t pid' pde' = 0 \<or> (\<exists>f \<in> held_pages t. PDirPool t pid' pde' = pde_of f)"
      if "user_dir pid' pde'" for pid' pde'
      using vm_inv_cases [OF inv that] held by (simp add: dir) (auto simp: t)
  next
    fix pid1 pde1 pid2 pde2 g
    assume "user_dir pid1 pde1 \<and> user_dir pid2 pde2 \<and> PDirPool t pid1 pde1 = pde_of g \<and> PDirPool t pid2 pde2 = pde_of g"
    then show "pid1 = pid2" "pde1 = pde2"
      using fresh vm_inv_inj [OF inv] by (auto simp: dir split: if_splits)
  qed
  moreover have "lookup t pid' va' = lookup s pid' va'"
    if a: "0 < pid' \<and> pid' < NUM_IDS \<and> user_va va'" for pid' va'
  proof (cases "pid' = pid \<and> PDE_ADDR va' = PDE_ADDR va")
    case True
    then have "lookup t pid' va' = load32 (slot f (PTE_ADDR va')) m"
      by (subst lookup_pde_of [where f = f]) (simp_all add: t)
    with True m z show ?thesis by (simp add: filled_def lookup_def)
  next
    case False
    then have e: "PDirPool t pid' (PDE_ADDR va') = PDirPool s pid' (PDE_ADDR va')" by (auto simp: dir)
    have d: "user_dir pid' (PDE_ADDR va')" using a by (simp add: user_dir_def user_va_pde)
    from inv d show ?thesis
    proof (rule vm_inv_cases)
      assume "PDirPool s pid' (PDE_ADDR va') = 0"
      then show ?thesis by (simp add: lookup_def e)
    next
      fix g assume g: "g < 2 ^ 20" "PDirPool s pid' (PDE_ADDR va') = pde_of g"
      then have "g \<noteq> f" using fresh [OF d] by auto
      moreover have "phys_mem t = m" by (simp add: t)
      ultimately show ?thesis using g m e by (simp add: lookup_pde_of [where f = g] filled_def)
    qed
  qed
  ultimately show ?thesis by (simp add: dir)
qed

section \<open>Properties\<close>

lemma returns_set_ptbl_entry_by_va:
  "pid < NUM_IDS \<Longrightarrow> PDirPool u pid (PDE_ADDR va) = pde_of f \<Longrightarrow>
   returns (set_ptbl_entry_by_va pid va pg prm) u Q =
     Q () (u\<lparr>phys_mem := store32 (slot f (PTE_ADDR va)) (push_bit 12 pg OR prm) (phys_mem u)\<rparr>)"
  by (simp add: set_ptbl_entry_by_va_def set_ptbl_entry_def ptbl_slot_def get_pdir_entry_def
      kstore32_def kwp ADDR_MASK_pde_of)

lemma of_nat_page:
  "f < VM_USERHI_PI \<Longrightarrow> VM_USERLO_PI \<le> f \<Longrightarrow> (of_nat f :: u32) \<noteq> 0 \<and> (of_nat f :: u32) \<noteq> MagicNumber"
proof -
  assume "f < VM_USERHI_PI" and "VM_USERLO_PI \<le> f"
  then have "f < 0xF0000" "0x40000 \<le> f" by (simp_all add: kconst)
  then have "unat (of_nat f :: u32) = f" by (simp add: unat_of_nat)
  moreover have "unat MagicNumber = 1048577" by (simp add: kconst)
  ultimately show ?thesis using \<open>f < 0xF0000\<close> \<open>0x40000 \<le> f\<close> by force
qed

lemma drop_pde_of: "f < VM_USERHI_PI \<Longrightarrow> drop_bit 12 (pde_of f) = of_nat f"
  using unat_drop_pde_of [of f]
  by (simp add: kconst word_unat_eq_iff unat_of_nat)

lemma new_ptbl_charged:
  assumes "cont_inv s" and "pid \<in> live s" and "usage_of s pid < quota_of s pid"
    and "avail (AT s) f" and "VM_USERLO_PI \<le> f" and "f < VM_USERHI_PI" and "new_ptbl pid va f s t"
  shows "charged pid {f} s t"
proof -
  obtain u m where took: "took_page pid f s u"
    and t: "t = u\<lparr>PDirPool := (PDirPool s)(pid := (PDirPool s pid)(PDE_ADDR va := pde_of f)), phys_mem := m\<rparr>"
    using assms(7) unfolding new_ptbl_def by blast
  from took_page_inv [OF assms(1-6) took] show ?thesis by (simp add: charged_def t)
qed

text \<open>\<^verbatim>\<open>map_page\<close> charges the process for the page table it allocates, and for nothing else.\<close>

definition tables_needed :: "nat \<Rightarrow> u32 \<Rightarrow> 'z vmm_scheme \<Rightarrow> nat" where
  "tables_needed pid va s = (if PDirPool s pid (PDE_ADDR va) = 0 then 1 else 0)"

lemma returns_map_page_charged:
  assumes inv: "vm_inv s" and pid: "0 < pid" "pid \<in> live s" and va: "user_va va"
    and q: "PDirPool s pid (PDE_ADDR va) \<noteq> 0 \<or> usage_of s pid < quota_of s pid"
  shows "returns (map_page pid va pg prm) s (\<lambda>r t. r \<noteq> MagicNumber \<and> vm_inv t \<and>
    remapped pid va (push_bit 12 pg OR prm) s t \<and> (\<exists>P. finite P \<and> card P = tables_needed pid va s \<and> charged pid P s t))"
proof (cases "PDirPool s pid (PDE_ADDR va) = 0")
  case False
  have n: "pid < NUM_IDS" using pid(2) by (simp add: live_def)
  have "user_dir pid (PDE_ADDR va)" using n pid va by (simp add: user_dir_def user_va_pde)
  with inv False obtain f where f: "f \<in> held_pages s" "f < 2 ^ 20" "PDirPool s pid (PDE_ADDR va) = pde_of f"
    by (metis vm_inv_cases)
  have "f < VM_USERHI_PI" "VM_USERLO_PI \<le> f" using f(1) by (simp_all add: held_pages_def norm_pages_def)
  then have "drop_bit 12 (pde_of f) \<noteq> MagicNumber" using of_nat_page drop_pde_of by simp
  then show ?thesis
    using False n inv store_entry_remapped [OF inv pid(1) n va f(3,2)] f(3)
    by (auto simp: tables_needed_def intro!: exI [of _ "{}"] simp: map_page_def get_pdir_entry_by_va_def get_pdir_entry_def Let_def kwp
        returns_set_ptbl_entry_by_va)
next
  case True
  with q have q: "usage_of s pid < quota_of s pid" by simp
  have n: "pid < NUM_IDS" using pid(2) by (simp add: live_def)
  have ci: "cont_inv s" using inv by (simp add: vm_inv_def)
  have "returns (alloc_ptbl pid va) s (\<lambda>r t. returns (if r = 0 then kret MagicNumber
        else kthen (set_ptbl_entry_by_va pid va pg prm) (kret r)) t
      (\<lambda>r t. r \<noteq> MagicNumber \<and> vm_inv t \<and> remapped pid va (push_bit 12 pg OR prm) s t \<and>
        (\<exists>P. finite P \<and> card P = tables_needed pid va s \<and> charged pid P s t)))"
  proof (rule returns_mono [OF returns_alloc_ptbl [OF ci pid(2) q]])
    fix r :: u32 and t assume "\<exists>f. r = of_nat f \<and> avail (AT s) f \<and> VM_USERLO_PI \<le> f \<and> f < VM_USERHI_PI \<and> new_ptbl pid va f s t"
    then obtain f where r: "r = of_nat f" and f: "avail (AT s) f" "VM_USERLO_PI \<le> f" "f < VM_USERHI_PI"
      and t: "new_ptbl pid va f s t" by blast
    from new_ptbl_inv [OF inv pid q va True f t] have it: "vm_inv t"
      and d: "PDirPool t pid (PDE_ADDR va) = pde_of f"
      and same: "\<forall>pid' va'. 0 < pid' \<and> pid' < NUM_IDS \<and> user_va va' \<longrightarrow> lookup t pid' va' = lookup s pid' va'"
      by blast+
    have "f < 2 ^ 20" using f(3) by (simp add: kconst)
    from store_entry_remapped [OF it pid(1) n va d this, of "push_bit 12 pg OR prm"] same
    have "remapped pid va (push_bit 12 pg OR prm) s
        (t\<lparr>phys_mem := store32 (slot f (PTE_ADDR va)) (push_bit 12 pg OR prm) (phys_mem t)\<rparr>)"
      unfolding remapped_def by simp
    moreover have "\<exists>P. finite P \<and> card P = tables_needed pid va s \<and> charged pid P s t"
      using new_ptbl_charged [OF ci pid(2) q f t] True by (intro exI [of _ "{f}"]) (simp add: tables_needed_def)
    ultimately show "returns (if r = 0 then kret MagicNumber
        else kthen (set_ptbl_entry_by_va pid va pg prm) (kret r)) t
      (\<lambda>r t. r \<noteq> MagicNumber \<and> vm_inv t \<and> remapped pid va (push_bit 12 pg OR prm) s t \<and>
        (\<exists>P. finite P \<and> card P = tables_needed pid va s \<and> charged pid P s t))"
      using it d n of_nat_page [OF f(3,2)] by (simp add: r kwp returns_set_ptbl_entry_by_va)
  qed
  with True n show ?thesis
    by (simp add: map_page_def get_pdir_entry_by_va_def get_pdir_entry_def Let_def kwp)
qed

lemma returns_map_page:
  assumes "vm_inv s" and "0 < pid" and "pid \<in> live s" and "user_va va"
    and "PDirPool s pid (PDE_ADDR va) \<noteq> 0 \<or> usage_of s pid < quota_of s pid"
  shows "returns (map_page pid va pg prm) s (\<lambda>r t. r \<noteq> MagicNumber \<and> vm_inv t \<and>
    remapped pid va (push_bit 12 pg OR prm) s t)"
  by (rule returns_mono [OF returns_map_page_charged [OF assms]]) simp

lemma returns_unmap_page:
  assumes inv: "vm_inv s" and pid: "0 < pid" "pid < NUM_IDS" and va: "user_va va"
  shows "returns (unmap_page pid va) s (\<lambda>r t. r = lookup s pid va \<and> vm_inv t \<and> remapped pid va 0 s t)"
proof (cases "lookup s pid va = 0")
  case True
  then have "remapped pid va 0 s s"
    using same_page by (auto simp: remapped_def same_entry_def lookup_def) metis+
  with True inv pid show ?thesis by (simp add: unmap_page_def kwp)
next
  case False
  then have nz: "PDirPool s pid (PDE_ADDR va) \<noteq> 0" by (auto simp: lookup_def)
  have "user_dir pid (PDE_ADDR va)" using pid va by (simp add: user_dir_def user_va_pde)
  with inv nz obtain f where f: "f < 2 ^ 20" "PDirPool s pid (PDE_ADDR va) = pde_of f"
    by (metis vm_inv_cases)
  with False inv pid nz show ?thesis
    using store_entry_remapped [OF inv pid va f(2,1), of 0]
    by (simp add: unmap_page_def rmv_ptbl_entry_by_va_def get_pdir_entry_def kwp Let_def
        returns_rmv_ptbl_entry [where f = f])
qed

lemma took_page_vm_inv:
  assumes "vm_inv s" and "pid \<in> live s" and "usage_of s pid < quota_of s pid"
    and "avail (AT s) p" and "VM_USERLO_PI \<le> p" and "p < VM_USERHI_PI" and "took_page pid p s t"
  shows "vm_inv t \<and> live t = live s \<and> quota_of t = quota_of s \<and> usage_of t pid = usage_of s pid + 1 \<and>
    p \<in> norm_pages s \<and> p \<notin> held_pages s \<and> held_pages t = insert p (held_pages s) \<and> charged pid {p} s t \<and>
    PDirPool t = PDirPool s \<and> phys_mem t = phys_mem s"
proof -
  have ci: "cont_inv s" using assms(1) by (simp add: vm_inv_def)
  have sel: "PDirPool t = PDirPool s" "phys_mem t = phys_mem s" "live t = live s" "quota_of t = quota_of s"
    using assms(7) by (auto simp: took_page_def live_def quota_of_def fun_eq_iff split: if_splits)
  note t = took_page_inv [OF ci assms(2-7)]
  have "vm_inv t"
    using assms(1) t sel unfolding vm_inv_def by (metis insertCI)
  moreover have "p \<in> norm_pages s" using assms(4-6) by (simp add: norm_pages_def avail_def)
  ultimately show ?thesis using t sel by (simp add: charged_def)
qed

lemma lookup_cong:
  "PDirPool t = PDirPool s \<Longrightarrow> phys_mem t = phys_mem s \<Longrightarrow> lookup t = lookup s"
  by (intro ext) (simp add: lookup_def)

lemma remapped_cong: "lookup t = lookup s \<Longrightarrow> remapped pid va v t u = remapped pid va v s u"
  by (simp add: remapped_def)

text \<open>
  C28: \<^verbatim>\<open>map_page\<close> makes the translation of the page of \<open>va\<close> the given physical page and
  permissions and changes no other translation of any process, whether the page table exists
  or is allocated on the way; the page tables stay disjoint pages of the allocator.
\<close>

theorem map_page_correct:
  assumes "vm_inv s" and "0 < pid" and "pid \<in> live s" and "user_va va"
    and "PDirPool s pid (PDE_ADDR va) \<noteq> 0 \<or> usage_of s pid < quota_of s pid"
  shows "returns (map_page pid va pg prm) s (\<lambda>r t. r \<noteq> MagicNumber \<and> vm_inv t \<and>
    remapped pid va (push_bit 12 pg OR prm) s t)"
  by (rule returns_map_page [OF assms])

text \<open>
  C29: \<^verbatim>\<open>unmap_page\<close> returns the entry of the page of \<open>va\<close> and removes it, and changes no other
  translation.
\<close>

theorem unmap_page_correct:
  assumes "vm_inv s" and "0 < pid" and "pid < NUM_IDS" and "user_va va"
  shows "returns (unmap_page pid va) s (\<lambda>r t. r = lookup s pid va \<and> vm_inv t \<and> remapped pid va 0 s t)"
  by (rule returns_unmap_page [OF assms])

text \<open>
  C30: \<^verbatim>\<open>alloc_page\<close>, the handler of page faults, maps the page of \<open>va\<close> to a physical page that
  no container held before, if the quota covers the page and a page table where one is
  missing; every other translation stays. Afterwards that page is held, and the process is charged for it
  and for the new page table, if there is one: these are the pages held in addition, the usage of
  the process grows by their number, and that of no other process changes.
\<close>

theorem alloc_page_fresh:
  assumes "vm_inv s" and "0 < pid" and "pid \<in> live s" and "user_va va"
    and "usage_of s pid < quota_of s pid"
    and "PDirPool s pid (PDE_ADDR va) \<noteq> 0 \<or> usage_of s pid + 1 < quota_of s pid"
  shows "returns (alloc_page pid va prm) s (\<lambda>r t. r \<noteq> MagicNumber \<and> vm_inv t \<and>
    (\<exists>p P. p \<in> norm_pages s \<and> p \<notin> held_pages s \<and> remapped pid va (push_bit 12 (of_nat p) OR prm) s t \<and>
       p \<in> P \<and> card P = 1 + tables_needed pid va s \<and> held_pages t = P \<union> held_pages s \<and> P \<inter> held_pages s = {} \<and>
       usage_of t = (usage_of s)(pid := usage_of s pid + card P)))"
  unfolding alloc_page_def returns_kbind
proof (rule returns_mono [OF returns_container_alloc])
  show "cont_inv s" using assms(1) by (simp add: vm_inv_def)
  fix p u assume u: "avail (AT s) p \<and> VM_USERLO_PI \<le> p \<and> p < VM_USERHI_PI \<and> took_page pid p s u"
  then have "p \<noteq> 0" by (auto simp: kconst)
  from u took_page_vm_inv [OF assms(1,3,5)] have v: "vm_inv u" "live u = live s" "quota_of u = quota_of s"
    "usage_of u pid = usage_of s pid + 1" "p \<in> norm_pages s" "p \<notin> held_pages s"
    "PDirPool u = PDirPool s" "phys_mem u = phys_mem s" "charged pid {p} s u" by blast+
  have tn: "tables_needed pid va u = tables_needed pid va s" using v(7) by (simp add: tables_needed_def)
  have "returns (map_page pid va (of_nat p) prm) u (\<lambda>r t. r \<noteq> MagicNumber \<and> vm_inv t \<and>
      (\<exists>p P. p \<in> norm_pages s \<and> p \<notin> held_pages s \<and> remapped pid va (push_bit 12 (of_nat p) OR prm) s t \<and>
         p \<in> P \<and> card P = 1 + tables_needed pid va s \<and> held_pages t = P \<union> held_pages s \<and> P \<inter> held_pages s = {} \<and>
         usage_of t = (usage_of s)(pid := usage_of s pid + card P)))"
  proof (rule returns_mono [OF returns_map_page_charged], goal_cases)
    case (6 r t)
    then obtain P where P: "finite P" "card P = tables_needed pid va s" "charged pid P u t" using tn by auto
    with charged_trans [OF v(9) P(3)] 6 v(5,6) remapped_cong [OF lookup_cong [OF v(7,8)]] show ?case
      by (intro conjI exI [of _ p] exI [of _ "P \<union> {p}"]) (auto simp: charged_def)
  qed (use v assms in auto)
  with \<open>p \<noteq> 0\<close> show "returns (if p \<noteq> 0 then map_page pid va (of_nat p) prm else kret MagicNumber) u
    (\<lambda>r t. r \<noteq> MagicNumber \<and> vm_inv t \<and>
      (\<exists>p P. p \<in> norm_pages s \<and> p \<notin> held_pages s \<and> remapped pid va (push_bit 12 (of_nat p) OR prm) s t \<and>
         p \<in> P \<and> card P = 1 + tables_needed pid va s \<and> held_pages t = P \<union> held_pages s \<and> P \<inter> held_pages s = {} \<and>
         usage_of t = (usage_of s)(pid := usage_of s pid + card P)))"
    by simp
qed (use assms in simp_all)

text \<open>
  C31: when the quota covers one page only and the page table of \<open>va\<close> is missing, \<^verbatim>\<open>alloc_page\<close>
  fails, maps nothing, and leaves a page charged to the process that no page table maps.
\<close>

theorem alloc_page_leak:
  assumes "vm_inv s" and "pid \<in> live s" and "usage_of s pid + 1 = quota_of s pid"
    and "PDirPool s pid (PDE_ADDR va) = 0"
  shows "returns (alloc_page pid va prm) s (\<lambda>r t. r = MagicNumber \<and> lookup t = lookup s \<and>
    usage_of t pid = quota_of t pid \<and>
    (\<exists>p. p \<notin> held_pages s \<and> held_pages t = insert p (held_pages s)))"
  unfolding alloc_page_def returns_kbind
proof (rule returns_mono [OF returns_container_alloc])
  show "cont_inv s" using assms(1) by (simp add: vm_inv_def)
  show "usage_of s pid < quota_of s pid" using assms(3) by simp
  fix p u assume u: "avail (AT s) p \<and> VM_USERLO_PI \<le> p \<and> p < VM_USERHI_PI \<and> took_page pid p s u"
  then have "p \<noteq> 0" by (auto simp: kconst)
  have "usage_of s pid < quota_of s pid" using assms(3) by simp
  from u took_page_vm_inv [OF assms(1,2) this] have v: "vm_inv u" "live u = live s" "quota_of u = quota_of s"
    "usage_of u pid = usage_of s pid + 1" "p \<notin> held_pages s" "held_pages u = insert p (held_pages s)"
    "PDirPool u = PDirPool s" "phys_mem u = phys_mem s" by blast+
  have full: "usage_of u pid = quota_of u pid" and pid: "pid < NUM_IDS"
    using v(3,4) assms(2,3) by (simp_all add: live_def)
  have "returns (container_alloc pid) u (\<lambda>p t. p = 0 \<and> t = u)"
    using v(1,2) assms(2) full by (intro returns_container_alloc_full) (simp_all add: vm_inv_def)
  then have "returns (map_page pid va (of_nat p) prm) u (\<lambda>r t. r = MagicNumber \<and> t = u)"
    using pid assms(4) v(7)
    by (auto simp: map_page_def alloc_ptbl_def get_pdir_entry_by_va_def get_pdir_entry_def Let_def kwp
        elim!: returns_mono)
  with v(5,6) \<open>p \<noteq> 0\<close> full lookup_cong [OF v(7,8)]
  show "returns (if p \<noteq> 0 then map_page pid va (of_nat p) prm else kret MagicNumber) u
    (\<lambda>r t. r = MagicNumber \<and> lookup t = lookup s \<and> usage_of t pid = quota_of t pid \<and>
      (\<exists>p. p \<notin> held_pages s \<and> held_pages t = insert p (held_pages s)))"
    by (auto elim!: returns_mono)
qed (use assms in simp_all)

section \<open>A concrete state\<close>

text \<open>Three free pages; the root gave a quota of \<open>q\<close> pages to process 1, which uses none.\<close>

definition vm_ex :: "u32 \<Rightarrow> vmm" where
  "vm_ex q = cont.extend
     (cont_start\<lparr>NUM_PAGES := 0x40004,
        AT := (\<lambda>i. \<lparr>perm = if i \<in> {0x40001, 0x40002, 0x40003} then 2 else 0, allocated = 0\<rparr>),
        CONTAINER := (\<lambda>i. if i = 0 then \<lparr>quota = 3, usage = q, parent = 0, nchildren = 1, used = 1\<rparr>
          else if i = 1 then \<lparr>quota = q, usage = 0, parent = 0, nchildren = 0, used = 1\<rparr>
          else \<lparr>quota = 0, usage = 0, parent = 0, nchildren = 0, used = 0\<rparr>)\<rparr>)
     \<lparr>phys_mem = (\<lambda>_. 0), IDPTbl_base = 0x100000, PDirPool = (\<lambda>_ _. 0), cr0 = 0, cr3 = 0, cr4 = 0\<rparr>"

lemmas vm_ex_defs = vm_ex_def cont_start_def pmm_start_def boot_state_def cont.defs pmm.defs mboot.defs

lemma vm_ex_simps:
  "live (vm_ex q) = {0, Suc 0}" "usage_of (vm_ex q) (Suc 0) = 0" "usage_of (vm_ex q) 0 = unat q"
  "quota_of (vm_ex q) (Suc 0) = unat q" "quota_of (vm_ex q) 0 = 3"
  "norm_pages (vm_ex q) = {0x40001, 0x40002, 0x40003}" "held_pages (vm_ex q) = {}"
  "PDirPool (vm_ex q) pid pde = 0" "user_va 0x40001000"
proof -
  show "live (vm_ex q) = {0, Suc 0}" by (auto simp: live_def vm_ex_defs kconst)
  show "norm_pages (vm_ex q) = {0x40001, 0x40002, 0x40003}"
    by (auto simp: norm_pages_def vm_ex_defs kconst split: if_splits)
  show "held_pages (vm_ex q) = {}" by (auto simp: held_pages_def vm_ex_defs)
qed (simp_all add: usage_of_def quota_of_def vm_ex_defs user_va_def kconst)

lemma vm_ex_inv: "unat q \<le> 3 \<Longrightarrow> vm_inv (vm_ex q)"
proof -
  assume q: "unat q \<le> 3"
  have "pmm_ok (vm_ex q)" "\<forall>i. lock_free (vm_ex q) (ContainerLk i)"
    by (simp_all add: pmm_ok_def vm_ex_defs lock_free_def kstack_ok_def kconst)
  with q have "cont_inv (vm_ex q)"
    by (simp add: cont_inv_def vm_ex_simps AT_SIZE_def)
  then show ?thesis unfolding vm_inv_def by (simp add: vm_ex_simps)
qed

theorem map_page_correct_witness:
  "returns (map_page 1 0x40001000 0x50000 7) (vm_ex 3) (\<lambda>r t. r \<noteq> MagicNumber \<and> vm_inv t \<and>
    remapped 1 0x40001000 (push_bit 12 0x50000 OR 7) (vm_ex 3) t)"
  by (rule map_page_correct) (simp_all add: vm_ex_inv vm_ex_simps)

theorem unmap_page_correct_witness:
  "returns (unmap_page 1 0x40001000) (vm_ex 3)
    (\<lambda>r t. r = lookup (vm_ex 3) 1 0x40001000 \<and> vm_inv t \<and> remapped 1 0x40001000 0 (vm_ex 3) t)"
  by (rule unmap_page_correct) (simp_all add: vm_ex_inv vm_ex_simps kconst)

theorem alloc_page_fresh_witness:
  "returns (alloc_page 1 0x40001000 7) (vm_ex 3) (\<lambda>r t. r \<noteq> MagicNumber \<and> vm_inv t \<and>
    (\<exists>p P. p \<in> norm_pages (vm_ex 3) \<and> p \<notin> held_pages (vm_ex 3) \<and>
       remapped 1 0x40001000 (push_bit 12 (of_nat p) OR 7) (vm_ex 3) t \<and>
       p \<in> P \<and> card P = 1 + tables_needed 1 0x40001000 (vm_ex 3) \<and> held_pages t = P \<union> held_pages (vm_ex 3) \<and>
       P \<inter> held_pages (vm_ex 3) = {} \<and> usage_of t = (usage_of (vm_ex 3))(1 := usage_of (vm_ex 3) 1 + card P)))"
  by (rule alloc_page_fresh) (simp_all add: vm_ex_inv vm_ex_simps)

theorem alloc_page_leak_witness:
  "returns (alloc_page 1 0x40001000 7) (vm_ex 1) (\<lambda>r t. r = MagicNumber \<and> lookup t = lookup (vm_ex 1) \<and>
    usage_of t 1 = quota_of t 1 \<and>
    (\<exists>p. p \<notin> held_pages (vm_ex 1) \<and> held_pages t = insert p (held_pages (vm_ex 1))))"
  by (rule alloc_page_leak) (simp_all add: vm_ex_inv vm_ex_simps)

section \<open>The kernel map\<close>

definition kern_perm :: "nat \<Rightarrow> u32" where
  "kern_perm pde = (if pde < VM_USERLO_PDE \<or> VM_USERHI_PDE \<le> pde then PTE_P OR PTE_W OR PTE_G
     else PTE_P OR PTE_W)"

definition idpte :: "nat \<Rightarrow> nat \<Rightarrow> u32" where
  "idpte pde k = (push_bit 22 (of_nat pde) OR push_bit 12 (of_nat k)) OR kern_perm pde"

lemma IDPTbl_slot:
  "IDPTbl_base s = of_nat (b * 4096) \<Longrightarrow> IDPTbl s pde + 4 * of_nat k = slot (b + pde) k"
  by (simp add: IDPTbl_def slot_def algebra_simps)

lemma IDPTbl_pde_of:
  "IDPTbl_base s = of_nat (b * 4096) \<Longrightarrow> IDPTbl s pde OR PT_PERM_PTU = pde_of (b + pde)"
  by (simp only: IDPTbl_def pde_of_def push_of_nat) (simp add: algebra_simps)

lemma returns_idptbl_loop:
  assumes "IDPTbl_base u = of_nat (b * 4096)" and "b + 1024 \<le> 2 ^ 20"
  shows "returns (kfor 0 1024 (\<lambda>pde_index.
      let prm = (if pde_index < VM_USERLO_PDE \<or> VM_USERHI_PDE \<le> pde_index
                     then PTE_P OR PTE_W OR PTE_G else PTE_P OR PTE_W)
      in kfor 0 1024 (\<lambda>pte_index. set_ptbl_entry_identity pde_index pte_index prm))) u
    (\<lambda>_ t. \<exists>m. t = u\<lparr>phys_mem := m\<rparr> \<and> (\<forall>p < 1024. \<forall>k < 1024. load32 (slot (b + p) k) m = idpte p k))"
proof (rule returns_kfor [where I = "\<lambda>n t. \<exists>m. t = u\<lparr>phys_mem := m\<rparr> \<and>
      (\<forall>p < n. \<forall>k < 1024. load32 (slot (b + p) k) m = idpte p k)"])
  show "\<exists>m. u = u\<lparr>phys_mem := m\<rparr> \<and> (\<forall>p < 0. \<forall>k < 1024. load32 (slot (b + p) k) m = idpte p k)"
    by (rule exI [of _ "phys_mem u"]) simp
  fix j t assume j: "j < 1024" and "\<exists>m. t = u\<lparr>phys_mem := m\<rparr> \<and>
      (\<forall>p < j. \<forall>k < 1024. load32 (slot (b + p) k) m = idpte p k)"
  then obtain m where t: "t = u\<lparr>phys_mem := m\<rparr>"
    and m: "\<forall>p < j. \<forall>k < 1024. load32 (slot (b + p) k) m = idpte p k" by blast
  have base: "IDPTbl_base t = of_nat (b * 4096)" using assms(1) by (simp add: t)
  have bj: "b + j < 2 ^ 20" using assms(2) j by simp
  have "returns (kfor 0 1024 (\<lambda>k. set_ptbl_entry_identity j k (kern_perm j))) t
      (\<lambda>_ v. \<exists>m'. v = t\<lparr>phys_mem := m'\<rparr> \<and> filled (b + j) 1024 (idpte j) (phys_mem t) m')"
    using j bj base
    by (intro returns_fill_table)
       (simp_all add: set_ptbl_entry_identity_def kstore32_def kwp Let_def idpte_def IDPTbl_slot [where b = b])
  then show "returns (let prm = (if j < VM_USERLO_PDE \<or> VM_USERHI_PDE \<le> j
                     then PTE_P OR PTE_W OR PTE_G else PTE_P OR PTE_W)
      in kfor 0 1024 (\<lambda>pte_index. set_ptbl_entry_identity j pte_index prm)) t
     (\<lambda>_ t. \<exists>m. t = u\<lparr>phys_mem := m\<rparr> \<and> (\<forall>p < Suc j. \<forall>k < 1024. load32 (slot (b + p) k) m = idpte p k))"
    unfolding Let_def kern_perm_def [symmetric]
  proof (rule returns_mono)
    fix v assume "\<exists>m'. v = t\<lparr>phys_mem := m'\<rparr> \<and> filled (b + j) 1024 (idpte j) (phys_mem t) m'"
    then obtain m' where v: "v = t\<lparr>phys_mem := m'\<rparr>" and m': "filled (b + j) 1024 (idpte j) m m'"
      by (auto simp: t)
    have "load32 (slot (b + p) k) m' = idpte p k" if "p < Suc j" "k < 1024" for p k
      using m m' that bj by (cases "p = j") (auto simp: filled_def)
    then show "\<exists>m. v = u\<lparr>phys_mem := m\<rparr> \<and> (\<forall>p < Suc j. \<forall>k < 1024. load32 (slot (b + p) k) m = idpte p k)"
      by (intro exI [of _ m']) (simp add: v t)
  qed
qed simp

definition init_dir :: "nat \<Rightarrow> nat \<Rightarrow> u32" where
  "init_dir b pde = (if pde < VM_USERLO_PDE \<or> VM_USERHI_PDE \<le> pde then pde_of (b + pde) else 0)"

lemma returns_put_pdir_entry [kwp]:
  "returns (put_pdir_entry pid pde v) s Q = (pid < NUM_IDS \<and> pde < 1024 \<and>
     Q () (s\<lparr>PDirPool := (PDirPool s)(pid := (PDirPool s pid)(pde := v))\<rparr>))"
  by (simp add: put_pdir_entry_def kwp)

lemma returns_pdir_row:
  assumes "IDPTbl_base u = of_nat (b * 4096)" and "pid < NUM_IDS"
  shows "returns (kfor 0 1024 (\<lambda>pde_index.
            if pde_index < VM_USERLO_PDE \<or> VM_USERHI_PDE \<le> pde_index
            then set_pdir_entry_identity pid pde_index else rmv_pdir_entry pid pde_index)) u
    (\<lambda>_ t. \<exists>d. t = u\<lparr>PDirPool := (PDirPool u)(pid := d)\<rparr> \<and> (\<forall>p < 1024. d p = init_dir b p))"
proof (rule returns_kfor [where I = "\<lambda>n t. \<exists>d. t = u\<lparr>PDirPool := (PDirPool u)(pid := d)\<rparr> \<and>
      (\<forall>p < n. d p = init_dir b p)"])
  show "\<exists>d. u = u\<lparr>PDirPool := (PDirPool u)(pid := d)\<rparr> \<and> (\<forall>p < 0. d p = init_dir b p)"
    by (rule exI [of _ "PDirPool u pid"]) simp
  fix j t assume j: "j < 1024" and "\<exists>d. t = u\<lparr>PDirPool := (PDirPool u)(pid := d)\<rparr> \<and> (\<forall>p < j. d p = init_dir b p)"
  then obtain d where t: "t = u\<lparr>PDirPool := (PDirPool u)(pid := d)\<rparr>" and d: "\<forall>p < j. d p = init_dir b p" by blast
  have base: "IDPTbl_base t = of_nat (b * 4096)" using assms(1) by (simp add: t)
  have "returns (if j < VM_USERLO_PDE \<or> VM_USERHI_PDE \<le> j then set_pdir_entry_identity pid j
       else rmv_pdir_entry pid j) t (\<lambda>_ v. v = u\<lparr>PDirPool := (PDirPool u)(pid := d(j := init_dir b j))\<rparr>)"
    using assms(2) j IDPTbl_pde_of [OF base, of j]
    by (simp add: set_pdir_entry_identity_def rmv_pdir_entry_def kwp init_dir_def) (simp add: t)
  then show "returns (if j < VM_USERLO_PDE \<or> VM_USERHI_PDE \<le> j then set_pdir_entry_identity pid j
       else rmv_pdir_entry pid j) t (\<lambda>_ t. \<exists>d. t = u\<lparr>PDirPool := (PDirPool u)(pid := d)\<rparr> \<and>
         (\<forall>p < Suc j. d p = init_dir b p))"
    by (rule returns_mono) (use d in \<open>auto intro!: exI [of _ "d(j := init_dir b j)"]\<close>)
qed simp

lemma returns_pdir_loop:
  assumes "IDPTbl_base u = of_nat (b * 4096)"
  shows "returns (kfor 0 NUM_IDS (\<lambda>proc_index. kfor 0 1024 (\<lambda>pde_index.
            if pde_index < VM_USERLO_PDE \<or> VM_USERHI_PDE \<le> pde_index
            then set_pdir_entry_identity proc_index pde_index else rmv_pdir_entry proc_index pde_index))) u
    (\<lambda>_ t. \<exists>d. t = u\<lparr>PDirPool := d\<rparr> \<and> (\<forall>q < NUM_IDS. \<forall>p < 1024. d q p = init_dir b p))"
proof (rule returns_kfor [where I = "\<lambda>n t. \<exists>d. t = u\<lparr>PDirPool := d\<rparr> \<and>
      (\<forall>q < n. \<forall>p < 1024. d q p = init_dir b p)"])
  show "\<exists>d. u = u\<lparr>PDirPool := d\<rparr> \<and> (\<forall>q < 0. \<forall>p < 1024. d q p = init_dir b p)"
    by (rule exI [of _ "PDirPool u"]) simp
  fix j t assume j: "j < NUM_IDS" and "\<exists>d. t = u\<lparr>PDirPool := d\<rparr> \<and> (\<forall>q < j. \<forall>p < 1024. d q p = init_dir b p)"
  then obtain d where t: "t = u\<lparr>PDirPool := d\<rparr>" and d: "\<forall>q < j. \<forall>p < 1024. d q p = init_dir b p" by blast
  have "IDPTbl_base t = of_nat (b * 4096)" using assms by (simp add: t)
  from returns_pdir_row [OF this j]
  show "returns (kfor 0 1024 (\<lambda>pde_index.
            if pde_index < VM_USERLO_PDE \<or> VM_USERHI_PDE \<le> pde_index
            then set_pdir_entry_identity j pde_index else rmv_pdir_entry j pde_index)) t
    (\<lambda>_ t. \<exists>d. t = u\<lparr>PDirPool := d\<rparr> \<and> (\<forall>q < Suc j. \<forall>p < 1024. d q p = init_dir b p))"
  proof (rule returns_mono)
    fix v assume "\<exists>e. v = t\<lparr>PDirPool := (PDirPool t)(j := e)\<rparr> \<and> (\<forall>p < 1024. e p = init_dir b p)"
    then obtain e where "v = u\<lparr>PDirPool := d(j := e)\<rparr>" "\<forall>p < 1024. e p = init_dir b p" by (auto simp: t)
    with d show "\<exists>d. v = u\<lparr>PDirPool := d\<rparr> \<and> (\<forall>q < Suc j. \<forall>p < 1024. d q p = init_dir b p)"
      by (intro exI [of _ "d(j := e)"]) (simp add: less_Suc_eq)
  qed
qed simp

lemma returns_kern_row:
  assumes "IDPTbl_base u = of_nat (b * 4096)" and "\<forall>p < 1024. PDirPool u 0 p = init_dir b p"
  shows "returns (kfor VM_USERLO_PDE VM_USERHI_PDE (\<lambda>pde_index. set_pdir_entry_identity 0 pde_index)) u
    (\<lambda>_ t. \<exists>d. t = u\<lparr>PDirPool := (PDirPool u)(0 := d)\<rparr> \<and> (\<forall>p < 1024. d p = pde_of (b + p)))"
proof -
  let ?P = "\<lambda>n d. \<forall>p < 1024. d p = (if n \<le> p \<and> p < VM_USERHI_PDE then 0 else pde_of (b + p))"
  have "returns (kfor VM_USERLO_PDE VM_USERHI_PDE (\<lambda>pde_index. set_pdir_entry_identity 0 pde_index)) u
    (\<lambda>_ t. \<exists>d. t = u\<lparr>PDirPool := (PDirPool u)(0 := d)\<rparr> \<and> ?P VM_USERHI_PDE d)"
  proof (rule returns_kfor [where I = "\<lambda>n t. \<exists>d. t = u\<lparr>PDirPool := (PDirPool u)(0 := d)\<rparr> \<and> ?P n d"])
    show "\<exists>d. u = u\<lparr>PDirPool := (PDirPool u)(0 := d)\<rparr> \<and> ?P VM_USERLO_PDE d"
      using assms(2) by (intro exI [of _ "PDirPool u 0"]) (simp add: init_dir_def)
    fix j t assume j: "j < VM_USERHI_PDE" "VM_USERLO_PDE \<le> j"
      and "\<exists>d. t = u\<lparr>PDirPool := (PDirPool u)(0 := d)\<rparr> \<and> ?P j d"
    then obtain d where t: "t = u\<lparr>PDirPool := (PDirPool u)(0 := d)\<rparr>" and d: "?P j d" by blast
    have base: "IDPTbl_base t = of_nat (b * 4096)" using assms(1) by (simp add: t)
    have P: "?P (Suc j) (d(j := pde_of (b + j)))" using d j by auto
    have "returns (set_pdir_entry_identity 0 j) t
        (\<lambda>_ v. v = u\<lparr>PDirPool := (PDirPool u)(0 := d(j := pde_of (b + j)))\<rparr>)"
      using j IDPTbl_pde_of [OF base, of j]
      by (simp add: set_pdir_entry_identity_def kwp kconst) (simp add: t)
    then show "returns (set_pdir_entry_identity 0 j) t
        (\<lambda>_ t. \<exists>d. t = u\<lparr>PDirPool := (PDirPool u)(0 := d)\<rparr> \<and> ?P (Suc j) d)"
      by (rule returns_mono) (use P in blast)
  qed (simp add: kconst)
  then show ?thesis by (rule returns_mono) auto
qed

lemma idpte_va: "idpte (PDE_ADDR va) (PTE_ADDR va) = ADDR_MASK va OR kern_perm (PDE_ADDR va)"
proof -
  have m: "(0x3ff :: u32) = mask 10" by (simp add: mask_eq_exp_minus_1)
  have "push_bit 22 (drop_bit 22 va) OR push_bit 12 (drop_bit 12 va AND 0x3ff) = ADDR_MASK va"
    unfolding ADDR_MASK_def page_mask m
  proof (rule bit_word_eqI)
    fix n assume "n < LENGTH(32)"
    then show "bit (push_bit 22 (drop_bit 22 va) OR push_bit 12 (drop_bit 12 va AND mask 10)) n =
        bit (va AND NOT (mask 12)) n"
      by (cases "n < 22") (auto simp: bit_simps)
  qed
  then show ?thesis by (simp add: idpte_def PDE_ADDR_def PTE_ADDR_def)
qed

lemma cont_more_vmm: "cont.more t = cont.more s \<Longrightarrow> IDPTbl_base t = IDPTbl_base s"
  by (cases s; cases t) simp

lemma kern_page_lookup:
  assumes "PDirPool s pid (PDE_ADDR va) = pde_of (b + PDE_ADDR va)"
    and "\<forall>p < 1024. \<forall>k < 1024. load32 (slot (b + p) k) (phys_mem s) = idpte p k"
  shows "lookup s pid va = ADDR_MASK va OR kern_perm (PDE_ADDR va)"
  using assms by (simp add: lookup_pde_of idpte_va)

text \<open>
  C32: \<^verbatim>\<open>paging_init\<close> turns paging on with the page directory of process 0. In every process the
  addresses outside the user range translate to themselves, writable and global; in process 0
  the user range does too, and in every other process it is unmapped.
\<close>

theorem paging_init_identity:
  assumes "(unat len + 23) div 24 \<le> 128" and "pmmap_slots_next_free s = 0"
    and "pmmap_nentries s = 0" and "all_reserved (AT s)" and "\<forall>i. used (CONTAINER s i) = 0"
    and "VM_USERLO_PI \<le> last_palloc_index s" and "last_palloc_index s < VM_USERHI_PI"
    and "kstack_ok s" and "IDPTbl_base s = of_nat (b * 4096)" and "b + 1024 \<le> 2 ^ 20"
  shows "returns (paging_init (pmmap_init mm len)) s (\<lambda>_ t. vm_inv t \<and> cr3 t = 0 \<and> bit (cr0 t) 31 \<and>
    (\<forall>pid < NUM_IDS. \<forall>va. lookup t pid va =
       (if user_va va \<and> pid \<noteq> 0 then 0 else ADDR_MASK va OR kern_perm (PDE_ADDR va))))"
proof -
  have fin: "vm_inv t \<and> cr3 t = 0 \<and> bit (cr0 t) 31 \<and> (\<forall>pid < NUM_IDS. \<forall>va. lookup t pid va =
       (if user_va va \<and> pid \<noteq> 0 then 0 else ADDR_MASK va OR kern_perm (PDE_ADDR va)))"
    if c: "cont_inv u" and m: "\<forall>p < 1024. \<forall>k < 1024. load32 (slot (b + p) k) m = idpte p k"
      and d: "\<forall>q < NUM_IDS. \<forall>p < 1024. d q p = init_dir b p" and e: "\<forall>p < 1024. e p = pde_of (b + p)"
      and t: "t = u\<lparr>phys_mem := m, PDirPool := d(0 := e), cr3 := 0, cr4 := x,
        cr0 := (y OR (CR0_PE OR CR0_PG OR CR0_AM OR CR0_WP OR CR0_NE OR CR0_MP)) AND NOT (CR0_EM OR CR0_TS)\<rparr>"
    for t u :: "'a vmm_scheme" and m d e x y
  proof -
    have dir: "PDirPool t pid p = (if user_pde p \<and> pid \<noteq> 0 then 0 else pde_of (b + p))"
      if "pid < NUM_IDS" "p < 1024" for pid p
      using d e that by (auto simp: t init_dir_def user_pde_def)
    have "lookup t pid va = (if user_va va \<and> pid \<noteq> 0 then 0 else ADDR_MASK va OR kern_perm (PDE_ADDR va))"
      if "pid < NUM_IDS" for pid va
      using dir [OF that, of "PDE_ADDR va"] kern_page_lookup [of t pid va b] m
      by (cases "user_va va \<and> pid \<noteq> 0") (auto simp: t lookup_def user_va_pde)
    moreover have "bit (cr0 t) 31" by (simp add: t bit_simps CR0_PG_def CR0_EM_def CR0_TS_def)
    moreover have "cont_inv t"
    proof -
      have "live t = live u" "usage_of t = usage_of u" "quota_of t = quota_of u" "norm_pages t = norm_pages u"
        "held_pages t = held_pages u"
        by (auto simp: t live_def usage_of_def quota_of_def norm_pages_def held_pages_def fun_eq_iff)
      with c show ?thesis by (simp add: cont_inv_def pmm_ok_def lock_free_def kstack_ok_def) (simp add: t)
    qed
    then have "vm_inv t" using dir unfolding vm_inv_def user_dir_def by (auto simp: user_pde_def kconst)
    ultimately show ?thesis by (simp add: t)
  qed
  have "returns (container_init (pmmap_init mm len)) s (\<lambda>_ t. cont_inv t \<and> IDPTbl_base t = of_nat (b * 4096))"
    by (rule returns_mono [OF returns_container_init [OF assms(1-8)]])
       (use assms(9) cont_more_vmm in \<open>metis\<close>)
  then show ?thesis
    unfolding paging_init_def pdir_init_kern_def pdir_init_def idptbl_init_def returns_kthen
    apply (rule returns_mono)
    apply (elim conjE)
    apply (rule returns_mono [OF returns_idptbl_loop [OF _ assms(10)]], assumption)
    apply (elim exE conjE)
    apply (rule returns_mono [OF returns_pdir_loop [where b = b]], simp)
    apply (elim exE conjE)
    apply (rule returns_mono [OF returns_kern_row [where b = b]], simp, simp add: kconst)
    apply (elim exE conjE)
    apply (simp only: set_pdir_base_def enable_paging_def kwp)
    apply (intro conjI [of "0 < NUM_IDS"])
     apply (simp add: kconst)
    apply (rule fin)
        apply assumption+
    apply simp
    done
qed

definition vm_start :: vmm where
  "vm_start = cont.extend cont_start \<lparr>phys_mem = (\<lambda>_. 0), IDPTbl_base = 0x100000, PDirPool = (\<lambda>_ _. 0),
     cr0 = 0, cr3 = 0, cr4 = 0\<rparr>"

theorem paging_init_identity_witness:
  "returns (paging_init (pmmap_init (\<lambda>i. \<lparr>base_addr_low = 0x40000000, base_addr_high = 0,
      length_low = 0x8000, length_high = 0, mmap_type = MEM_RAM\<rparr>) 24)) vm_start (\<lambda>_ t.
    vm_inv t \<and> cr3 t = 0 \<and> bit (cr0 t) 31 \<and>
    (\<forall>pid < NUM_IDS. \<forall>va. lookup t pid va =
       (if user_va va \<and> pid \<noteq> 0 then 0 else ADDR_MASK va OR kern_perm (PDE_ADDR va))))"
  by (rule paging_init_identity [where b = 256])
     (simp_all add: vm_start_def cont_start_def pmm_start_def boot_state_def mboot.defs pmm.defs cont.defs
        all_reserved_def kconst kstack_ok_def)

end
