(* ===== verification/UserMem.thy ===== *)
theory UserMem
  imports VMM
begin

text \<open>
  Access of the kernel to the memory of a process through its page structure
  (\<^verbatim>\<open>kern/lib/pmap.c\<close>) and the loader of executables (\<^verbatim>\<open>kern/lib/elf.c\<close>).
\<close>

section \<open>\<^verbatim>\<open>pmap.c\<close>\<close>

text \<open>The page table entry of an address, after a page was allocated where none was present.\<close>

definition present_entry :: "nat \<Rightarrow> u32 \<Rightarrow> ('z vmm_scheme, u32) kmon" where
  "present_entry pmap_id uva =
     kbind (get_ptbl_entry_by_va pmap_id uva) (\<lambda>uva_pa.
       if uva_pa AND PTE_P = 0
       then kbind (alloc_page pmap_id uva (PTE_P OR PTE_U OR PTE_W)) (\<lambda>_.
              get_ptbl_entry_by_va pmap_id uva)
       else kret uva_pa)"

definition page_chunk :: "u32 \<Rightarrow> u32 \<Rightarrow> u32" where
  "page_chunk len pa =
     (if len < PAGESIZE - pa mod PAGESIZE then len else PAGESIZE - pa mod PAGESIZE)"

definition kmemcpy :: "u32 \<Rightarrow> u32 \<Rightarrow> u32 \<Rightarrow> ('z vmm_scheme, unit) kmon" where
  "kmemcpy dst src n = kmodify (\<lambda>s. s\<lparr>phys_mem := snd (memcpy dst src n (phys_mem s))\<rparr>)"

definition kmemset :: "u32 \<Rightarrow> u32 \<Rightarrow> u32 \<Rightarrow> ('z vmm_scheme, unit) kmon" where
  "kmemset v c n = kmodify (\<lambda>s. s\<lparr>phys_mem := snd (memset v c n (phys_mem s))\<rparr>)"

lemma page_offset_less: "x mod PAGESIZE < PAGESIZE"
  by (simp add: kconst word_less_nat_alt unat_mod)

lemma page_chunk_bounds:
  assumes "len \<noteq> 0"
  shows "0 < page_chunk len pa" and "page_chunk len pa \<le> len"
    and "unat pa mod 4096 + unat (page_chunk len pa) \<le> 4096"
proof -
  have o: "unat (pa mod PAGESIZE) = unat pa mod 4096" by (simp add: kconst unat_mod)
  have d: "unat (PAGESIZE - pa mod PAGESIZE) = 4096 - unat pa mod 4096"
    using page_offset_less [of pa] by (simp add: unat_sub o order_less_imp_le) (simp add: kconst)
  have lt: "unat pa mod 4096 < 4096" by simp
  show "0 < page_chunk len pa" "page_chunk len pa \<le> len"
    "unat pa mod 4096 + unat (page_chunk len pa) \<le> 4096"
    using assms d lt unfolding page_chunk_def word_less_nat_alt word_le_nat_alt
    by (auto simp: word_neq_0_conv word_less_nat_alt d)
qed

lemma page_chunk_decr: "len \<noteq> 0 \<Longrightarrow> unat (len - page_chunk len pa) < unat len"
  using page_chunk_bounds(1,2) [of len pa] by (simp add: unat_sub word_less_nat_alt word_le_nat_alt)

function pt_copyin_loop :: "nat \<Rightarrow> u32 \<Rightarrow> u32 \<Rightarrow> u32 \<Rightarrow> u32 \<Rightarrow> ('z vmm_scheme, u32) kmon" where
  "pt_copyin_loop pmap_id uva kva len copied =
     (if len = 0 then kret copied
      else
        kbind (present_entry pmap_id uva) (\<lambda>entry.
          let uva_pa = (entry AND 0xfffff000) + uva mod PAGESIZE;
              size = page_chunk len uva_pa
          in kthen (kmemcpy kva uva_pa size)
               (pt_copyin_loop pmap_id (uva + size) (kva + size) (len - size) (copied + size))))"
  by pat_completeness auto
termination
  by (relation "measure (\<lambda>(_, _, _, len, _). unat len)") (auto simp: page_chunk_decr)

declare pt_copyin_loop.simps [simp del]

definition copy_range_ok :: "u32 \<Rightarrow> u32 \<Rightarrow> u32 \<Rightarrow> bool" where
  "copy_range_ok uva kva len =
     ((VM_USERLO \<le> uva \<and> uva + len \<le> VM_USERHI) \<and> \<not> kva + len > VM_USERHI)"

definition pt_copyin :: "nat \<Rightarrow> u32 \<Rightarrow> u32 \<Rightarrow> u32 \<Rightarrow> ('z vmm_scheme, u32) kmon" where
  "pt_copyin pmap_id uva kva len =
     (if \<not> copy_range_ok uva kva len then kret 0 else pt_copyin_loop pmap_id uva kva len 0)"

function pt_copyout_loop :: "u32 \<Rightarrow> nat \<Rightarrow> u32 \<Rightarrow> u32 \<Rightarrow> u32 \<Rightarrow> ('z vmm_scheme, u32) kmon" where
  "pt_copyout_loop kva pmap_id uva len copied =
     (if len = 0 then kret copied
      else
        kbind (present_entry pmap_id uva) (\<lambda>entry.
          let uva_pa = (entry AND 0xfffff000) + uva mod PAGESIZE;
              size = page_chunk len uva_pa
          in kthen (kmemcpy uva_pa kva size)
               (pt_copyout_loop (kva + size) pmap_id (uva + size) (len - size) (copied + size))))"
  by pat_completeness auto
termination
  by (relation "measure (\<lambda>(_, _, _, len, _). unat len)") (auto simp: page_chunk_decr)

declare pt_copyout_loop.simps [simp del]

definition pt_copyout :: "u32 \<Rightarrow> nat \<Rightarrow> u32 \<Rightarrow> u32 \<Rightarrow> ('z vmm_scheme, u32) kmon" where
  "pt_copyout kva pmap_id uva len =
     (if \<not> copy_range_ok uva kva len then kret 0 else pt_copyout_loop kva pmap_id uva len 0)"

function pt_memset_loop :: "nat \<Rightarrow> u32 \<Rightarrow> u32 \<Rightarrow> u32 \<Rightarrow> u32 \<Rightarrow> ('z vmm_scheme, u32) kmon" where
  "pt_memset_loop pmap_id va c len done =
     (if len = 0 then kret done
      else
        kbind (present_entry pmap_id va) (\<lambda>entry.
          let pa = (entry AND 0xfffff000) + va mod PAGESIZE;
              size = page_chunk len pa
          in kthen (kmemset pa c size)
               (pt_memset_loop pmap_id (va + size) c (len - size) (done + size))))"
  by pat_completeness auto
termination
  by (relation "measure (\<lambda>(_, _, _, len, _). unat len)") (auto simp: page_chunk_decr)

declare pt_memset_loop.simps [simp del]

definition pt_memset :: "nat \<Rightarrow> u32 \<Rightarrow> u32 \<Rightarrow> u32 \<Rightarrow> ('z vmm_scheme, u32) kmon" where
  "pt_memset pmap_id va c len = pt_memset_loop pmap_id va c len 0"

section \<open>\<^verbatim>\<open>elf.c\<close>\<close>

definition load16 :: "u32 \<Rightarrow> mem \<Rightarrow> u16" where
  "load16 a m = ucast (m a) OR push_bit 8 (ucast (m (a + 1)))"

record elfhdr =
  e_magic :: u32
  e_entry :: u32
  e_phoff :: u32
  e_shoff :: u32
  e_phnum :: u16
  e_shstrndx :: u16

definition read_elfhdr :: "u32 \<Rightarrow> mem \<Rightarrow> elfhdr" where
  "read_elfhdr a m = \<lparr>e_magic = load32 a m, e_entry = load32 (a + 24) m, e_phoff = load32 (a + 28) m,
     e_shoff = load32 (a + 32) m, e_phnum = load16 (a + 44) m, e_shstrndx = load16 (a + 50) m\<rparr>"

record proghdr =
  p_type :: u32
  p_offset :: u32
  p_va :: u32
  p_filesz :: u32
  p_memsz :: u32
  p_flags :: u32

definition read_proghdr :: "u32 \<Rightarrow> mem \<Rightarrow> proghdr" where
  "read_proghdr a m = \<lparr>p_type = load32 a m, p_offset = load32 (a + 4) m, p_va = load32 (a + 8) m,
     p_filesz = load32 (a + 16) m, p_memsz = load32 (a + 20) m, p_flags = load32 (a + 24) m\<rparr>"

definition ELF_MAGIC :: u32 where "ELF_MAGIC = 0x464C457F"
definition ELF_PROG_LOAD :: u32 where "ELF_PROG_LOAD = 1"
definition ELF_PROG_FLAG_WRITE :: u32 where "ELF_PROG_FLAG_WRITE = 2"
definition ELF_SHT_STRTAB :: u32 where "ELF_SHT_STRTAB = 3"
definition ELF_SHN_UNDEF :: u16 where "ELF_SHN_UNDEF = 0"

text \<open>
  One loadable segment. Both ends of the loop over its pages are multiples of the page size,
  so that the loop makes \<open>(eva - va) / PAGESIZE\<close> rounds.
\<close>

definition load_page :: "u32 \<Rightarrow> u32 \<Rightarrow> u32 \<Rightarrow> u32 \<Rightarrow> u32 \<Rightarrow> nat \<Rightarrow> ('z vmm_scheme, unit) kmon" where
  "load_page fa va zva filesz prm pid =
     kbind (alloc_page pid va prm) (\<lambda>_.
       if va < rounddown zva PAGESIZE then
         kbind (pt_copyout fa pid va PAGESIZE) (\<lambda>_. kret ())
       else if va < zva \<and> filesz \<noteq> 0 then
         kbind (pt_memset pid va 0 PAGESIZE) (\<lambda>_.
         kbind (pt_copyout fa pid va (zva - va)) (\<lambda>_. kret ()))
       else kbind (pt_memset pid va 0 PAGESIZE) (\<lambda>_. kret ()))"

definition load_segment :: "u32 \<Rightarrow> proghdr \<Rightarrow> nat \<Rightarrow> ('z vmm_scheme, unit) kmon" where
  "load_segment eh ph pid =
     (let fa = eh + rounddown (p_offset ph) PAGESIZE;
          va = rounddown (p_va ph) PAGESIZE;
          zva = p_va ph + p_filesz ph;
          eva = roundup (p_va ph + p_memsz ph) PAGESIZE;
          prm = (if p_flags ph AND ELF_PROG_FLAG_WRITE \<noteq> 0 then PTE_U OR PTE_P OR PTE_W else PTE_U OR PTE_P)
      in kfor 0 ((unat eva - unat va) div 4096) (\<lambda>k.
           load_page (fa + of_nat k * PAGESIZE) (va + of_nat k * PAGESIZE) zva (p_filesz ph) prm pid))"

definition elf_load :: "u32 \<Rightarrow> nat \<Rightarrow> ('z vmm_scheme, unit) kmon" where
  "elf_load exe pid =
     kbind (kget (\<lambda>s. read_elfhdr exe (phys_mem s))) (\<lambda>eh.
     kthen (kassert (e_magic eh = ELF_MAGIC) ''eh->e_magic == ELF_MAGIC'')
    (kthen (kassert (e_shstrndx eh \<noteq> ELF_SHN_UNDEF) ''eh->e_shstrndx != ELF_SHN_UNDEF'')
    (kbind (kget (\<lambda>s. load32 (exe + e_shoff eh + 40 * ucast (e_shstrndx eh) + 4) (phys_mem s))) (\<lambda>sh_type.
     kthen (kassert (sh_type = ELF_SHT_STRTAB) ''sh_type == ELF_SHT_STRTAB'')
       (kfor 0 (unat (e_phnum eh)) (\<lambda>i.
          kbind (kget (\<lambda>s. read_proghdr (exe + e_phoff eh + 32 * of_nat i) (phys_mem s))) (\<lambda>ph.
            kwhen (p_type ph = ELF_PROG_LOAD) (load_segment exe ph pid))))))))"

definition elf_entry :: "u32 \<Rightarrow> ('z vmm_scheme, u32) kmon" where
  "elf_entry exe =
     kbind (kget (\<lambda>s. read_elfhdr exe (phys_mem s))) (\<lambda>eh.
       kthen (kassert (e_magic eh = ELF_MAGIC) ''eh->e_magic == ELF_MAGIC'') (kret (e_entry eh)))"

section \<open>What is copied\<close>

text \<open>The physical address of a mapped virtual address.\<close>

definition translate :: "'z vmm_scheme \<Rightarrow> nat \<Rightarrow> u32 \<Rightarrow> u32" where
  "translate s pid va = ADDR_MASK (lookup s pid va) + va mod PAGESIZE"

text \<open>A range of user addresses is mapped to pages of the user range of physical memory.\<close>

definition range_mapped :: "'z vmm_scheme \<Rightarrow> nat \<Rightarrow> u32 \<Rightarrow> u32 \<Rightarrow> bool" where
  "range_mapped s pid uva len =
     (VM_USERLO \<le> uva \<and> unat uva + unat len \<le> unat VM_USERHI \<and>
      (\<forall>i < len. lookup s pid (uva + i) AND PTE_P \<noteq> 0 \<and>
         VM_USERLO \<le> ADDR_MASK (lookup s pid (uva + i)) \<and> ADDR_MASK (lookup s pid (uva + i)) < VM_USERHI))"

text \<open>Memory after the first \<open>n\<close> bytes arrived in the kernel buffer.\<close>

definition received :: "'z vmm_scheme \<Rightarrow> nat \<Rightarrow> u32 \<Rightarrow> u32 \<Rightarrow> u32 \<Rightarrow> mem" where
  "received s pid uva kva n =
     (\<lambda>a. if a - kva < n then phys_mem s (translate s pid (uva + (a - kva))) else phys_mem s a)"

lemma load32_cong:
  "(\<And>i. i < 4 \<Longrightarrow> m (a + of_nat i) = m' (a + of_nat i)) \<Longrightarrow> load32 a m = load32 a m'"
proof -
  assume h: "\<And>i. i < 4 \<Longrightarrow> m (a + of_nat i) = m' (a + of_nat i)"
  show ?thesis using h [of 0] h [of 1] h [of 2] h [of 3] by (simp add: load32_def)
qed

lemma outside_buffer:
  fixes a kva n :: u32
  assumes "unat kva + unat n \<le> 0x40000000" and "0x40000000 \<le> unat a"
  shows "\<not> a - kva < n"
proof -
  have "kva \<le> a" using assms by (simp add: word_le_nat_alt)
  then have "unat (a - kva) = unat a - unat kva" by (rule unat_sub)
  with assms show ?thesis by (simp add: word_less_nat_alt)
qed

lemma received_outside:
  "unat kva + unat n \<le> 0x40000000 \<Longrightarrow> 0x40000000 \<le> unat a \<Longrightarrow> received s pid uva kva n a = phys_mem s a"
  by (simp add: received_def outside_buffer)

lemma lookup_received:
  assumes "vm_inv s" and "0 < pid" and "pid < NUM_IDS" and "user_va va"
    and "unat kva + unat n \<le> 0x40000000"
  shows "lookup (s\<lparr>phys_mem := received s pid' uva kva n\<rparr>) pid va = lookup s pid va"
proof -
  have "user_dir pid (PDE_ADDR va)" using assms by (simp add: user_dir_def user_va_pde)
  with assms(1) show ?thesis
  proof (rule vm_inv_cases)
    assume "PDirPool s pid (PDE_ADDR va) = 0"
    then show ?thesis by (simp add: lookup_def)
  next
    fix f assume f: "f \<in> held_pages s" "f < 2 ^ 20" "PDirPool s pid (PDE_ADDR va) = pde_of f"
    then have lo: "0x40000 \<le> f" by (simp add: held_pages_def norm_pages_def kconst)
    have "load32 (slot f (PTE_ADDR va)) (received s pid' uva kva n) =
        load32 (slot f (PTE_ADDR va)) (phys_mem s)"
    proof (rule load32_cong)
      fix i :: nat assume "i < 4"
      then have "unat (slot f (PTE_ADDR va) + of_nat i) = f * 4096 + 4 * PTE_ADDR va + i"
        using aligned_add [OF slot_aligned [OF f(2) PTE_ADDR_less]] unat_slot [OF f(2) PTE_ADDR_less] by simp
      with lo show "received s pid' uva kva n (slot f (PTE_ADDR va) + of_nat i) =
          phys_mem s (slot f (PTE_ADDR va) + of_nat i)"
        by (intro received_outside [OF assms(5)]) simp
    qed
    with f(3) show ?thesis by (simp add: lookup_pde_of)
  qed
qed

lemma lookup_same_page:
  "unat va div 4096 = unat va' div 4096 \<Longrightarrow> lookup s pid va = lookup s pid va'"
  using same_page [of va va'] by (simp add: lookup_def)

lemma ADDR_MASK_mod: "unat (ADDR_MASK x) mod 4096 = 0"
proof -
  have "take_bit 12 (ADDR_MASK x) = 0"
    unfolding ADDR_MASK_def page_mask by (rule bit_word_eqI) (auto simp: bit_simps)
  then have "take_bit 12 (unat (ADDR_MASK x)) = 0"
    using unsigned_take_bit_eq [where n = 12 and w = "ADDR_MASK x", where ?'a = nat] by simp
  then show ?thesis by (simp add: take_bit_eq_mod)
qed

lemma unat_page_add:
  fixes x y :: u32
  assumes "unat x mod 4096 = 0" and "unat y < 4096"
  shows "unat (x + y) = unat x + unat y"
proof -
  have "unat x < 4294967296" using unsigned_less [of x] by simp
  then have "unat x div 4096 < 1048576" by (simp add: div_less_iff_less_mult)
  moreover have "unat x = 4096 * (unat x div 4096)" using assms(1) by (metis mult_div_mod_eq add.right_neutral)
  ultimately have "unat x + unat y < 4294967296" using assms(2) by linarith
  then show ?thesis by (simp add: unat_word_ariths)
qed

lemma add_in_page:
  fixes x y m :: nat
  assumes "x mod m + y < m"
  shows "(x + y) div m = x div m" and "(x + y) mod m = x mod m + y"
proof -
  have e: "x + y = m * (x div m) + (x mod m + y)" by simp
  show d: "(x + y) div m = x div m"
  proof (rule div_nat_eqI)
    show "m * (x div m) \<le> x + y" using e by linarith
    show "x + y < m * Suc (x div m)" unfolding mult_Suc_right using e assms by linarith
  qed
  show "(x + y) mod m = x mod m + y"
    using e mult_div_mod_eq [of m "x + y", unfolded d] by linarith
qed

lemma translate_chunk:
  assumes "unat va mod 4096 + unat j < 4096"
  shows "translate s pid (va + j) = translate s pid va + j"
    and "unat (translate s pid va) = unat (ADDR_MASK (lookup s pid va)) + unat va mod 4096"
proof -
  have o: "unat (va mod PAGESIZE) = unat va mod 4096" by (simp add: kconst unat_mod)
  show t: "unat (translate s pid va) = unat (ADDR_MASK (lookup s pid va)) + unat va mod 4096"
    unfolding translate_def by (subst unat_page_add [OF ADDR_MASK_mod]) (simp_all add: o)
  have "unat va < 4294967296" using unsigned_less [of va] by simp
  then have q: "unat va div 4096 < 1048576" by (simp add: div_less_iff_less_mult)
  have "unat va + unat j = 4096 * (unat va div 4096) + (unat va mod 4096 + unat j)" by simp
  also have "\<dots> < 4294967296" using q assms by linarith
  finally have s: "unat (va + j) = unat va + unat j" by (simp add: unat_word_ariths)
  have dm: "unat (va + j) div 4096 = unat va div 4096"
    "unat (va + j) mod 4096 = unat va mod 4096 + unat j"
    using add_in_page [OF assms] s by simp_all
  then have "(va + j) mod PAGESIZE = va mod PAGESIZE + j"
    using assms by (simp add: word_unat_eq_iff unat_word_ariths unat_mod kconst)
  with lookup_same_page [OF dm(1), of s pid] show "translate s pid (va + j) = translate s pid va + j"
    by (simp add: translate_def)
qed

lemma translate_mod: "unat (translate s pid va) mod 4096 = unat va mod 4096"
proof -
  obtain q where "unat (ADDR_MASK (lookup s pid va)) = 4096 * q"
    using ADDR_MASK_mod [of "lookup s pid va"] by (metis mod_0_imp_dvd dvdE)
  then show ?thesis using translate_chunk(2) [of va 0 s pid] by simp
qed

lemma returns_present_entry:
  "lookup s pid va AND PTE_P \<noteq> 0 \<Longrightarrow> pid < NUM_IDS \<Longrightarrow>
   returns (present_entry pid va) s Q = Q (lookup s pid va) s"
  by (simp add: present_entry_def kwp)

lemma received_step:
  assumes map: "range_mapped s pid uva len" and k: "unat kva + unat len \<le> 0x40000000"
    and n: "unat n + unat c \<le> unat len" "c \<noteq> 0"
    and c: "unat (uva + n) mod 4096 + unat c \<le> 4096"
  shows "snd (memcpy (kva + n) (translate s pid (uva + n)) c (received s pid uva kva n)) =
    received s pid uva kva (n + c)"
proof -
  have len: "unat len < 4294967296" using unsigned_less [of len] by simp
  have nc: "unat (n + c) = unat n + unat c" using n(1) len by (simp add: unat_word_ariths)
  have cpos: "0 < unat c" using n(2) by (metis gr0I unat_eq_0)
  have "n < len" using n(1) cpos by (simp add: word_less_nat_alt)
  with map have adr: "VM_USERLO \<le> ADDR_MASK (lookup s pid (uva + n))"
    "ADDR_MASK (lookup s pid (uva + n)) < VM_USERHI" by (simp_all add: range_mapped_def)
  have tr: "unat (translate s pid (uva + n)) = unat (ADDR_MASK (lookup s pid (uva + n))) + unat (uva + n) mod 4096"
    by (rule translate_chunk(2) [where j = 0]) simp
  have "unat (uva + n) mod 4096 < 4096" by simp
  have src: "unat (translate s pid (uva + n)) + unat c < 2 ^ 32"
    using tr adr(2) c by (simp add: kconst word_less_nat_alt)
  have kn: "unat (kva + n) = unat kva + unat n" using k n(1) by (simp add: unat_word_ariths)
  have dst: "unat (kva + n) + unat c \<le> 2 ^ 32" using kn k n(1) by simp
  have "snd (memcpy (kva + n) (translate s pid (uva + n)) c (received s pid uva kva n)) a =
      received s pid uva kva (n + c) a" for a
  proof (cases "a - (kva + n) < c")
    case True
    define j where "j = a - (kva + n)"
    have jc: "j < c" using True by (simp add: j_def)
    have j: "unat (uva + n) mod 4096 + unat j < 4096" using jc c by (simp add: word_less_nat_alt)
    have "unat (translate s pid (uva + n) + j) = unat (translate s pid (uva + n)) + unat j"
      using src jc by (simp add: unat_word_ariths word_less_nat_alt)
    then have "0x40000000 \<le> unat (translate s pid (uva + n) + j)"
      using tr adr(1) by (simp add: kconst word_le_nat_alt)
    moreover have "unat kva + unat n \<le> 0x40000000" using k n(1) by simp
    ultimately have old: "received s pid uva kva n (translate s pid (uva + n) + j) =
        phys_mem s (translate s pid (uva + n) + j)"
      by (intro received_outside)
    have e: "a - kva = n + j" by (simp add: j_def)
    have "unat (n + j) = unat n + unat j" using jc n(1) len
      by (simp add: unat_word_ariths word_less_nat_alt)
    then have "a - kva < n + c" unfolding e using jc nc by (simp add: word_less_nat_alt)
    moreover have "translate s pid (uva + (a - kva)) = translate s pid (uva + n) + j"
      using translate_chunk(1) [OF j, of s pid] unfolding e by (simp add: add.assoc)
    ultimately have "received s pid uva kva (n + c) a = phys_mem s (translate s pid (uva + n) + j)"
      by (simp add: received_def)
    with old jc src dst show ?thesis by (simp add: memcpy_def memmove_eq j_def)
  next
    case False
    have "a - kva < n + c \<longleftrightarrow> a - kva < n"
    proof -
      have "a - (kva + n) = a - kva - n" by simp
      with False have "unat c \<le> unat (a - kva - n)" by (simp add: word_less_nat_alt)
      then show ?thesis using nc by (auto simp: word_less_nat_alt unat_sub_if' split: if_splits)
    qed
    with False src dst show ?thesis by (simp add: memcpy_def memmove_eq received_def)
  qed
  then show ?thesis by blast
qed

lemma returns_pt_copyin_loop:
  assumes inv: "vm_inv s" and pid: "0 < pid" "pid < NUM_IDS"
    and map: "range_mapped s pid uva len" and k: "unat kva + unat len \<le> 0x40000000"
  shows "unat n \<le> unat len \<Longrightarrow>
    returns (pt_copyin_loop pid (uva + n) (kva + n) (len - n) n)
      (s\<lparr>phys_mem := received s pid uva kva n\<rparr>)
      (\<lambda>r t. r = len \<and> t = s\<lparr>phys_mem := received s pid uva kva len\<rparr>)"
proof (induction "unat (len - n)" arbitrary: n rule: less_induct)
  case less
  show ?case
  proof (cases "n = len")
    case True
    then show ?thesis by (simp add: pt_copyin_loop.simps [of pid _ _ 0] kwp)
  next
    case False
    let ?t = "s\<lparr>phys_mem := received s pid uva kva n\<rparr>"
    let ?c = "page_chunk (len - n) (translate s pid (uva + n))"
    have lt: "n < len" using less.prems False by (simp add: word_less_nat_alt word_unat_eq_iff)
    then have ne: "len - n \<noteq> 0" by auto
    have un: "unat (uva + n) = unat uva + unat n"
      using map lt
      by (simp add: range_mapped_def word_less_nat_alt kconst unat_word_ariths)
    have uva: "user_va (uva + n)"
      using map lt un by (simp add: range_mapped_def user_va_def word_less_nat_alt word_le_nat_alt)
    have look: "lookup ?t pid (uva + n) = lookup s pid (uva + n)"
      using k lt by (intro lookup_received [OF inv pid uva]) (simp add: word_less_nat_alt)
    have pres: "lookup s pid (uva + n) AND PTE_P \<noteq> 0" using map lt by (simp add: range_mapped_def)
    note c = page_chunk_bounds [OF ne, of "translate s pid (uva + n)"]
    have sub: "unat (len - n) = unat len - unat n" using lt by (simp add: unat_sub word_le_nat_alt word_less_nat_alt)
    have nc: "unat n + unat ?c \<le> unat len" using c(2) sub less.prems by (simp add: word_le_nat_alt)
    have "?c \<noteq> 0" using c(1) by auto
    have step: "snd (memcpy (kva + n) (translate s pid (uva + n)) ?c (received s pid uva kva n)) =
        received s pid uva kva (n + ?c)"
      by (rule received_step [OF map k nc \<open>?c \<noteq> 0\<close>]) (use c(3) translate_mod [of s pid "uva + n"] in simp)
    have unc: "unat (n + ?c) = unat n + unat ?c"
    proof -
      have "unat len < 4294967296" using unsigned_less [of len] by simp
      with nc show ?thesis by (simp add: unat_word_ariths)
    qed
    have "returns (pt_copyin_loop pid (uva + (n + ?c)) (kva + (n + ?c)) (len - (n + ?c)) (n + ?c))
        (s\<lparr>phys_mem := received s pid uva kva (n + ?c)\<rparr>)
        (\<lambda>r t. r = len \<and> t = s\<lparr>phys_mem := received s pid uva kva len\<rparr>)"
    proof (rule less.hyps)
      show "unat (len - (n + ?c)) < unat (len - n)"
        using page_chunk_decr [OF ne] by (simp add: diff_diff_eq)
      show "unat (n + ?c) \<le> unat len" using nc unc by simp
    qed
    moreover have "(lookup s pid (uva + n) AND 0xfffff000) + (uva + n) mod PAGESIZE = translate s pid (uva + n)"
      by (simp add: translate_def ADDR_MASK_def)
    ultimately show ?thesis
      using ne pid pres look step
      by (subst pt_copyin_loop.simps)
         (simp add: kwp returns_present_entry kmemcpy_def Let_def diff_diff_eq add.assoc)
  qed
qed

section \<open>Properties\<close>

text \<open>
  C33: \<^verbatim>\<open>pt_copyin\<close> copies a mapped range of user addresses, page by page through the page
  structure of the process, into a buffer below the user range: byte \<open>i\<close> of the buffer is the
  byte at the translation of \<open>uva + i\<close>, the result is the length, and nothing else changes.
\<close>

theorem pt_copyin_correct:
  assumes "vm_inv s" and "0 < pid" and "pid < NUM_IDS"
    and "range_mapped s pid uva len" and "unat kva + unat len \<le> 0x40000000"
  shows "returns (pt_copyin pid uva kva len) s (\<lambda>r t. r = len \<and> (\<exists>m. t = s\<lparr>phys_mem := m\<rparr> \<and>
    (\<forall>i < len. m (kva + i) = phys_mem s (translate s pid (uva + i))) \<and>
    (\<forall>a. \<not> a - kva < len \<longrightarrow> m a = phys_mem s a)))"
proof -
  have "received s pid uva kva 0 = phys_mem s" by (simp add: received_def)
  then have "returns (pt_copyin_loop pid uva kva len 0) s
      (\<lambda>r t. r = len \<and> t = s\<lparr>phys_mem := received s pid uva kva len\<rparr>)"
    using returns_pt_copyin_loop [OF assms, of 0] by simp
  moreover have "copy_range_ok uva kva len"
    using assms(4,5)
    by (auto simp: copy_range_ok_def range_mapped_def word_le_nat_alt word_less_nat_alt unat_word_ariths kconst)
  ultimately show ?thesis
    by (auto simp: pt_copyin_def received_def kwp elim!: returns_mono
        intro!: exI [of _ "received s pid uva kva len"])
qed

lemma mapped_example:
  "\<exists>s :: vmm. vm_inv s \<and> range_mapped s 1 0x40001000 4"
proof -
  have "returns (map_page 1 0x40001000 0x50000 7) (vm_ex 3) (\<lambda>r t. r \<noteq> MagicNumber \<and> vm_inv t \<and>
      remapped 1 0x40001000 (push_bit 12 0x50000 OR 7) (vm_ex 3) t)"
    by (rule returns_map_page) (simp_all add: vm_ex_inv vm_ex_simps)
  then obtain t where inv: "vm_inv t" and re: "remapped 1 0x40001000 (push_bit 12 0x50000 OR 7) (vm_ex 3) t"
    by (auto elim: returnsE)
  have "lookup t 1 0x40001000 = 0x50000007"
    using re by (simp add: remapped_def vm_ex_simps kconst same_entry_def)
  moreover have "lookup t 1 (0x40001000 + i) = lookup t 1 0x40001000" if "i < 4" for i
  proof (rule lookup_same_page)
    have "unat i < 4" using that by (simp add: word_less_nat_alt)
    then show "unat (0x40001000 + i) div 4096 = unat (0x40001000 :: u32) div 4096"
      by (simp add: unat_word_ariths)
  qed
  ultimately have "range_mapped t 1 0x40001000 4"
    by (simp add: range_mapped_def kconst ADDR_MASK_def)
  with inv show ?thesis by blast
qed

theorem pt_copyin_correct_witness:
  "\<exists>s :: vmm. range_mapped s 1 0x40001000 4 \<and>
    returns (pt_copyin 1 0x40001000 0x2000 4) s (\<lambda>r t. r = 4 \<and> (\<exists>m. t = s\<lparr>phys_mem := m\<rparr> \<and>
      (\<forall>i < 4. m (0x2000 + i) = phys_mem s (translate s 1 (0x40001000 + i))) \<and>
      (\<forall>a. \<not> a - 0x2000 < 4 \<longrightarrow> m a = phys_mem s a)))"
proof -
  from mapped_example obtain s :: vmm where "vm_inv s" and m: "range_mapped s 1 0x40001000 4" by blast
  then have "returns (pt_copyin 1 0x40001000 0x2000 4) s (\<lambda>r t. r = 4 \<and> (\<exists>m. t = s\<lparr>phys_mem := m\<rparr> \<and>
      (\<forall>i < 4. m (0x2000 + i) = phys_mem s (translate s 1 (0x40001000 + i))) \<and>
      (\<forall>a. \<not> a - 0x2000 < 4 \<longrightarrow> m a = phys_mem s a)))"
    by (intro pt_copyin_correct) (simp_all add: kconst)
  with m show ?thesis by blast
qed

text \<open>
  C34: the range check of \<^verbatim>\<open>pt_copyin\<close> and \<^verbatim>\<open>pt_copyout\<close> wraps: it accepts ranges that leave
  the user range, such as every range that starts in the upper part of the user range and is
  so long that its end wraps around to an address below \<^verbatim>\<open>VM_USERHI\<close>.
\<close>

theorem copy_range_wraps:
  assumes "VM_USERLO \<le> uva" and "2 ^ 32 \<le> unat uva + unat len" and "unat kva + unat len \<le> unat VM_USERHI"
    and "uva < VM_USERHI"
  shows "copy_range_ok uva kva len"
proof -
  have "unat len < 4294967296" using unsigned_less [of len] by simp
  moreover have "unat uva < 4026531840" using assms(4) by (simp add: kconst word_less_nat_alt)
  ultimately have "unat (uva + len) \<le> 4026531840"
    using assms(2) by (simp add: unat_word_ariths mod_if) linarith
  moreover have "unat (kva + len) = unat kva + unat len"
    using assms(3) by (simp add: unat_word_ariths kconst)
  ultimately show ?thesis
    using assms(1,3) by (simp add: copy_range_ok_def word_le_nat_alt word_less_nat_alt kconst)
qed

theorem copy_range_wraps_witness: "copy_range_ok 0x50000000 0x10000000 0xC0000000"
  by (rule copy_range_wraps) (simp_all add: kconst)

end
