(* ===== verification/PCPU.thy ===== *)
theory PCPU
  imports UserMem
begin

text \<open>
  Per-processor data: \<^verbatim>\<open>kern/pcpu/PCPUIntro\<close> and the current thread of each processor,
  \<^verbatim>\<open>kern/thread/PCurID\<close>. A processor finds its number through the kernel stack it runs on, whose
  \<^verbatim>\<open>cpu_idx\<close> is the state component \<open>ks_cpu_idx\<close>.
\<close>

datatype cpu_vendor = UNKNOWN_CPU | INTEL | AMD

record pcpu =
  pcpu_inited :: bool
  pcpu_booted :: bool
  pcpu_kstack :: u32
  pcpu_vendor :: cpu_vendor
  pcpu_cpu_idx :: nat

record percpu = vmm +
  pcpus :: "nat \<Rightarrow> pcpu"
  CURID :: "nat \<Rightarrow> nat"

definition get_pcpu :: "nat \<Rightarrow> (pcpu \<Rightarrow> 'a) \<Rightarrow> ('z percpu_scheme, 'a) kmon" where
  "get_pcpu i f = kthen (kindex i NUM_CPUS) (kget (\<lambda>s. f (pcpus s i)))"

definition upd_pcpu :: "nat \<Rightarrow> (pcpu \<Rightarrow> pcpu) \<Rightarrow> ('z percpu_scheme, unit) kmon" where
  "upd_pcpu i f = kthen (kindex i NUM_CPUS) (kmodify (\<lambda>s. s\<lparr>pcpus := (pcpus s)(i := f (pcpus s i))\<rparr>))"

definition pcpu_set_zero :: "('z percpu_scheme, unit) kmon" where
  "pcpu_set_zero = kmodify (\<lambda>s. s\<lparr>pcpus := \<lambda>i. if i < NUM_CPUS
     then \<lparr>pcpu_inited = False, pcpu_booted = False, pcpu_kstack = 0, pcpu_vendor = UNKNOWN_CPU,
           pcpu_cpu_idx = 0\<rparr>
     else pcpus s i\<rparr>)"

definition pcpu_fields_init :: "nat \<Rightarrow> ('z percpu_scheme, unit) kmon" where
  "pcpu_fields_init cpu_idx =
     kthen (upd_pcpu cpu_idx (\<lambda>p. p\<lparr>pcpu_inited := True\<rparr>))
           (upd_pcpu cpu_idx (\<lambda>p. p\<lparr>pcpu_cpu_idx := cpu_idx\<rparr>))"

definition pcpu_cur :: "('z percpu_scheme, nat) kmon" where
  "pcpu_cur = kget ks_cpu_idx"

definition get_pcpu_idx :: "('z percpu_scheme, nat) kmon" where
  "get_pcpu_idx = kbind pcpu_cur (\<lambda>i. get_pcpu i pcpu_cpu_idx)"

definition set_pcpu_idx :: "nat \<Rightarrow> nat \<Rightarrow> ('z percpu_scheme, unit) kmon" where
  "set_pcpu_idx index cpu_idx = upd_pcpu index (\<lambda>p. p\<lparr>pcpu_cpu_idx := cpu_idx\<rparr>)"

definition get_pcpu_kstack_pointer :: "nat \<Rightarrow> ('z percpu_scheme, u32) kmon" where
  "get_pcpu_kstack_pointer cpu_idx = get_pcpu cpu_idx pcpu_kstack"

definition set_pcpu_kstack_pointer :: "nat \<Rightarrow> u32 \<Rightarrow> ('z percpu_scheme, unit) kmon" where
  "set_pcpu_kstack_pointer cpu_idx ks = upd_pcpu cpu_idx (\<lambda>p. p\<lparr>pcpu_kstack := ks\<rparr>)"

definition get_pcpu_boot_info :: "nat \<Rightarrow> ('z percpu_scheme, bool) kmon" where
  "get_pcpu_boot_info cpu_idx = get_pcpu cpu_idx pcpu_booted"

definition set_pcpu_boot_info :: "nat \<Rightarrow> bool \<Rightarrow> ('z percpu_scheme, unit) kmon" where
  "set_pcpu_boot_info cpu_idx boot_info = upd_pcpu cpu_idx (\<lambda>p. p\<lparr>pcpu_booted := boot_info\<rparr>)"

definition get_pcpu_cpu_vendor :: "nat \<Rightarrow> ('z percpu_scheme, cpu_vendor) kmon" where
  "get_pcpu_cpu_vendor cpu_idx = get_pcpu cpu_idx pcpu_vendor"

definition get_pcpu_inited_info :: "nat \<Rightarrow> ('z percpu_scheme, bool) kmon" where
  "get_pcpu_inited_info cpu_idx = get_pcpu cpu_idx pcpu_inited"

definition get_curid :: "('z percpu_scheme, nat) kmon" where
  "get_curid = kbind get_pcpu_idx (\<lambda>i. kthen (kindex i NUM_CPUS) (kget (\<lambda>s. CURID s i)))"

definition set_curid :: "nat \<Rightarrow> ('z percpu_scheme, unit) kmon" where
  "set_curid curid = kbind get_pcpu_idx (\<lambda>i.
     kthen (kindex i NUM_CPUS) (kmodify (\<lambda>s. s\<lparr>CURID := (CURID s)(i := curid)\<rparr>)))"

text \<open>
  The running processor has a valid stack whose number names its own entry, as
  \<^verbatim>\<open>pcpu_fields_init\<close> and \<^verbatim>\<open>seg_init_proc\<close> set it up.
\<close>

definition cpu_ok :: "'z percpu_scheme \<Rightarrow> bool" where
  "cpu_ok s = (kstack_ok s \<and> ks_cpu_idx s < NUM_CPUS \<and>
     pcpu_cpu_idx (pcpus s (ks_cpu_idx s)) = ks_cpu_idx s)"

abbreviation curid :: "'z percpu_scheme \<Rightarrow> nat" where
  "curid s \<equiv> CURID s (ks_cpu_idx s)"

lemma cpu_ok_kstack [simp]: "cpu_ok s \<Longrightarrow> kstack_ok s"
  by (simp add: cpu_ok_def)

lemma returns_get_pcpu_idx [kwp]:
  "cpu_ok s \<Longrightarrow> returns get_pcpu_idx s Q = Q (ks_cpu_idx s) s"
  by (simp add: get_pcpu_idx_def pcpu_cur_def get_pcpu_def cpu_ok_def kwp)

lemma completes_get_pcpu_idx [kwp]:
  "cpu_ok s \<Longrightarrow> completes E get_pcpu_idx s Q = Q (ks_cpu_idx s) s"
  by (simp add: get_pcpu_idx_def pcpu_cur_def get_pcpu_def cpu_ok_def kwp)

lemma returns_get_curid [kwp]: "cpu_ok s \<Longrightarrow> returns get_curid s Q = Q (curid s) s"
  by (simp add: get_curid_def kwp) (simp add: cpu_ok_def)

lemma completes_get_curid [kwp]: "cpu_ok s \<Longrightarrow> completes E get_curid s Q = Q (curid s) s"
  by (simp add: get_curid_def kwp) (simp add: cpu_ok_def)

lemma returns_set_curid [kwp]:
  "cpu_ok s \<Longrightarrow> returns (set_curid p) s Q = Q () (s\<lparr>CURID := (CURID s)(ks_cpu_idx s := p)\<rparr>)"
  by (simp add: set_curid_def kwp) (simp add: cpu_ok_def)

lemma completes_set_curid [kwp]:
  "cpu_ok s \<Longrightarrow> completes E (set_curid p) s Q = Q () (s\<lparr>CURID := (CURID s)(ks_cpu_idx s := p)\<rparr>)"
  by (simp add: set_curid_def kwp) (simp add: cpu_ok_def)

lemma exec_curid [kexec]:
  "cpu_ok s \<Longrightarrow> get_pcpu_idx s = Ret (ks_cpu_idx s) s"
  "cpu_ok s \<Longrightarrow> get_curid s = Ret (curid s) s"
  "cpu_ok s \<Longrightarrow> set_curid p s = Ret () (s\<lparr>CURID := (CURID s)(ks_cpu_idx s := p)\<rparr>)"
  by (rule exec_of_returns, erule returns_get_pcpu_idx returns_get_curid returns_set_curid)+

lemma safe_curid [ksafe]:
  "cpu_ok s \<Longrightarrow> safe get_curid s R S = R (curid s) s"
  "cpu_ok s \<Longrightarrow> safe (set_curid p) s R' S' = R' () (s\<lparr>CURID := (CURID s)(ks_cpu_idx s := p)\<rparr>)"
  by (erule safe_Ret [OF exec_curid(2)] safe_Ret [OF exec_curid(3)])+

lemma cpu_ok_upd [simp]:
  "cpu_ok (s\<lparr>locks := l\<rparr>) = cpu_ok s"
  "cpu_ok (s\<lparr>CURID := f\<rparr>) = cpu_ok s"
  by (simp_all add: cpu_ok_def kstack_ok_def)

lemma cpu_ok_taken [simp]: "cpu_ok (taken s l) = cpu_ok s"
  by (simp add: taken_def)

end
