(* ===== verification/TQueue.thy ===== *)
theory TQueue
  imports PCPU
begin

text \<open>
  Thread control blocks and thread queues: \<^verbatim>\<open>kern/thread/PTCBIntro\<close>, \<^verbatim>\<open>PTCBInit\<close>,
  \<^verbatim>\<open>PTQueueIntro\<close> and \<^verbatim>\<open>PTQueueInit\<close>.

  A queue is a doubly linked list through the \<^verbatim>\<open>prev\<close> and \<^verbatim>\<open>next\<close> fields of the control
  blocks, with \<^verbatim>\<open>NUM_IDS\<close> as the null index. The relation \<open>tq_repr\<close> says which list of
  threads a queue holds; the interface \<open>thread_queue\<close> states what the queue operations do to
  that list, and its clients are proved from the interface alone.

  A pointer to a file or an inode is the index of its slot in the file table or the inode
  cache, and \<open>None\<close> is the null pointer.
\<close>

section \<open>State\<close>

datatype t_state = TSTATE_READY | TSTATE_RUN | TSTATE_SLEEP | TSTATE_DEAD

definition NOFILE :: nat where [kconst]: "NOFILE = 16"

record TCB =
  tcb_state :: t_state
  tcb_cpuid :: nat
  tcb_prev :: nat
  tcb_next :: nat
  tcb_channel :: chan
  tcb_openfiles :: "nat \<Rightarrow> nat option"
  tcb_cwd :: "nat option"

record TQueue =
  tq_head :: nat
  tq_tail :: nat

record thr = percpu +
  TCBPool :: "nat \<Rightarrow> TCB"
  TQueuePool :: "nat \<Rightarrow> TQueue"

section \<open>\<^verbatim>\<open>PTCBIntro\<close>\<close>

definition get_tcb :: "nat \<Rightarrow> (TCB \<Rightarrow> 'a) \<Rightarrow> ('z thr_scheme, 'a) kmon" where
  "get_tcb pid f = kthen (kindex pid NUM_IDS) (kget (\<lambda>s. f (TCBPool s pid)))"

definition upd_tcb :: "nat \<Rightarrow> (TCB \<Rightarrow> TCB) \<Rightarrow> ('z thr_scheme, unit) kmon" where
  "upd_tcb pid f =
     kthen (kindex pid NUM_IDS) (kmodify (\<lambda>s. s\<lparr>TCBPool := (TCBPool s)(pid := f (TCBPool s pid))\<rparr>))"

definition tcb_get_state :: "nat \<Rightarrow> ('z thr_scheme, t_state) kmon" where
  "tcb_get_state pid = get_tcb pid tcb_state"

definition tcb_set_state :: "nat \<Rightarrow> t_state \<Rightarrow> ('z thr_scheme, unit) kmon" where
  "tcb_set_state pid st = upd_tcb pid (\<lambda>t. t\<lparr>tcb_state := st\<rparr>)"

definition tcb_get_cpu :: "nat \<Rightarrow> ('z thr_scheme, nat) kmon" where
  "tcb_get_cpu pid = get_tcb pid tcb_cpuid"

definition tcb_set_cpu :: "nat \<Rightarrow> nat \<Rightarrow> ('z thr_scheme, unit) kmon" where
  "tcb_set_cpu pid cpu = upd_tcb pid (\<lambda>t. t\<lparr>tcb_cpuid := cpu\<rparr>)"

definition tcb_get_prev :: "nat \<Rightarrow> ('z thr_scheme, nat) kmon" where
  "tcb_get_prev pid = get_tcb pid tcb_prev"

definition tcb_set_prev :: "nat \<Rightarrow> nat \<Rightarrow> ('z thr_scheme, unit) kmon" where
  "tcb_set_prev pid prev_pid = upd_tcb pid (\<lambda>t. t\<lparr>tcb_prev := prev_pid\<rparr>)"

definition tcb_get_next :: "nat \<Rightarrow> ('z thr_scheme, nat) kmon" where
  "tcb_get_next pid = get_tcb pid tcb_next"

definition tcb_set_next :: "nat \<Rightarrow> nat \<Rightarrow> ('z thr_scheme, unit) kmon" where
  "tcb_set_next pid next_pid = upd_tcb pid (\<lambda>t. t\<lparr>tcb_next := next_pid\<rparr>)"

definition tcb_get_chan :: "nat \<Rightarrow> ('z thr_scheme, chan) kmon" where
  "tcb_get_chan pid = get_tcb pid tcb_channel"

definition tcb_set_chan :: "nat \<Rightarrow> chan \<Rightarrow> ('z thr_scheme, unit) kmon" where
  "tcb_set_chan pid c = upd_tcb pid (\<lambda>t. t\<lparr>tcb_channel := c\<rparr>)"

definition tcb_get_openfiles :: "nat \<Rightarrow> ('z thr_scheme, nat \<Rightarrow> nat option) kmon" where
  "tcb_get_openfiles pid = get_tcb pid tcb_openfiles"

definition tcb_set_openfiles :: "nat \<Rightarrow> nat \<Rightarrow> nat option \<Rightarrow> ('z thr_scheme, unit) kmon" where
  "tcb_set_openfiles pid fd f =
     kthen (kindex fd NOFILE) (upd_tcb pid (\<lambda>t. t\<lparr>tcb_openfiles := (tcb_openfiles t)(fd := f)\<rparr>))"

definition tcb_get_cwd :: "nat \<Rightarrow> ('z thr_scheme, nat option) kmon" where
  "tcb_get_cwd pid = get_tcb pid tcb_cwd"

definition tcb_set_cwd :: "nat \<Rightarrow> nat option \<Rightarrow> ('z thr_scheme, unit) kmon" where
  "tcb_set_cwd pid d = upd_tcb pid (\<lambda>t. t\<lparr>tcb_cwd := d\<rparr>)"

text \<open>
  \<^verbatim>\<open>namei("/")\<close> is a function of the file system, a layer above: it is a parameter here. The
  size given to \<^verbatim>\<open>memzero\<close> is that of one pointer, so that only descriptor 0 is cleared.
\<close>

definition tcb_init_at_id :: "('z thr_scheme, nat option) kmon \<Rightarrow> nat \<Rightarrow> ('z thr_scheme, unit) kmon" where
  "tcb_init_at_id namei_root pid =
     kthen (upd_tcb pid (\<lambda>t. t\<lparr>tcb_state := TSTATE_DEAD, tcb_cpuid := NUM_CPUS, tcb_prev := NUM_IDS,
        tcb_next := NUM_IDS, tcb_channel := ChanNull, tcb_openfiles := (tcb_openfiles t)(0 := None)\<rparr>))
       (kbind namei_root (\<lambda>d. tcb_set_cwd pid d))"

definition tcb_init ::
    "('z thr_scheme, unit) kmon \<Rightarrow> ('z thr_scheme, nat option) kmon \<Rightarrow> ('z thr_scheme, unit) kmon" where
  "tcb_init devinit namei_root =
     kthen (paging_init devinit) (kfor 0 NUM_IDS (tcb_init_at_id namei_root))"

section \<open>\<^verbatim>\<open>PTQueueIntro\<close> and \<^verbatim>\<open>PTQueueInit\<close>\<close>

definition get_tq :: "nat \<Rightarrow> (TQueue \<Rightarrow> 'a) \<Rightarrow> ('z thr_scheme, 'a) kmon" where
  "get_tq chid f = kthen (kindex chid (NUM_IDS + NUM_CPUS)) (kget (\<lambda>s. f (TQueuePool s chid)))"

definition upd_tq :: "nat \<Rightarrow> (TQueue \<Rightarrow> TQueue) \<Rightarrow> ('z thr_scheme, unit) kmon" where
  "upd_tq chid f = kthen (kindex chid (NUM_IDS + NUM_CPUS))
     (kmodify (\<lambda>s. s\<lparr>TQueuePool := (TQueuePool s)(chid := f (TQueuePool s chid))\<rparr>))"

definition tqueue_get_head :: "nat \<Rightarrow> ('z thr_scheme, nat) kmon" where
  "tqueue_get_head chid = get_tq chid tq_head"

definition tqueue_set_head :: "nat \<Rightarrow> nat \<Rightarrow> ('z thr_scheme, unit) kmon" where
  "tqueue_set_head chid head = upd_tq chid (\<lambda>q. q\<lparr>tq_head := head\<rparr>)"

definition tqueue_get_tail :: "nat \<Rightarrow> ('z thr_scheme, nat) kmon" where
  "tqueue_get_tail chid = get_tq chid tq_tail"

definition tqueue_set_tail :: "nat \<Rightarrow> nat \<Rightarrow> ('z thr_scheme, unit) kmon" where
  "tqueue_set_tail chid tail = upd_tq chid (\<lambda>q. q\<lparr>tq_tail := tail\<rparr>)"

definition tqueue_init_at_id :: "nat \<Rightarrow> ('z thr_scheme, unit) kmon" where
  "tqueue_init_at_id chid = upd_tq chid (\<lambda>q. q\<lparr>tq_head := NUM_IDS, tq_tail := NUM_IDS\<rparr>)"

definition tqueue_init ::
    "('z thr_scheme, unit) kmon \<Rightarrow> ('z thr_scheme, nat option) kmon \<Rightarrow> ('z thr_scheme, unit) kmon" where
  "tqueue_init devinit namei_root =
     kthen (tcb_init devinit namei_root) (kfor 0 (NUM_IDS + NUM_CPUS) tqueue_init_at_id)"

definition tqueue_enqueue :: "nat \<Rightarrow> nat \<Rightarrow> ('z thr_scheme, unit) kmon" where
  "tqueue_enqueue chid pid =
     kbind (tqueue_get_tail chid) (\<lambda>tail.
       if tail = NUM_IDS then
         kthen (tcb_set_prev pid NUM_IDS)
        (kthen (tcb_set_next pid NUM_IDS)
        (kthen (tqueue_set_head chid pid)
               (tqueue_set_tail chid pid)))
       else
         kthen (tcb_set_next tail pid)
        (kthen (tcb_set_prev pid tail)
        (kthen (tcb_set_next pid NUM_IDS)
               (tqueue_set_tail chid pid))))"

definition tqueue_dequeue :: "nat \<Rightarrow> ('z thr_scheme, nat) kmon" where
  "tqueue_dequeue chid =
     kbind (tqueue_get_head chid) (\<lambda>head.
       if head \<noteq> NUM_IDS then
         kbind (tcb_get_next head) (\<lambda>next.
         kthen (if next = NUM_IDS then
                  kthen (tqueue_set_head chid NUM_IDS) (tqueue_set_tail chid NUM_IDS)
                else
                  kthen (tcb_set_prev next NUM_IDS) (tqueue_set_head chid next))
        (kthen (tcb_set_prev head NUM_IDS)
        (kthen (tcb_set_next head NUM_IDS)
           (kret head))))
       else kret NUM_IDS)"

definition tqueue_remove :: "nat \<Rightarrow> nat \<Rightarrow> ('z thr_scheme, unit) kmon" where
  "tqueue_remove chid pid =
     kbind (tcb_get_prev pid) (\<lambda>prev.
     kbind (tcb_get_next pid) (\<lambda>next.
     kthen
       (if prev = NUM_IDS then
          if next = NUM_IDS then
            kthen (tqueue_set_head chid NUM_IDS) (tqueue_set_tail chid NUM_IDS)
          else
            kthen (tcb_set_prev next NUM_IDS) (tqueue_set_head chid next)
        else
          if next = NUM_IDS then
            kthen (tcb_set_next prev NUM_IDS) (tqueue_set_tail chid prev)
          else
            kthen (kwhen (prev \<noteq> next) (tcb_set_next prev next)) (tcb_set_prev next prev))
      (kthen (tcb_set_prev pid NUM_IDS) (tcb_set_next pid NUM_IDS))))"

section \<open>The list a queue holds\<close>

text \<open>
  \<open>seg P p xs n\<close>: the threads \<open>xs\<close> are linked in this order, the first one points back to \<open>p\<close>
  and the last one forward to \<open>n\<close>.
\<close>

fun seg :: "(nat \<Rightarrow> TCB) \<Rightarrow> nat \<Rightarrow> nat list \<Rightarrow> nat \<Rightarrow> bool" where
  "seg P p [] n = True"
| "seg P p (x # xs) n = (tcb_prev (P x) = p \<and> tcb_next (P x) = hd (xs @ [n]) \<and> seg P x xs n)"

definition tq_repr :: "nat \<Rightarrow> 'z thr_scheme \<Rightarrow> nat list \<Rightarrow> bool" where
  "tq_repr chid s xs = (chid < NUM_IDS + NUM_CPUS \<and> distinct xs \<and> set xs \<subseteq> {..<NUM_IDS} \<and>
     seg (TCBPool s) NUM_IDS xs NUM_IDS \<and>
     tq_head (TQueuePool s chid) = hd (xs @ [NUM_IDS]) \<and>
     tq_tail (TQueuePool s chid) = last (NUM_IDS # xs))"

text \<open>What a queue operation leaves alone: everything but the links of the threads in \<open>A\<close> and the
  ends of the queue \<open>chid\<close>.\<close>

definition unlinked :: "TCB \<Rightarrow> TCB" where
  "unlinked t = t\<lparr>tcb_prev := NUM_IDS, tcb_next := NUM_IDS\<rparr>"

definition tq_frame :: "nat \<Rightarrow> nat set \<Rightarrow> 'z thr_scheme \<Rightarrow> 'z thr_scheme \<Rightarrow> bool" where
  "tq_frame chid A s t = (
     t = s\<lparr>TCBPool := TCBPool t, TQueuePool := TQueuePool t\<rparr> \<and>
     (\<forall>p. unlinked (TCBPool t p) = unlinked (TCBPool s p)) \<and>
     (\<forall>p. p \<notin> A \<longrightarrow> TCBPool t p = TCBPool s p) \<and>
     (\<forall>c. c \<noteq> chid \<longrightarrow> TQueuePool t c = TQueuePool s c))"

lemma seg_append:
  "seg P p (xs @ ys) n = (seg P p xs (hd (ys @ [n])) \<and> seg P (last (p # xs)) ys n)"
proof (induction xs arbitrary: p)
  case (Cons x xs)
  have "hd ((xs @ ys) @ [n]) = hd (xs @ [hd (ys @ [n])])" by (cases xs) simp_all
  with Cons show ?case by (cases xs) auto
qed simp

lemma seg_cong:
  assumes "\<And>x. x \<in> set xs \<Longrightarrow> tcb_prev (P x) = tcb_prev (P' x) \<and> tcb_next (P x) = tcb_next (P' x)"
  shows "seg P p xs n = seg P' p xs n"
  using assms by (induction xs arbitrary: p) auto

lemma seg_upd_other [simp]: "q \<notin> set xs \<Longrightarrow> seg (P(q := t)) p xs n = seg P p xs n"
  by (rule seg_cong) auto

text \<open>Rewiring one end of a segment.\<close>

lemma seg_set_next:
  assumes "seg P p (xs @ [z]) n" and "distinct (xs @ [z])"
  shows "seg (P(z := P z\<lparr>tcb_next := m\<rparr>)) p (xs @ [z]) m"
  using assms by (simp add: seg_append)

lemma seg_set_prev:
  assumes "seg P p (x # xs) n" and "x \<notin> set xs"
  shows "seg (P(x := P x\<lparr>tcb_prev := q\<rparr>)) q (x # xs) n"
  using assms by simp

lemma tq_frame_refl: "tq_frame chid A s s"
  by (simp add: tq_frame_def)

lemma tq_frame_mono: "tq_frame chid A s t \<Longrightarrow> A \<subseteq> B \<Longrightarrow> tq_frame chid B s t"
  by (auto simp: tq_frame_def)

lemma tq_frame_trans:
  assumes "tq_frame chid A s t" and "tq_frame chid B t u"
  shows "tq_frame chid (A \<union> B) s u"
proof -
  obtain P Q where t: "t = s\<lparr>TCBPool := P, TQueuePool := Q\<rparr>"
    using assms(1) unfolding tq_frame_def by blast
  obtain P' Q' where u: "u = t\<lparr>TCBPool := P', TQueuePool := Q'\<rparr>"
    using assms(2) unfolding tq_frame_def by blast
  from assms show ?thesis by (simp add: tq_frame_def t u)
qed

lemma tq_repr_bounds:
  "tq_repr chid s xs \<Longrightarrow> distinct xs \<and> set xs \<subseteq> {..<NUM_IDS} \<and> chid < NUM_IDS + NUM_CPUS"
  by (simp add: tq_repr_def)

text \<open>A queue that shares no thread with the one operated on keeps its list.\<close>

lemma tq_repr_other:
  assumes "tq_frame chid A s t" and "tq_repr c s ys" and "c \<noteq> chid" and "A \<inter> set ys = {}"
  shows "tq_repr c t ys"
proof -
  have "seg (TCBPool t) NUM_IDS ys NUM_IDS = seg (TCBPool s) NUM_IDS ys NUM_IDS"
    by (rule seg_cong) (use assms(1,4) in \<open>auto simp: tq_frame_def\<close>)
  with assms show ?thesis by (simp add: tq_repr_def tq_frame_def)
qed

text \<open>Two states with the same links and queue ends hold the same lists.\<close>

definition same_links :: "'z thr_scheme \<Rightarrow> 'z thr_scheme \<Rightarrow> bool" where
  "same_links s t = (TQueuePool t = TQueuePool s \<and>
     (\<forall>p. tcb_prev (TCBPool t p) = tcb_prev (TCBPool s p) \<and> tcb_next (TCBPool t p) = tcb_next (TCBPool s p)))"

lemma tq_repr_same_links: "same_links s t \<Longrightarrow> tq_repr chid t xs = tq_repr chid s xs"
  using seg_cong [of xs "TCBPool t" "TCBPool s"] by (auto simp: same_links_def tq_repr_def)

section \<open>The operations on the list\<close>

lemmas tcb_simps = get_tcb_def upd_tcb_def tcb_get_state_def tcb_set_state_def tcb_get_cpu_def
  tcb_set_cpu_def tcb_get_prev_def tcb_set_prev_def tcb_get_next_def tcb_set_next_def
  tcb_get_chan_def tcb_set_chan_def tcb_get_openfiles_def tcb_set_openfiles_def tcb_get_cwd_def
  tcb_set_cwd_def

lemmas tq_simps = get_tq_def upd_tq_def tqueue_get_head_def tqueue_set_head_def
  tqueue_get_tail_def tqueue_set_tail_def

lemma returns_enqueue:
  assumes q: "tq_repr chid s xs" and pid: "pid < NUM_IDS" "pid \<notin> set xs"
  shows "returns (tqueue_enqueue chid pid) s
    (\<lambda>_ t. tq_repr chid t (xs @ [pid]) \<and> tq_frame chid (insert pid (set xs)) s t)"
proof (cases xs rule: rev_cases)
  case Nil
  with q pid show ?thesis
    by (simp add: tqueue_enqueue_def tcb_simps tq_simps tq_repr_def tq_frame_def unlinked_def kwp)
next
  case (snoc ys z)
  from q pid snoc have z: "z < NUM_IDS" "z \<noteq> pid" "pid \<notin> set ys" "z \<notin> set ys" "z \<noteq> NUM_IDS"
      "tq_tail (TQueuePool s chid) = z"
    by (auto simp: tq_repr_def)
  from q pid snoc z show ?thesis
    by (simp add: tqueue_enqueue_def tcb_simps tq_simps tq_repr_def tq_frame_def unlinked_def kwp
        seg_append hd_append)
qed

lemma returns_dequeue:
  assumes q: "tq_repr chid s (x # xs)"
  shows "returns (tqueue_dequeue chid) s
    (\<lambda>r t. r = x \<and> tq_repr chid t xs \<and> tq_frame chid (insert x (set xs)) s t \<and>
       TCBPool t x = unlinked (TCBPool s x))"
proof (cases xs)
  case Nil
  with q show ?thesis
    by (auto simp: tqueue_dequeue_def tcb_simps tq_simps tq_repr_def tq_frame_def unlinked_def kwp)
next
  case (Cons y ys)
  from q Cons have y: "y < NUM_IDS" "y \<noteq> x" "x < NUM_IDS" "x \<notin> set ys" "y \<notin> set ys"
      "y \<noteq> NUM_IDS" "x \<noteq> NUM_IDS" "tq_head (TQueuePool s chid) = x" "tcb_next (TCBPool s x) = y"
    by (auto simp: tq_repr_def)
  from q Cons y show ?thesis
    by (simp add: tqueue_dequeue_def tcb_simps tq_simps tq_repr_def tq_frame_def unlinked_def kwp)
qed

lemma returns_dequeue_empty:
  assumes "tq_repr chid s []"
  shows "returns (tqueue_dequeue chid) s (\<lambda>r t. r = NUM_IDS \<and> t = s)"
  using assms by (simp add: tqueue_dequeue_def tq_simps tq_repr_def kwp)

text \<open>Removal from the middle: the neighbours of \<open>pid\<close> are the last thread of \<open>xs\<close> and the first of
  \<open>ys\<close>.\<close>

lemma tq_repr_neighbours:
  assumes "tq_repr chid s (xs @ pid # ys)"
  shows "tcb_prev (TCBPool s pid) = last (NUM_IDS # xs)" and "tcb_next (TCBPool s pid) = hd (ys @ [NUM_IDS])"
    and "pid < NUM_IDS"
  using assms by (auto simp: tq_repr_def seg_append)

lemma returns_remove:
  assumes q: "tq_repr chid s (xs @ pid # ys)"
  shows "returns (tqueue_remove chid pid) s
    (\<lambda>_ t. tq_repr chid t (xs @ ys) \<and> tq_frame chid (insert pid (set (xs @ ys))) s t \<and>
       TCBPool t pid = unlinked (TCBPool s pid))"
proof (cases xs rule: rev_cases)
  case xs: Nil
  show ?thesis
  proof (cases ys)
    case Nil
    with q xs show ?thesis
      by (auto simp: tqueue_remove_def tcb_simps tq_simps tq_repr_def tq_frame_def unlinked_def kwp)
  next
    case (Cons y zs)
    from q xs Cons have "y < NUM_IDS" "y \<noteq> pid" "pid < NUM_IDS" "pid \<notin> set zs" "y \<notin> set zs"
      "y \<noteq> NUM_IDS" by (auto simp: tq_repr_def)
    with q xs Cons tq_repr_neighbours [OF q] show ?thesis
      by (simp add: tqueue_remove_def tcb_simps tq_simps tq_repr_def tq_frame_def unlinked_def kwp)
  qed
next
  case xs: (snoc ws w)
  from q xs have w: "w < NUM_IDS" "w \<noteq> pid" "pid < NUM_IDS" "pid \<notin> set ws" "w \<notin> set ws" "w \<noteq> NUM_IDS"
    by (auto simp: tq_repr_def)
  show ?thesis
  proof (cases ys)
    case Nil
    with q xs w tq_repr_neighbours [OF q] show ?thesis
      by (simp add: tqueue_remove_def tcb_simps tq_simps tq_repr_def tq_frame_def unlinked_def kwp
          seg_append hd_append)
  next
    case (Cons y zs)
    from q xs Cons have "y < NUM_IDS" "y \<noteq> pid" "pid \<notin> set zs" "y \<notin> set zs" "y \<noteq> NUM_IDS"
      "w \<noteq> y" "w \<notin> set zs" "y \<notin> set ws" by (auto simp: tq_repr_def)
    with q xs Cons w tq_repr_neighbours [OF q] show ?thesis
      by (auto simp: tqueue_remove_def tcb_simps tq_simps tq_repr_def tq_frame_def unlinked_def kwp
          seg_append hd_append)
  qed
qed

section \<open>The queue interface\<close>

text \<open>
  What the scheduler relies on: a queue holds a list of threads without repetition; enqueue
  appends, dequeue takes the first, and both touch nothing but links (\<open>linked\<close>); updates of the
  state that leave the links alone (\<open>inert\<close>) keep the list.
\<close>

locale thread_queue =
  fixes queue :: "'s \<Rightarrow> nat list \<Rightarrow> bool"
    and enqueue :: "nat \<Rightarrow> ('s, unit) kmon"
    and dequeue :: "('s, nat) kmon"
    and linked :: "'s \<Rightarrow> 's \<Rightarrow> bool"
    and inert :: "'s \<Rightarrow> 's \<Rightarrow> bool"
  assumes queue_bounds: "queue s xs \<Longrightarrow> distinct xs \<and> set xs \<subseteq> {..<NUM_IDS}"
    and enqueue_law: "queue s xs \<Longrightarrow> p < NUM_IDS \<Longrightarrow> p \<notin> set xs \<Longrightarrow>
      returns (enqueue p) s (\<lambda>_ t. queue t (xs @ [p]) \<and> linked s t)"
    and dequeue_law: "queue s (x # xs) \<Longrightarrow> returns dequeue s (\<lambda>r t. r = x \<and> queue t xs \<and> linked s t)"
    and dequeue_empty: "queue s [] \<Longrightarrow> returns dequeue s (\<lambda>r t. r = NUM_IDS \<and> t = s)"
    and inert_law: "queue s xs \<Longrightarrow> inert s t \<Longrightarrow> queue t xs"
    and linked_refl: "linked s s"
    and linked_trans: "linked s t \<Longrightarrow> linked t u \<Longrightarrow> linked s u"
begin

text \<open>Enqueueing one thread and dequeueing the next is one turn of the round robin.\<close>

lemma turn:
  assumes "queue s xs" and "p < NUM_IDS" and "p \<notin> set xs"
  shows "returns (kthen (enqueue p) dequeue) s
    (\<lambda>r t. r = hd (xs @ [p]) \<and> queue t (tl (xs @ [p])) \<and> linked s t)"
proof -
  obtain u where u: "enqueue p s = Ret () u" "queue u (xs @ [p])" "linked s u"
    using enqueue_law [OF assms] by (auto elim: returnsE)
  obtain x ys where xs: "xs @ [p] = x # ys" by (cases "xs @ [p]") auto
  with u have "returns dequeue u (\<lambda>r t. r = x \<and> queue t ys \<and> linked u t)"
    by (simp add: dequeue_law)
  then have "returns dequeue u (\<lambda>r t. r = hd (xs @ [p]) \<and> queue t (tl (xs @ [p])) \<and> linked s t)"
    by (rule returns_mono) (use xs u linked_trans in auto)
  with u show ?thesis by (simp add: kwp returns_Ret [where m = "enqueue p", OF u(1)])
qed

text \<open>
  A loop over the threads that prepares and enqueues the chosen ones. The assertion \<open>I j\<close> holds
  when thread \<open>j\<close> is about to be considered, \<open>J j\<close> when it has been prepared.
\<close>

lemma enqueue_chosen:
  fixes prep :: "nat \<Rightarrow> ('s, unit) kmon"
  assumes "queue s xs" and "I 0 s" and "n \<le> NUM_IDS" and "\<And>p. choice p \<Longrightarrow> p \<notin> set xs"
    and test: "\<And>j t. j < n \<Longrightarrow> I j t \<Longrightarrow> returns (test j) t (\<lambda>b u. b = choice j \<and> u = t)"
    and skip: "\<And>j t. j < n \<Longrightarrow> I j t \<Longrightarrow> \<not> choice j \<Longrightarrow> I (Suc j) t"
    and prep: "\<And>j t. j < n \<Longrightarrow> I j t \<Longrightarrow> choice j \<Longrightarrow> returns (prep j) t (\<lambda>_ u. inert t u \<and> J j u)"
    and link: "\<And>j t u. j < n \<Longrightarrow> J j t \<Longrightarrow> linked t u \<Longrightarrow> I (Suc j) u"
  shows "returns (kfor 0 n (\<lambda>p. kbind (test p) (\<lambda>b. kwhen b (kthen (prep p) (enqueue p))))) s
    (\<lambda>_ t. queue t (xs @ filter choice [0..<n]) \<and> I n t)"
proof (rule returns_kfor [where I = "\<lambda>j t. queue t (xs @ filter choice [0..<j]) \<and> I j t"])
  fix j t
  assume j: "j < n" and I: "queue t (xs @ filter choice [0..<j]) \<and> I j t"
  from test [OF j] I have t: "test j t = Ret (choice j) t" by (simp add: returns_eq_Ret)
  show "returns (kbind (test j) (\<lambda>b. kwhen b (kthen (prep j) (enqueue j)))) t
      (\<lambda>_ u. queue u (xs @ filter choice [0..<Suc j]) \<and> I (Suc j) u)"
  proof (cases "choice j")
    case True
    with prep [OF j] I have "returns (prep j) t (\<lambda>_ u. inert t u \<and> J j u)" by blast
    then obtain u where u: "prep j t = Ret () u" "inert t u" "J j u" by (auto elim: returnsE)
    then have q: "queue u (xs @ filter choice [0..<j])" using I inert_law by blast
    have "j \<notin> set (xs @ filter choice [0..<j])" using True assms(4) by auto
    with q j assms(3) have "returns (enqueue j) u
        (\<lambda>_ v. queue v ((xs @ filter choice [0..<j]) @ [j]) \<and> linked u v)"
      by (intro enqueue_law) auto
    then have "returns (enqueue j) u (\<lambda>_ v. queue v (xs @ filter choice [0..<Suc j]) \<and> I (Suc j) v)"
      by (rule returns_mono) (use True link [OF j u(3)] in auto)
    with True show ?thesis
      by (simp add: kwp returns_Ret [where m = "test j", OF t] returns_Ret [where m = "prep j", OF u(1)])
  next
    case False
    with I skip [OF j] show ?thesis
      by (simp add: kwp returns_Ret [where m = "test j", OF t])
  qed
qed (use assms in auto)

end

definition ready_linked :: "'z thr_scheme \<Rightarrow> 'z thr_scheme \<Rightarrow> bool" where
  "ready_linked s t = tq_frame NUM_IDS {..<NUM_IDS} s t"

interpretation rq: thread_queue "tq_repr NUM_IDS" "tqueue_enqueue NUM_IDS" "tqueue_dequeue NUM_IDS"
  ready_linked same_links
proof
  fix s :: "'z thr_scheme" and xs
  assume "tq_repr NUM_IDS s xs"
  then show "distinct xs \<and> set xs \<subseteq> {..<NUM_IDS}" by (simp add: tq_repr_def)
next
  fix s :: "'z thr_scheme" and xs p
  assume q: "tq_repr NUM_IDS s xs" and "p < NUM_IDS" "p \<notin> set xs"
  then show "returns (tqueue_enqueue NUM_IDS p) s
      (\<lambda>_ t. tq_repr NUM_IDS t (xs @ [p]) \<and> ready_linked s t)"
    using returns_enqueue [OF q, of p] tq_repr_bounds [OF q]
    by (auto elim!: returns_mono simp: ready_linked_def intro: tq_frame_mono)
next
  fix s :: "'z thr_scheme" and x xs
  assume q: "tq_repr NUM_IDS s (x # xs)"
  then show "returns (tqueue_dequeue NUM_IDS) s
      (\<lambda>r t. r = x \<and> tq_repr NUM_IDS t xs \<and> ready_linked s t)"
    using returns_dequeue [OF q] tq_repr_bounds [OF q]
    by (auto elim!: returns_mono simp: ready_linked_def intro: tq_frame_mono)
next
  fix s :: "'z thr_scheme"
  assume "tq_repr NUM_IDS s []"
  then show "returns (tqueue_dequeue NUM_IDS) s (\<lambda>r t. r = NUM_IDS \<and> t = s)"
    by (rule returns_dequeue_empty)
next
  fix s t :: "'z thr_scheme" and xs
  assume "tq_repr NUM_IDS s xs" "same_links s t"
  then show "tq_repr NUM_IDS t xs" by (simp add: tq_repr_same_links)
next
  fix s t u :: "'z thr_scheme"
  show "ready_linked s s" by (simp add: ready_linked_def tq_frame_refl)
  show "ready_linked s t \<Longrightarrow> ready_linked t u \<Longrightarrow> ready_linked s u"
    using tq_frame_trans [of NUM_IDS "{..<NUM_IDS}" s t "{..<NUM_IDS}" u] by (simp add: ready_linked_def)
qed

text \<open>
  C35: The index-linked queues refine lists. If a queue holds the list xs, enqueueing a thread
  that is not in it yields xs with the thread at the end; dequeueing yields the first thread and
  the rest (or \<^verbatim>\<open>NUM_IDS\<close> and no change on an empty queue); removing a thread of the list yields
  the list without it. Every other queue whose threads are not touched keeps its list, and no
  field but the links changes.
\<close>

theorem tqueue_refines_list:
  assumes "tq_repr chid s xs"
  shows "(pid < NUM_IDS \<and> pid \<notin> set xs \<longrightarrow>
      returns (tqueue_enqueue chid pid) s (\<lambda>_ t. tq_repr chid t (xs @ [pid]) \<and>
        tq_frame chid (insert pid (set xs)) s t \<and>
        (\<forall>c ys. c \<noteq> chid \<and> tq_repr c s ys \<and> insert pid (set xs) \<inter> set ys = {} \<longrightarrow> tq_repr c t ys)))
    \<and> returns (tqueue_dequeue chid) s (\<lambda>r t. r = hd (xs @ [NUM_IDS]) \<and> tq_repr chid t (tl xs) \<and>
        tq_frame chid (set xs) s t \<and>
        (\<forall>c ys. c \<noteq> chid \<and> tq_repr c s ys \<and> set xs \<inter> set ys = {} \<longrightarrow> tq_repr c t ys))
    \<and> (pid \<in> set xs \<longrightarrow>
      returns (tqueue_remove chid pid) s (\<lambda>_ t. tq_repr chid t (remove1 pid xs) \<and>
        tq_frame chid (set xs) s t \<and>
        (\<forall>c ys. c \<noteq> chid \<and> tq_repr c s ys \<and> set xs \<inter> set ys = {} \<longrightarrow> tq_repr c t ys)))"
proof (intro conjI impI)
  assume p: "pid < NUM_IDS \<and> pid \<notin> set xs"
  show "returns (tqueue_enqueue chid pid) s (\<lambda>_ t. tq_repr chid t (xs @ [pid]) \<and>
        tq_frame chid (insert pid (set xs)) s t \<and>
        (\<forall>c ys. c \<noteq> chid \<and> tq_repr c s ys \<and> insert pid (set xs) \<inter> set ys = {} \<longrightarrow> tq_repr c t ys))"
    by (rule returns_mono [OF returns_enqueue [OF assms]]) (use p in \<open>blast intro: tq_repr_other\<close>)+
next
  show "returns (tqueue_dequeue chid) s (\<lambda>r t. r = hd (xs @ [NUM_IDS]) \<and> tq_repr chid t (tl xs) \<and>
        tq_frame chid (set xs) s t \<and>
        (\<forall>c ys. c \<noteq> chid \<and> tq_repr c s ys \<and> set xs \<inter> set ys = {} \<longrightarrow> tq_repr c t ys))"
  proof (cases xs)
    case Nil
    with assms show ?thesis
      by (auto intro!: returns_mono [OF returns_dequeue_empty] simp: tq_frame_refl)
  next
    case (Cons x zs)
    with assms have "tq_repr chid s (x # zs)" by simp
    from returns_dequeue [OF this] Cons show ?thesis
      by (elim returns_mono) (simp, blast intro: tq_repr_other)
  qed
next
  assume "pid \<in> set xs"
  then obtain ys zs where xs: "xs = ys @ pid # zs" "pid \<notin> set ys"
    by (auto dest: split_list_first)
  with assms have q: "tq_repr chid s (ys @ pid # zs)" by simp
  from xs have "remove1 pid xs = ys @ zs" "set xs = insert pid (set (ys @ zs))"
    by (auto simp: remove1_append)
  with returns_remove [OF q]
  show "returns (tqueue_remove chid pid) s (\<lambda>_ t. tq_repr chid t (remove1 pid xs) \<and>
        tq_frame chid (set xs) s t \<and>
        (\<forall>c ys. c \<noteq> chid \<and> tq_repr c s ys \<and> set xs \<inter> set ys = {} \<longrightarrow> tq_repr c t ys))"
    by (elim returns_mono) (simp, blast intro: tq_repr_other)
qed

text \<open>A state with the threads 1 and 2 in the ready queue of a processor that runs thread 0.\<close>

definition tcb0 :: TCB where
  "tcb0 = \<lparr>tcb_state = TSTATE_DEAD, tcb_cpuid = NUM_CPUS, tcb_prev = NUM_IDS, tcb_next = NUM_IDS,
     tcb_channel = ChanNull, tcb_openfiles = (\<lambda>_. None), tcb_cwd = None\<rparr>"

definition percpu_ex :: percpu where
  "percpu_ex = vmm.extend (vm_ex 3) (percpu.fields
     (\<lambda>i. \<lparr>pcpu_inited = True, pcpu_booted = True, pcpu_kstack = 0, pcpu_vendor = INTEL,
        pcpu_cpu_idx = i\<rparr>) (\<lambda>_. 0))"

definition thr_ex :: thr where
  "thr_ex = percpu.extend percpu_ex (thr.fields
     ((\<lambda>_. tcb0)(
        0 := tcb0\<lparr>tcb_state := TSTATE_RUN\<rparr>,
        1 := tcb0\<lparr>tcb_state := TSTATE_READY, tcb_next := 2\<rparr>,
        2 := tcb0\<lparr>tcb_state := TSTATE_READY, tcb_prev := 1\<rparr>))
     ((\<lambda>_. \<lparr>tq_head = NUM_IDS, tq_tail = NUM_IDS\<rparr>)(NUM_IDS := \<lparr>tq_head = 1, tq_tail = 2\<rparr>)))"

lemma thr_ex_queues:
  "tq_repr NUM_IDS thr_ex [1, 2]" "c < NUM_IDS \<Longrightarrow> tq_repr c thr_ex []"
  by (simp_all add: tq_repr_def thr_ex_def percpu.defs thr.defs tcb0_def kconst)

theorem tqueue_refines_list_witness:
  "tq_repr NUM_IDS thr_ex [1, 2] \<and>
   returns (tqueue_enqueue NUM_IDS 0) thr_ex (\<lambda>_ t. tq_repr NUM_IDS t [1, 2, 0] \<and> tq_repr 5 t []) \<and>
   returns (tqueue_dequeue NUM_IDS) thr_ex (\<lambda>r t. r = 1 \<and> tq_repr NUM_IDS t [2]) \<and>
   returns (tqueue_remove NUM_IDS 2) thr_ex (\<lambda>_ t. tq_repr NUM_IDS t [1])"
proof -
  note q = tqueue_refines_list [OF thr_ex_queues(1)]
  have "tq_repr 5 thr_ex []" by (rule thr_ex_queues(2)) (simp add: kconst)
  then have 1: "returns (tqueue_enqueue NUM_IDS 0) thr_ex (\<lambda>_ t. tq_repr NUM_IDS t [1, 2, 0] \<and> tq_repr 5 t [])"
    using q [of 0] by (auto elim!: returns_mono simp: kconst)
  have 2: "returns (tqueue_dequeue NUM_IDS) thr_ex (\<lambda>r t. r = 1 \<and> tq_repr NUM_IDS t [2])"
    using q [of 0] by (auto elim!: returns_mono)
  have 3: "returns (tqueue_remove NUM_IDS 2) thr_ex (\<lambda>_ t. tq_repr NUM_IDS t [1])"
    using q [of 2] by (auto elim!: returns_mono)
  from 1 2 3 thr_ex_queues(1) show ?thesis by blast
qed

end
