(* ===== verification/Thread.thy ===== *)
theory Thread
  imports TQueue
begin

text \<open>
  Kernel threads: contexts (\<^verbatim>\<open>kern/thread/PKCtxIntro\<close> with \<^verbatim>\<open>cswitch.S\<close>, \<^verbatim>\<open>PKCtxNew\<close>) and the
  scheduler (\<^verbatim>\<open>PThread\<close>).

  \<^verbatim>\<open>cswitch\<close> saves the callee-saved registers, the stack pointer and the return address of the
  running thread and loads those of the next one: at this point the outcome of the calling
  function is \<^term>\<open>Sleep\<close>, with the channel the thread sleeps on (the null channel after a
  yield) and the rest of its call. The state component \<open>cpu_regs\<close> is the register file that
  \<^verbatim>\<open>cswitch\<close> finds, with the return address, which is on the stack, in \<open>eip\<close>.

  Only one processor runs threads (the others stop in \<^verbatim>\<open>kern_main_ap\<close>), and traps are taken
  with interrupts disabled: between two switches kernel code runs alone.
\<close>

section \<open>\<^verbatim>\<open>PKCtxIntro\<close> and \<^verbatim>\<open>PKCtxNew\<close>\<close>

record kctx =
  kctx_esp :: u32
  kctx_edi :: u32
  kctx_esi :: u32
  kctx_ebx :: u32
  kctx_ebp :: u32
  kctx_eip :: u32

record sched = thr +
  kctx_pool :: "nat \<Rightarrow> kctx"
  cpu_regs :: kctx
  proc_kstack :: u32
  sched_ticks :: "nat \<Rightarrow> u32"

definition SCHED_SLICE :: u32 where [kconst]: "SCHED_SLICE = 5"
definition LAPIC_TIMER_INTR_FREQ :: u32 where [kconst]: "LAPIC_TIMER_INTR_FREQ = 1000"

definition kctx_set_esp :: "nat \<Rightarrow> u32 \<Rightarrow> ('z sched_scheme, unit) kmon" where
  "kctx_set_esp pid esp = kthen (kindex pid NUM_IDS)
     (kmodify (\<lambda>s. s\<lparr>kctx_pool := (kctx_pool s)(pid := (kctx_pool s pid)\<lparr>kctx_esp := esp\<rparr>)\<rparr>))"

definition kctx_set_eip :: "nat \<Rightarrow> u32 \<Rightarrow> ('z sched_scheme, unit) kmon" where
  "kctx_set_eip pid eip = kthen (kindex pid NUM_IDS)
     (kmodify (\<lambda>s. s\<lparr>kctx_pool := (kctx_pool s)(pid := (kctx_pool s pid)\<lparr>kctx_eip := eip\<rparr>)\<rparr>))"

text \<open>The final \<^verbatim>\<open>ret\<close> pops the return address that was stored at the new stack pointer.\<close>

definition cswitch :: "nat \<Rightarrow> nat \<Rightarrow> ('z sched_scheme, unit) kmon" where
  "cswitch from_pid to_pid = kmodify (\<lambda>s.
     let pool = (kctx_pool s)(from_pid := cpu_regs s); k = pool to_pid in
     s\<lparr>kctx_pool := pool, cpu_regs := k\<lparr>kctx_esp := kctx_esp k + 4\<rparr>\<rparr>)"

definition kctx_switch :: "nat \<Rightarrow> nat \<Rightarrow> ('z sched_scheme, unit) kmon" where
  "kctx_switch from_pid to_pid =
     kthen (kindex from_pid NUM_IDS)
    (kthen (kindex to_pid NUM_IDS)
    (kthen (cswitch from_pid to_pid)
    (kbind (kget (\<lambda>s. tcb_channel (TCBPool s from_pid))) kswitch)))"

text \<open>A \<^verbatim>\<open>struct kstack\<close> is one page, and \<^verbatim>\<open>kstack_hi\<close> is the address of its end.\<close>

definition kstack_hi :: "'z sched_scheme \<Rightarrow> nat \<Rightarrow> u32" where
  "kstack_hi s pid = proc_kstack s + of_nat (pid + 1) * 4096"

definition kctx_new :: "u32 \<Rightarrow> nat \<Rightarrow> u32 \<Rightarrow> ('z sched_scheme, nat) kmon" where
  "kctx_new entry cid n_pages =
     kbind (container_can_consume cid n_pages) (\<lambda>b.
       if b then
         kbind (alloc_mem_quota cid n_pages) (\<lambda>pid.
           kthen (kwhen (pid \<noteq> NUM_IDS)
             (kbind (kget (\<lambda>s. kstack_hi s pid)) (\<lambda>hi.
               kthen (kctx_set_esp pid hi) (kctx_set_eip pid entry))))
           (kret pid))
       else kret NUM_IDS)"

section \<open>\<^verbatim>\<open>PThread\<close>\<close>

definition thread_init ::
    "('z sched_scheme, unit) kmon \<Rightarrow> ('z sched_scheme, nat option) kmon \<Rightarrow> ('z sched_scheme, unit) kmon" where
  "thread_init devinit namei_root =
     kthen (kfor 0 NUM_CPUS (\<lambda>i. kmodify (\<lambda>s. s\<lparr>sched_ticks := (sched_ticks s)(i := 0)\<rparr>)))
    (kthen (spinlock_init SchedLk)
    (kthen (tqueue_init devinit namei_root)
    (kthen (set_curid 0)
           (tcb_set_state 0 TSTATE_RUN))))"

definition thread_spawn :: "u32 \<Rightarrow> nat \<Rightarrow> u32 \<Rightarrow> ('z sched_scheme, nat) kmon" where
  "thread_spawn entry cid n_pages =
     kthen (spinlock_acquire SchedLk)
    (kbind (kctx_new entry cid n_pages) (\<lambda>pid.
     kthen (kwhen (pid \<noteq> NUM_IDS)
              (kthen (tcb_set_state pid TSTATE_READY) (tqueue_enqueue NUM_IDS pid)))
    (kthen (spinlock_release SchedLk)
           (kret pid))))"

definition thread_yield :: "('z sched_scheme, unit) kmon" where
  "thread_yield =
     kthen (spinlock_acquire SchedLk)
    (kbind get_curid (\<lambda>old_cur_pid.
     kthen (tcb_set_state old_cur_pid TSTATE_READY)
    (kthen (tqueue_enqueue NUM_IDS old_cur_pid)
    (kbind (tqueue_dequeue NUM_IDS) (\<lambda>new_cur_pid.
     kthen (tcb_set_state new_cur_pid TSTATE_RUN)
    (kthen (set_curid new_cur_pid)
      (if old_cur_pid \<noteq> new_cur_pid then
         kthen (spinlock_release SchedLk) (kctx_switch old_cur_pid new_cur_pid)
       else spinlock_release SchedLk)))))))"

definition sched_update :: "('z sched_scheme, unit) kmon" where
  "sched_update =
     kthen (spinlock_acquire SchedLk)
    (kbind get_pcpu_idx (\<lambda>i.
     kthen (kindex i NUM_CPUS)
    (kthen (kmodify (\<lambda>s. s\<lparr>sched_ticks := (sched_ticks s)(i := sched_ticks s i + 1000 div LAPIC_TIMER_INTR_FREQ)\<rparr>))
    (kbind (kget (\<lambda>s. sched_ticks s i)) (\<lambda>ticks.
      if ticks \<ge> SCHED_SLICE then
        kthen (kmodify (\<lambda>s. s\<lparr>sched_ticks := (sched_ticks s)(i := 0)\<rparr>))
       (kthen (spinlock_release SchedLk) thread_yield)
      else spinlock_release SchedLk)))))"

text \<open>The part of \<^verbatim>\<open>thread_sleep\<close> after the context switch.\<close>

definition sleep_tail :: "nat \<Rightarrow> lock_id \<Rightarrow> ('z sched_scheme, unit) kmon" where
  "sleep_tail old_cur_pid lk =
     kthen (spinlock_acquire SchedLk)
    (kthen (tcb_set_chan old_cur_pid ChanNull)
    (kthen (spinlock_release SchedLk)
           (spinlock_acquire lk)))"

definition thread_sleep :: "chan \<Rightarrow> lock_id option \<Rightarrow> ('z sched_scheme, unit) kmon" where
  "thread_sleep chan lko = (case lko of
       None \<Rightarrow> kpanic ''sleep without lock''
     | Some lk \<Rightarrow>
         kthen (spinlock_acquire SchedLk)
        (kthen (spinlock_release lk)
        (kbind get_curid (\<lambda>old_cur_pid.
         kbind (tqueue_dequeue NUM_IDS) (\<lambda>new_cur_pid.
         kthen (kassert (new_cur_pid \<noteq> NUM_IDS) ''new_cur_pid != NUM_IDS'')
        (kthen (tcb_set_chan old_cur_pid chan)
        (kthen (tcb_set_state old_cur_pid TSTATE_SLEEP)
        (kthen (tcb_set_state new_cur_pid TSTATE_RUN)
        (kthen (set_curid new_cur_pid)
        (kthen (spinlock_release SchedLk)
        (kthen (kctx_switch old_cur_pid new_cur_pid)
               (sleep_tail old_cur_pid lk))))))))))))"

definition thread_wakeup :: "chan \<Rightarrow> ('z sched_scheme, unit) kmon" where
  "thread_wakeup chan =
     kthen (spinlock_acquire SchedLk)
    (kthen (kfor 0 NUM_IDS (\<lambda>pid.
        kbind (kbind (tcb_get_chan pid) (\<lambda>c. kret (chan = c))) (\<lambda>b.
          kwhen b (kthen (tcb_set_state pid TSTATE_READY) (tqueue_enqueue NUM_IDS pid)))))
      (spinlock_release SchedLk))"

section \<open>Scheduler states\<close>

text \<open>
  \<open>sched_ok s xs\<close>: the scheduler is idle, the ready queue holds \<open>xs\<close> and the running thread is
  not in it.
\<close>

definition sched_ok :: "'z sched_scheme \<Rightarrow> nat list \<Rightarrow> bool" where
  "sched_ok s xs = (cpu_ok s \<and> lock_free s SchedLk \<and> tq_repr NUM_IDS s xs \<and>
     curid s < NUM_IDS \<and> curid s \<notin> set xs)"

text \<open>The components a scheduler function may change.\<close>

definition sched_frame :: "'z sched_scheme \<Rightarrow> 'z sched_scheme \<Rightarrow> bool" where
  "sched_frame s t = (t = s\<lparr>locks := locks t, CURID := CURID t, TCBPool := TCBPool t,
     TQueuePool := TQueuePool t, kctx_pool := kctx_pool t, cpu_regs := cpu_regs t\<rparr>)"

lemma unlinked_fields:
  assumes "unlinked a = unlinked b"
  shows "tcb_state a = tcb_state b" "tcb_cpuid a = tcb_cpuid b" "tcb_channel a = tcb_channel b"
    "tcb_openfiles a = tcb_openfiles b" "tcb_cwd a = tcb_cwd b"
  using assms by (cases a; cases b; simp add: unlinked_def)+

lemma unlinked_upd [simp]:
  "unlinked (a\<lparr>tcb_prev := p\<rparr>) = unlinked a" "unlinked (a\<lparr>tcb_next := p\<rparr>) = unlinked a"
  "unlinked (unlinked a) = unlinked a"
  "unlinked (a\<lparr>tcb_state := x\<rparr>) = (unlinked a)\<lparr>tcb_state := x\<rparr>"
  "unlinked (a\<lparr>tcb_channel := c\<rparr>) = (unlinked a)\<lparr>tcb_channel := c\<rparr>"
  by (cases a, simp add: unlinked_def)+

text \<open>The list of a queue as a function of the control blocks and queue ends alone.\<close>

definition tq_rep :: "nat \<Rightarrow> (nat \<Rightarrow> TCB) \<Rightarrow> (nat \<Rightarrow> TQueue) \<Rightarrow> nat list \<Rightarrow> bool" where
  "tq_rep c P Q xs = (c < NUM_IDS + NUM_CPUS \<and> distinct xs \<and> set xs \<subseteq> {..<NUM_IDS} \<and>
     seg P NUM_IDS xs NUM_IDS \<and> tq_head (Q c) = hd (xs @ [NUM_IDS]) \<and> tq_tail (Q c) = last (NUM_IDS # xs))"

lemma tq_repr_rep: "tq_repr c s xs = tq_rep c (TCBPool s) (TQueuePool s) xs"
  by (simp add: tq_repr_def tq_rep_def)

lemma tq_rep_tcb [simp]:
  "tcb_prev b = tcb_prev (P p) \<Longrightarrow> tcb_next b = tcb_next (P p) \<Longrightarrow>
     tq_rep c (P(p := b)) Q xs = tq_rep c P Q xs"
  using seg_cong [of xs "P(p := b)" P] by (auto simp: tq_rep_def)

lemma cpu_ok_thr [simp]:
  "cpu_ok (s\<lparr>TCBPool := P\<rparr>) = cpu_ok s" "cpu_ok (s\<lparr>TQueuePool := Q\<rparr>) = cpu_ok s"
  "cpu_ok (u\<lparr>kctx_pool := kp\<rparr>) = cpu_ok u" "cpu_ok (u\<lparr>cpu_regs := r\<rparr>) = cpu_ok u"
  "cpu_ok (u\<lparr>sched_ticks := k\<rparr>) = cpu_ok u"
  by (simp_all add: cpu_ok_def kstack_ok_def)

lemma lock_free_upd [simp]:
  "lock_free (s\<lparr>TCBPool := P\<rparr>) l = lock_free s l" "lock_free (s\<lparr>TQueuePool := Q\<rparr>) l = lock_free s l"
  "lock_free (s\<lparr>CURID := f\<rparr>) l = lock_free s l"
  "lock_free (u\<lparr>kctx_pool := kp\<rparr>) l = lock_free u l" "lock_free (u\<lparr>cpu_regs := r\<rparr>) l = lock_free u l"
  "lock_free (u\<lparr>sched_ticks := k\<rparr>) l = lock_free u l"
  by (simp_all add: lock_free_def)

lemma taken_sel [simp]:
  "ks_cpu_idx (taken s l) = ks_cpu_idx s" "CURID (taken s l) = CURID s"
  "TCBPool (taken s l) = TCBPool s" "TQueuePool (taken s l) = TQueuePool s"
  "kctx_pool (taken u l) = kctx_pool u" "cpu_regs (taken u l) = cpu_regs u"
  "sched_ticks (taken u l) = sched_ticks u"
  by (simp_all add: taken_def)

text \<open>Taking a free lock and releasing it restores the state.\<close>

lemma taken_released [simp]:
  "lock_free s l \<Longrightarrow> (taken s l)\<lparr>locks := (locks (taken s l))(l := unlocked)\<rparr> = s"
  by (simp add: taken_def lock_free_def fun_upd_idem)

lemma exec_tcb [kexec]:
  "p < NUM_IDS \<Longrightarrow> tcb_get_chan p s = Ret (tcb_channel (TCBPool s p)) s"
  "p < NUM_IDS \<Longrightarrow> tcb_set_state p x s =
     Ret () (s\<lparr>TCBPool := (TCBPool s)(p := (TCBPool s p)\<lparr>tcb_state := x\<rparr>)\<rparr>)"
  "p < NUM_IDS \<Longrightarrow> tcb_set_chan p c s =
     Ret () (s\<lparr>TCBPool := (TCBPool s)(p := (TCBPool s p)\<lparr>tcb_channel := c\<rparr>)\<rparr>)"
  by (simp_all add: tcb_simps kexec)

lemma ready_enqueueE:
  assumes "tq_repr NUM_IDS s xs" and "p < NUM_IDS" and "p \<notin> set xs"
  obtains P Q where "tqueue_enqueue NUM_IDS p s = Ret () (s\<lparr>TCBPool := P, TQueuePool := Q\<rparr>)"
    and "tq_repr NUM_IDS (s\<lparr>TCBPool := P, TQueuePool := Q\<rparr>) (xs @ [p])"
    and "\<And>q. unlinked (P q) = unlinked (TCBPool s q)"
proof -
  obtain t where t: "tqueue_enqueue NUM_IDS p s = Ret () t" "tq_repr NUM_IDS t (xs @ [p])" "ready_linked s t"
    using rq.enqueue_law [OF assms] by (auto elim: returnsE)
  then have "t = s\<lparr>TCBPool := TCBPool t, TQueuePool := TQueuePool t\<rparr>"
    "unlinked (TCBPool t q) = unlinked (TCBPool s q)" for q
    by (auto simp: ready_linked_def tq_frame_def)
  with t that [of "TQueuePool t" "TCBPool t"] show thesis by metis
qed

lemma ready_dequeueE:
  assumes "tq_repr NUM_IDS s (x # xs)"
  obtains P Q where "tqueue_dequeue NUM_IDS s = Ret x (s\<lparr>TCBPool := P, TQueuePool := Q\<rparr>)"
    and "tq_repr NUM_IDS (s\<lparr>TCBPool := P, TQueuePool := Q\<rparr>) xs"
    and "\<And>q. unlinked (P q) = unlinked (TCBPool s q)"
proof -
  obtain t where t: "tqueue_dequeue NUM_IDS s = Ret x t" "tq_repr NUM_IDS t xs" "ready_linked s t"
    using rq.dequeue_law [OF assms] by (auto elim: returnsE)
  then have "t = s\<lparr>TCBPool := TCBPool t, TQueuePool := TQueuePool t\<rparr>"
    "unlinked (TCBPool t q) = unlinked (TCBPool s q)" for q
    by (auto simp: ready_linked_def tq_frame_def)
  with t that [of "TQueuePool t" "TCBPool t"] show thesis by metis
qed

section \<open>Yielding\<close>

text \<open>The control block changes of a switch: \<open>f\<close> of the old thread, and the new one runs.\<close>

definition switched :: "nat \<Rightarrow> (TCB \<Rightarrow> TCB) \<Rightarrow> nat \<Rightarrow> 'z sched_scheme \<Rightarrow> 'z sched_scheme \<Rightarrow> bool" where
  "switched old f new s t = (sched_frame s t \<and> curid t = new \<and>
     (\<forall>p. unlinked (TCBPool t p) = unlinked (
        if p = new then (TCBPool s p)\<lparr>tcb_state := TSTATE_RUN\<rparr>
        else if p = old then f (TCBPool s p) else TCBPool s p)) \<and>
     kctx_pool t = (kctx_pool s)(old := cpu_regs s) \<and>
     cpu_regs t = (kctx_pool s new)\<lparr>kctx_esp := kctx_esp (kctx_pool s new) + 4\<rparr>)"

lemma exec_kctx_switch [kexec]:
  "a < NUM_IDS \<Longrightarrow> b < NUM_IDS \<Longrightarrow> a \<noteq> b \<Longrightarrow> kctx_switch a b s =
     Sleep (tcb_channel (TCBPool s a))
       (s\<lparr>kctx_pool := (kctx_pool s)(a := cpu_regs s),
          cpu_regs := (kctx_pool s b)\<lparr>kctx_esp := kctx_esp (kctx_pool s b) + 4\<rparr>\<rparr>) (kret ())"
  by (simp add: kctx_switch_def cswitch_def kexec Let_def)

lemma thread_yield_switch:
  assumes ok: "sched_ok s (x # xs)"
  shows "sleeps thread_yield s (\<lambda>c t k. c = tcb_channel (TCBPool s (curid s)) \<and> k = kret () \<and>
    sched_ok t (xs @ [curid s]) \<and> locks t = locks s \<and>
    switched (curid s) (\<lambda>b. b\<lparr>tcb_state := TSTATE_READY\<rparr>) x s t)"
proof -
  let ?o = "curid s"
  let ?s1 = "(taken s SchedLk)\<lparr>TCBPool := (TCBPool s)(?o := (TCBPool s ?o)\<lparr>tcb_state := TSTATE_READY\<rparr>)\<rparr>"
  from ok have s: "cpu_ok s" "lock_free s SchedLk" "tq_repr NUM_IDS s (x # xs)" "?o < NUM_IDS"
      "?o \<notin> set (x # xs)" "x < NUM_IDS" "x \<notin> set xs" "?o \<noteq> x"
    by (auto simp: sched_ok_def dest: tq_repr_bounds)
  have "tq_repr NUM_IDS ?s1 (x # xs)"
    using s by (simp add: tq_repr_rep)
  from ready_enqueueE [OF this s(4,5)] obtain P Q where e:
    "tqueue_enqueue NUM_IDS ?o ?s1 = Ret () (?s1\<lparr>TCBPool := P, TQueuePool := Q\<rparr>)"
    "tq_repr NUM_IDS (?s1\<lparr>TCBPool := P, TQueuePool := Q\<rparr>) ((x # xs) @ [?o])"
    "\<And>q. unlinked (P q) = unlinked (TCBPool ?s1 q)" by metis
  let ?s2 = "?s1\<lparr>TCBPool := P, TQueuePool := Q\<rparr>"
  from e(2) have "tq_repr NUM_IDS ?s2 (x # (xs @ [?o]))" by simp
  from ready_dequeueE [OF this] obtain P' Q' where d:
    "tqueue_dequeue NUM_IDS ?s2 = Ret x (?s2\<lparr>TCBPool := P', TQueuePool := Q'\<rparr>)"
    "tq_repr NUM_IDS (?s2\<lparr>TCBPool := P', TQueuePool := Q'\<rparr>) (xs @ [?o])"
    "\<And>q. unlinked (P' q) = unlinked (TCBPool ?s2 q)" by metis
  from d(3) e(3) have u: "unlinked (P' q) = unlinked (TCBPool ?s1 q)" for q by simp
  show ?thesis
    using s e(1) d(1,2) u
    by (simp add: sleeps_def thread_yield_def kexec sched_ok_def switched_def sched_frame_def
        taken_def fun_upd_idem lock_free_def tq_repr_rep unlinked_fields [OF u])
qed

section \<open>Sleeping and waking\<close>

lemma thread_sleep_switch:
  assumes ok: "sched_ok s (x # xs)" and lk: "lk \<noteq> SchedLk"
  shows "sleeps (thread_sleep c (Some lk)) s (\<lambda>c' t k. c' = c \<and> k = sleep_tail (curid s) lk \<and>
    sched_ok t xs \<and> locks t = (locks s)(lk := unlocked) \<and>
    switched (curid s) (\<lambda>b. b\<lparr>tcb_state := TSTATE_SLEEP, tcb_channel := c\<rparr>) x s t)"
proof -
  let ?o = "curid s"
  let ?s1 = "(taken s SchedLk)\<lparr>locks := (locks (taken s SchedLk))(lk := unlocked)\<rparr>"
  from ok have s: "cpu_ok s" "lock_free s SchedLk" "tq_repr NUM_IDS s (x # xs)" "?o < NUM_IDS"
      "?o \<notin> set (x # xs)" "x < NUM_IDS" "x \<notin> set xs" "?o \<noteq> x" "x \<noteq> NUM_IDS"
    by (auto simp: sched_ok_def dest: tq_repr_bounds)
  have "tq_repr NUM_IDS ?s1 (x # xs)" using s by (simp add: tq_repr_rep)
  from ready_dequeueE [OF this] obtain P Q where d:
    "tqueue_dequeue NUM_IDS ?s1 = Ret x (?s1\<lparr>TCBPool := P, TQueuePool := Q\<rparr>)"
    "tq_repr NUM_IDS (?s1\<lparr>TCBPool := P, TQueuePool := Q\<rparr>) xs"
    "\<And>q. unlinked (P q) = unlinked (TCBPool ?s1 q)" by metis
  from d(3) have u: "unlinked (P q) = unlinked (TCBPool s q)" for q by simp
  have l: "(locks s)(lk := unlocked, SchedLk := unlocked) = (locks s)(lk := unlocked)"
    using s(2) lk by (auto simp: lock_free_def)
  show ?thesis
    using s d(1,2) u lk l
    by (simp add: sleeps_def thread_sleep_def kexec sched_ok_def switched_def sched_frame_def
        taken_def fun_upd_twist [of SchedLk lk] lock_free_def tq_repr_rep)
qed

lemma exec_sleep_tail:
  assumes "cpu_ok u" and "lock_free u SchedLk" and "lock_free u lk" and "p < NUM_IDS"
  shows "sleep_tail p lk u =
    Ret () (taken (u\<lparr>TCBPool := (TCBPool u)(p := (TCBPool u p)\<lparr>tcb_channel := ChanNull\<rparr>)\<rparr>) lk)"
  using assms
  by (simp add: sleep_tail_def kexec taken_def lock_free_def fun_upd_idem kstack_ok_def cpu_ok_def)

text \<open>
  \<open>no_stale c s xs\<close>: no ready thread and not the running one still has \<open>c\<close> as its channel. A
  thread that was woken keeps its channel until it runs again.
\<close>

definition no_stale :: "chan \<Rightarrow> 'z sched_scheme \<Rightarrow> nat list \<Rightarrow> bool" where
  "no_stale c s xs = (\<forall>p \<in> insert (curid s) (set xs). tcb_channel (TCBPool s p) \<noteq> c)"

definition sleepers :: "chan \<Rightarrow> 'z thr_scheme \<Rightarrow> nat list" where
  "sleepers c s = filter (\<lambda>p. tcb_channel (TCBPool s p) = c) [0..<NUM_IDS]"

definition woken :: "chan \<Rightarrow> 'z sched_scheme \<Rightarrow> 'z sched_scheme \<Rightarrow> bool" where
  "woken c s t = (t = s\<lparr>TCBPool := TCBPool t, TQueuePool := TQueuePool t\<rparr> \<and>
     (\<forall>p. unlinked (TCBPool t p) = unlinked (
        if p < NUM_IDS \<and> tcb_channel (TCBPool s p) = c then (TCBPool s p)\<lparr>tcb_state := TSTATE_READY\<rparr>
        else TCBPool s p)))"

lemma returns_thread_wakeup:
  assumes ok: "sched_ok s xs" and ns: "no_stale c s xs"
  shows "returns (thread_wakeup c) s (\<lambda>_ t. sched_ok t (xs @ sleepers c s) \<and> woken c s t)"
proof -
  define s0 where "s0 = taken s SchedLk"
  define ch where "ch p = (c = tcb_channel (TCBPool s p))" for p
  let ?upd = "\<lambda>n p. if p < n \<and> ch p then (TCBPool s p)\<lparr>tcb_state := TSTATE_READY\<rparr> else TCBPool s p"
  let ?I = "\<lambda>n t. \<exists>P Q. t = s0\<lparr>TCBPool := P, TQueuePool := Q\<rparr> \<and>
      (\<forall>p. unlinked (P p) = unlinked (?upd n p))"
  from ok have s: "cpu_ok s" "lock_free s SchedLk" "tq_repr NUM_IDS s xs" by (auto simp: sched_ok_def)
  have "returns (kfor 0 NUM_IDS (\<lambda>pid.
        kbind (kbind (tcb_get_chan pid) (\<lambda>c'. kret (c = c'))) (\<lambda>b.
          kwhen b (kthen (tcb_set_state pid TSTATE_READY) (tqueue_enqueue NUM_IDS pid))))) s0
      (\<lambda>_ t. tq_repr NUM_IDS t (xs @ filter ch [0..<NUM_IDS]) \<and> ?I NUM_IDS t)"
  proof (rule rq.enqueue_chosen [where J = "\<lambda>j. ?I (Suc j)"])
    show "tq_repr NUM_IDS s0 xs" using s by (simp add: s0_def tq_repr_rep)
    have "s0 = s0\<lparr>TCBPool := TCBPool s, TQueuePool := TQueuePool s\<rparr>"
      by (simp add: s0_def taken_def)
    then show "?I 0 s0" by auto
    show "p \<notin> set xs" if "ch p" for p using ns that by (auto simp: ch_def no_stale_def)
  next
    fix j t assume j: "j < NUM_IDS" and "?I j t"
    then obtain P Q where t: "t = s0\<lparr>TCBPool := P, TQueuePool := Q\<rparr>"
      "\<And>p. unlinked (P p) = unlinked (?upd j p)" by blast
    have P: "tcb_channel (P j) = tcb_channel (TCBPool s j)" using unlinked_fields(3) [OF t(2), of j] by simp
    then show "returns (kbind (tcb_get_chan j) (\<lambda>c'. kret (c = c'))) t (\<lambda>b u. b = ch j \<and> u = t)"
      using j by (simp add: tcb_simps kwp t(1) ch_def)
    show "?I (Suc j) t" if "\<not> ch j"
      using t that by (intro exI [of _ P] exI [of _ Q]) (auto simp: less_Suc_eq)
    assume "ch j"
    let ?u = "t\<lparr>TCBPool := (TCBPool t)(j := (TCBPool t j)\<lparr>tcb_state := TSTATE_READY\<rparr>)\<rparr>"
    have "?u = s0\<lparr>TCBPool := P(j := (P j)\<lparr>tcb_state := TSTATE_READY\<rparr>), TQueuePool := Q\<rparr>"
      by (simp add: t(1))
    moreover have "unlinked ((P(j := (P j)\<lparr>tcb_state := TSTATE_READY\<rparr>)) p) = unlinked (?upd (Suc j) p)" for p
      using t(2) [of p] \<open>ch j\<close> by (auto simp: less_Suc_eq)
    ultimately have "?I (Suc j) ?u" by blast
    then show "returns (tcb_set_state j TSTATE_READY) t (\<lambda>_ u. same_links t u \<and> ?I (Suc j) u)"
      using j unfolding tcb_simps by (simp only: kwp) (simp add: same_links_def)
  next
    fix j t u assume "?I (Suc j) t" and l: "ready_linked t u"
    then obtain P Q where t: "t = s0\<lparr>TCBPool := P, TQueuePool := Q\<rparr>"
      "\<And>p. unlinked (P p) = unlinked (?upd (Suc j) p)" by blast
    from l have "u = t\<lparr>TCBPool := TCBPool u, TQueuePool := TQueuePool u\<rparr>"
      "\<And>p. unlinked (TCBPool u p) = unlinked (TCBPool t p)"
      by (auto simp: ready_linked_def tq_frame_def)
    with t have "u = s0\<lparr>TCBPool := TCBPool u, TQueuePool := TQueuePool u\<rparr>"
      "\<And>p. unlinked (TCBPool u p) = unlinked (?upd (Suc j) p)" by simp_all
    then show "?I (Suc j) u" by blast
  qed simp
  then obtain P Q where w: "kfor 0 NUM_IDS (\<lambda>pid.
        kbind (kbind (tcb_get_chan pid) (\<lambda>c'. kret (c = c'))) (\<lambda>b.
          kwhen b (kthen (tcb_set_state pid TSTATE_READY) (tqueue_enqueue NUM_IDS pid)))) s0 =
      Ret () (s0\<lparr>TCBPool := P, TQueuePool := Q\<rparr>)"
    "tq_repr NUM_IDS (s0\<lparr>TCBPool := P, TQueuePool := Q\<rparr>) (xs @ filter ch [0..<NUM_IDS])"
    "\<And>p. unlinked (P p) = unlinked (?upd NUM_IDS p)"
    by (auto elim!: returnsE)
  have "filter ch [0..<NUM_IDS] = sleepers c s" by (auto simp: sleepers_def ch_def intro: filter_cong)
  moreover have "\<not> ch (curid s)" using ns by (auto simp: no_stale_def ch_def)
  moreover have "thread_wakeup c s = Ret () (s\<lparr>TCBPool := P, TQueuePool := Q\<rparr>)"
    using s w(1) unfolding s0_def
    by (simp add: thread_wakeup_def kexec taken_def lock_free_def fun_upd_idem)
  ultimately show ?thesis
    using ok w(2,3)
    by (simp add: returns_def sched_ok_def woken_def s0_def tq_repr_rep ch_def sleepers_def eq_commute [of c])
qed

section \<open>The scheduler in an arbitrary state\<close>

text \<open>
  What sleeping and waking do whatever the state of the ready queue is. These facts need no
  assumption on the links between the control blocks, and hold also after the queue has lost
  threads.
\<close>

lemma safe_tcb [ksafe]:
  "safe (get_tcb p f) s R S = (p < NUM_IDS \<longrightarrow> R (f (TCBPool s p)) s)"
  "safe (upd_tcb p g) s R' S' = (p < NUM_IDS \<longrightarrow> R' () (s\<lparr>TCBPool := (TCBPool s)(p := g (TCBPool s p))\<rparr>))"
  "safe (get_tq c f') s R'' S'' = (c < NUM_IDS + NUM_CPUS \<longrightarrow> R'' (f' (TQueuePool s c)) s)"
  "safe (upd_tq c g') s R' S' =
     (c < NUM_IDS + NUM_CPUS \<longrightarrow> R' () (s\<lparr>TQueuePool := (TQueuePool s)(c := g' (TQueuePool s c))\<rparr>))"
  by (simp_all add: get_tcb_def upd_tcb_def get_tq_def upd_tq_def ksafe)

lemmas tcb_ops = tcb_get_state_def tcb_set_state_def tcb_get_cpu_def
  tcb_set_cpu_def tcb_get_prev_def tcb_set_prev_def tcb_get_next_def tcb_set_next_def
  tcb_get_chan_def tcb_set_chan_def tcb_get_cwd_def tcb_set_cwd_def
  tqueue_get_head_def tqueue_set_head_def tqueue_get_tail_def tqueue_set_tail_def

definition links_changed :: "'z thr_scheme \<Rightarrow> 'z thr_scheme \<Rightarrow> bool" where
  "links_changed s t = (t = s\<lparr>TCBPool := TCBPool t, TQueuePool := TQueuePool t\<rparr> \<and>
     (\<forall>p. unlinked (TCBPool t p) = unlinked (TCBPool s p)))"

lemma safe_tqueue_enqueue: "safe (tqueue_enqueue c p) s (\<lambda>_ t. links_changed s t) (\<lambda>_ _ _. False)"
  by (auto simp: tqueue_enqueue_def tcb_ops ksafe links_changed_def)

lemma safe_tqueue_dequeue: "safe (tqueue_dequeue c) s (\<lambda>_ t. links_changed s t) (\<lambda>_ _ _. False)"
  by (auto simp: tqueue_dequeue_def tcb_ops ksafe links_changed_def)

lemma safe_thread_wakeup:
  assumes ok: "cpu_ok s" "lock_free s SchedLk"
  shows "safe (thread_wakeup c) s (\<lambda>_ t. woken c s t) (\<lambda>_ _ _. False)"
proof -
  define s0 where "s0 = taken s SchedLk"
  define ch where "ch p = (c = tcb_channel (TCBPool s p))" for p
  let ?upd = "\<lambda>n p. if p < n \<and> ch p then (TCBPool s p)\<lparr>tcb_state := TSTATE_READY\<rparr> else TCBPool s p"
  let ?I = "\<lambda>n t. t = s0\<lparr>TCBPool := TCBPool t, TQueuePool := TQueuePool t\<rparr> \<and>
      (\<forall>p. unlinked (TCBPool t p) = unlinked (?upd n p))"
  let ?body = "\<lambda>pid. kbind (kbind (tcb_get_chan pid) (\<lambda>c'. kret (c = c'))) (\<lambda>b.
          kwhen b (kthen (tcb_set_state pid TSTATE_READY) (tqueue_enqueue NUM_IDS pid)))"
  have "safe (kfor 0 NUM_IDS ?body) s0 (\<lambda>_ t. ?I NUM_IDS t) (\<lambda>_ _ _. False)"
  proof (rule safe_kfor [where I = ?I])
    show "?I 0 s0" by (simp add: s0_def)
  next
    fix j t assume j: "j < NUM_IDS" and I: "?I j t"
    have chan: "tcb_channel (TCBPool t j) = tcb_channel (TCBPool s j)"
      using unlinked_fields(3) [of "TCBPool t j" "?upd j j"] I by simp
    let ?u = "t\<lparr>TCBPool := (TCBPool t)(j := (TCBPool t j)\<lparr>tcb_state := TSTATE_READY\<rparr>)\<rparr>"
    show "safe (?body j) t (\<lambda>_ u. ?I (Suc j) u) (\<lambda>_ _ _. False)"
    proof (cases "ch j")
      case True
      have "safe (tqueue_enqueue NUM_IDS j) ?u (\<lambda>_ u. ?I (Suc j) u) (\<lambda>_ _ _. False)"
      proof (rule safe_mono [OF safe_tqueue_enqueue])
        fix v assume v: "links_changed ?u v"
        then have "v = t\<lparr>TCBPool := TCBPool v, TQueuePool := TQueuePool v\<rparr>" by (simp add: links_changed_def)
        moreover obtain P Q where "t = s0\<lparr>TCBPool := P, TQueuePool := Q\<rparr>" using I by blast
        ultimately have "v = s0\<lparr>TCBPool := TCBPool v, TQueuePool := TQueuePool v\<rparr>" by simp
        moreover have "unlinked (TCBPool v p) = unlinked (?upd (Suc j) p)" for p
        proof -
          have "unlinked (TCBPool v p) = unlinked (TCBPool ?u p)" using v by (simp add: links_changed_def)
          also have "\<dots> = unlinked (?upd (Suc j) p)" using I True by (auto simp: less_Suc_eq)
          finally show ?thesis .
        qed
        ultimately show "?I (Suc j) v" by blast
      qed simp
      then show ?thesis using True chan j by (simp add: tcb_ops ksafe ch_def)
    next
      case False
      then have "?I (Suc j) t" using I by (auto simp: less_Suc_eq)
      then show ?thesis using False chan j by (simp add: tcb_ops ksafe ch_def)
    qed
  qed simp
  then show ?thesis
    unfolding thread_wakeup_def
  proof (simp add: ksafe ok s0_def [symmetric], elim safe_mono)
    fix u assume "?I NUM_IDS u"
    then obtain P Q where "u = s0\<lparr>TCBPool := P, TQueuePool := Q\<rparr>"
      and "\<forall>p. unlinked (P p) = unlinked (?upd NUM_IDS p)" by auto
    then show "woken c s (u\<lparr>locks := (locks u)(SchedLk := unlocked)\<rparr>)"
      using ok(2) by (simp add: woken_def s0_def taken_def lock_free_def fun_upd_idem ch_def eq_commute [of c])
  qed simp
qed

text \<open>What is left of the control blocks when a thread has gone to sleep.\<close>

definition asleep :: "chan \<Rightarrow> 'z thr_scheme \<Rightarrow> nat \<Rightarrow> bool" where
  "asleep c s p = (tcb_state (TCBPool s p) = TSTATE_SLEEP \<and> tcb_channel (TCBPool s p) = c)"

lemma woken_asleep:
  assumes "woken c s t" and "asleep c' t p" and "p < NUM_IDS"
  shows "asleep c' s p \<and> c' \<noteq> c"
proof -
  have u: "unlinked (TCBPool t p) = unlinked (
        if p < NUM_IDS \<and> tcb_channel (TCBPool s p) = c then (TCBPool s p)\<lparr>tcb_state := TSTATE_READY\<rparr>
        else TCBPool s p)" using assms(1) by (simp add: woken_def)
  show ?thesis using unlinked_fields(1,3) [OF u] assms(2,3) by (auto simp: asleep_def split: if_splits)
qed

lemma safe_thread_sleep:
  fixes s :: "'z sched_scheme"
  assumes ok: "cpu_ok s" "lock_free s SchedLk" and lk: "lk \<noteq> SchedLk"
  shows "safe (thread_sleep c (Some lk)) s (\<lambda>_ _. False)
    (\<lambda>c' t k. k = sleep_tail (curid s) lk \<and> sched_frame s t \<and> cpu_ok t \<and> curid s < NUM_IDS \<and>
       locks t = (locks s)(lk := unlocked) \<and> (\<forall>c'' p. asleep c'' t p \<longrightarrow> asleep c'' s p \<or> p = curid s))"
  (is "safe _ s _ ?S")
proof -
  let ?s1 = "(taken s SchedLk)\<lparr>locks := (locks (taken s SchedLk))(lk := unlocked)\<rparr>"
  define rest :: "nat \<Rightarrow> nat \<Rightarrow> ('z sched_scheme, unit) kmon" where "rest old new =
     kthen (kassert (new \<noteq> NUM_IDS) ''new_cur_pid != NUM_IDS'')
    (kthen (tcb_set_chan old c)
    (kthen (tcb_set_state old TSTATE_SLEEP)
    (kthen (tcb_set_state new TSTATE_RUN)
    (kthen (set_curid new)
    (kthen (spinlock_release SchedLk)
    (kthen (kctx_switch old new) (sleep_tail old lk)))))))" for old new
  have eq: "thread_sleep c (Some lk) =
     kthen (spinlock_acquire SchedLk)
    (kthen (spinlock_release lk)
    (kbind get_curid (\<lambda>old. kbind (tqueue_dequeue NUM_IDS) (rest old))))"
    by (simp add: thread_sleep_def rest_def [abs_def])
  have l: "(locks s)(SchedLk := x, lk := unlocked, SchedLk := unlocked) = (locks s)(lk := unlocked)" for x
    using ok(2) lk by (auto simp: lock_free_def)
  have "safe (tqueue_dequeue NUM_IDS) ?s1 (\<lambda>new t. safe (rest (curid s) new) t (\<lambda>_ _. False) ?S) (\<lambda>_ _ _. False)"
  proof (rule safe_mono [OF safe_tqueue_dequeue])
    fix new t assume "links_changed ?s1 t"
    then obtain P Q where t: "t = ?s1\<lparr>TCBPool := P, TQueuePool := Q\<rparr>"
      and u: "\<And>p. unlinked (P p) = unlinked (TCBPool s p)"
      by (auto simp: links_changed_def)
    show "safe (rest (curid s) new) t (\<lambda>_ _. False) ?S"
      using ok l unfolding t
      by (simp add: rest_def ksafe tcb_ops kctx_switch_def cswitch_def Let_def sched_frame_def asleep_def
          taken_def unlinked_fields(1,3) [OF u])
  qed simp
  then show ?thesis
    using ok unfolding eq by (simp add: ksafe) (erule safe_mono, simp_all)
qed

section \<open>Properties of the scheduler\<close>

text \<open>\<open>yields s t\<close>: the running thread yields in \<open>s\<close>, and \<open>t\<close> is the state in which the next one goes on.\<close>

definition yields :: "'z sched_scheme \<Rightarrow> 'z sched_scheme \<Rightarrow> bool" where
  "yields s t = (\<exists>c k. thread_yield s = Sleep c t k)"

definition tstates_ok :: "'z sched_scheme \<Rightarrow> nat list \<Rightarrow> bool" where
  "tstates_ok s xs = (tcb_state (TCBPool s (curid s)) = TSTATE_RUN \<and>
     (\<forall>p \<in> set xs. tcb_state (TCBPool s p) = TSTATE_READY))"

lemma yields_turn:
  assumes ok: "sched_ok s (x # xs)" and st: "tstates_ok s (x # xs)"
  obtains t where "yields s t" and "\<And>t'. yields s t' \<Longrightarrow> t' = t" and "sched_ok t (xs @ [curid s])"
    and "tstates_ok t (xs @ [curid s])" and "curid t = x" and "locks t = locks s"
proof -
  obtain t where y: "thread_yield s = Sleep (tcb_channel (TCBPool s (curid s))) t (kret ())"
    and t: "sched_ok t (xs @ [curid s])" "locks t = locks s"
      "switched (curid s) (\<lambda>b. b\<lparr>tcb_state := TSTATE_READY\<rparr>) x s t"
    using thread_yield_switch [OF ok] by (auto elim: sleepsE)
  from ok have d: "curid s \<noteq> x" "curid s \<notin> set xs" "x \<notin> set xs"
    by (auto simp: sched_ok_def dest: tq_repr_bounds)
  from t(3) have c: "curid t = x" and u: "\<And>p. unlinked (TCBPool t p) = unlinked (
        if p = x then (TCBPool s p)\<lparr>tcb_state := TSTATE_RUN\<rparr>
        else if p = curid s then (TCBPool s p)\<lparr>tcb_state := TSTATE_READY\<rparr> else TCBPool s p)"
    by (auto simp: switched_def)
  have "tcb_state (TCBPool t p) = (if p = x then TSTATE_RUN else if p = curid s then TSTATE_READY
      else tcb_state (TCBPool s p))" for p
    using unlinked_fields(1) [OF u, of p] by simp
  with st d c have "tstates_ok t (xs @ [curid s])" by (auto simp: tstates_ok_def)
  with y t c show thesis by (intro that [of t]) (auto simp: yields_def)
qed

text \<open>
  C36: The scheduler is a round robin. If the running thread and the ready threads xs do nothing
  but yield, then after n yields, for every n, the state is determined, the running thread is the
  n-th of them in cyclic order, the ready queue holds the others in the order in which they will
  run, exactly the running thread has the state RUN, and the scheduler lock is free again.
\<close>

theorem thread_yield_round_robin:
  assumes "sched_ok s xs" and "tstates_ok s xs" and "xs \<noteq> []"
  shows "\<exists>t. (\<forall>u. (yields ^^ n) s u \<longleftrightarrow> u = t) \<and>
      curid t = (curid s # xs) ! (n mod Suc (length xs)) \<and>
      curid t # tl (rotate n (curid s # xs)) = rotate n (curid s # xs) \<and>
      sched_ok t (tl (rotate n (curid s # xs))) \<and> tstates_ok t (tl (rotate n (curid s # xs))) \<and>
      locks t = locks s"
proof -
  have "\<exists>t. (\<forall>u. (yields ^^ n) s u \<longleftrightarrow> u = t) \<and>
      curid t # tl (rotate n (curid s # xs)) = rotate n (curid s # xs) \<and>
      sched_ok t (tl (rotate n (curid s # xs))) \<and> tstates_ok t (tl (rotate n (curid s # xs))) \<and>
      locks t = locks s"
  proof (induction n)
    case 0
    from assms show ?case by (intro exI [of _ s]) auto
  next
    case (Suc n)
    then obtain t where t: "\<And>u. (yields ^^ n) s u \<longleftrightarrow> u = t"
      "curid t # tl (rotate n (curid s # xs)) = rotate n (curid s # xs)"
      "sched_ok t (tl (rotate n (curid s # xs)))" "tstates_ok t (tl (rotate n (curid s # xs)))"
      "locks t = locks s" by blast
    have "tl (rotate n (curid s # xs)) \<noteq> []"
      using assms(3) t(2) by (auto dest: arg_cong [where f = length])
    then obtain y ys where "tl (rotate n (curid s # xs)) = y # ys"
      by (cases "tl (rotate n (curid s # xs))") auto
    with t(2) have r: "rotate n (curid s # xs) = curid t # y # ys" by simp
    with t(3,4) have "sched_ok t (y # ys)" "tstates_ok t (y # ys)" by simp_all
    from yields_turn [OF this] obtain u where u: "yields t u" "\<And>t'. yields t t' \<Longrightarrow> t' = u"
      "sched_ok u (ys @ [curid t])" "tstates_ok u (ys @ [curid t])" "curid u = y" "locks u = locks t"
      by blast
    have "(yields ^^ Suc n) s v \<longleftrightarrow> (\<exists>w. (yields ^^ n) s w \<and> yields w v)" for v
      by (simp only: relpowp.simps relcompp_apply)
    moreover have "yields t v \<longleftrightarrow> v = u" for v by (rule iffI, erule u(2), simp only: u(1))
    ultimately have y: "(yields ^^ Suc n) s v \<longleftrightarrow> v = u" for v by (simp only: t(1) simp_thms ex_simps)
    have "rotate (Suc n) (curid s # xs) = y # ys @ [curid t]" using r by simp
    with u(3-6) t(5) y show ?case by (intro exI [of _ u]) simp
  qed
  then obtain t where t: "\<forall>u. (yields ^^ n) s u \<longleftrightarrow> u = t"
    "curid t # tl (rotate n (curid s # xs)) = rotate n (curid s # xs)"
    "sched_ok t (tl (rotate n (curid s # xs)))" "tstates_ok t (tl (rotate n (curid s # xs)))"
    "locks t = locks s" by blast
  from t(2) have "curid t = hd (rotate n (curid s # xs))" by (metis list.sel(1))
  also have "\<dots> = (curid s # xs) ! (n mod Suc (length xs))"
    using hd_rotate_conv_nth [of "curid s # xs" n] by simp
  finally show ?thesis using t by blast
qed

text \<open>
  C37: Sleeping loses no wakeup. \<^verbatim>\<open>thread_sleep(c, lk)\<close> releases the lock and puts the thread to
  sleep on the channel in one step, switching to the first ready thread. From the state in which
  that thread goes on, a wakeup on the channel makes the sleeper ready and appends it to the
  ready queue (if no ready thread is left with this channel from an earlier wakeup). When the
  sleeper is resumed, in any state where both locks are free, the call returns with the lock
  held again and the channel cleared.
\<close>

theorem thread_sleep_wakeup:
  assumes ok: "sched_ok s (x # xs)" and lk: "lk \<noteq> SchedLk"
    and ch: "\<And>q. q \<in> set (x # xs) \<Longrightarrow> tcb_channel (TCBPool s q) \<noteq> c"
  shows "sleeps (thread_sleep c (Some lk)) s (\<lambda>c' t k. c' = c \<and> curid t = x \<and> sched_ok t xs \<and>
    locks t = (locks s)(lk := unlocked) \<and> tcb_state (TCBPool t (curid s)) = TSTATE_SLEEP \<and>
    returns (thread_wakeup c) t (\<lambda>_ u. \<exists>ys. sched_ok u (xs @ ys) \<and> curid s \<in> set ys \<and>
      tcb_state (TCBPool u (curid s)) = TSTATE_READY) \<and>
    (\<forall>u. cpu_ok u \<and> lock_free u SchedLk \<and> lock_free u lk \<longrightarrow> returns k u (\<lambda>_ v. v =
      taken (u\<lparr>TCBPool := (TCBPool u)(curid s := (TCBPool u (curid s))\<lparr>tcb_channel := ChanNull\<rparr>)\<rparr>) lk)))"
proof (rule sleeps_mono [OF thread_sleep_switch [OF ok lk]], elim conjE, intro conjI)
  fix c' t and k :: "('a sched_scheme, unit) kmon"
  assume c': "c' = c" and k: "k = sleep_tail (curid s) lk" and t: "sched_ok t xs"
    "locks t = (locks s)(lk := unlocked)"
    "switched (curid s) (\<lambda>b. b\<lparr>tcb_state := TSTATE_SLEEP, tcb_channel := c\<rparr>) x s t"
  from ok have d: "curid s \<noteq> x" "curid s < NUM_IDS" by (auto simp: sched_ok_def)
  from t(3) have x: "curid t = x" and u: "\<And>p. unlinked (TCBPool t p) = unlinked (
        if p = x then (TCBPool s p)\<lparr>tcb_state := TSTATE_RUN\<rparr>
        else if p = curid s then (TCBPool s p)\<lparr>tcb_state := TSTATE_SLEEP, tcb_channel := c\<rparr> else TCBPool s p)"
    by (auto simp: switched_def)
  show "c' = c" "curid t = x" "sched_ok t xs" "locks t = (locks s)(lk := unlocked)" by fact+
  show "tcb_state (TCBPool t (curid s)) = TSTATE_SLEEP" using unlinked_fields(1) [OF u, of "curid s"] d by simp
  have chan: "tcb_channel (TCBPool t (curid s)) = c" using unlinked_fields(3) [OF u, of "curid s"] d by simp
  have "tcb_channel (TCBPool t q) = tcb_channel (TCBPool s q)" if "q \<noteq> curid s" for q
    using unlinked_fields(3) [OF u, of q] that by simp
  moreover have "curid s \<notin> set (x # xs)" using ok by (simp add: sched_ok_def)
  ultimately have "tcb_channel (TCBPool t q) \<noteq> c" if "q \<in> set (x # xs)" for q
    using ch [OF that] that by (cases "q = curid s") auto
  then have "no_stale c t xs" by (simp add: no_stale_def x)
  from returns_thread_wakeup [OF t(1) this]
  show "returns (thread_wakeup c) t (\<lambda>_ u. \<exists>ys. sched_ok u (xs @ ys) \<and> curid s \<in> set ys \<and>
      tcb_state (TCBPool u (curid s)) = TSTATE_READY)"
  proof (rule returns_mono, elim conjE)
    fix r v assume v: "sched_ok v (xs @ sleepers c t)" "woken c t v"
    have "curid s \<in> set (sleepers c t)" using chan d by (simp add: sleepers_def)
    moreover have "unlinked (TCBPool v (curid s)) = unlinked ((TCBPool t (curid s))\<lparr>tcb_state := TSTATE_READY\<rparr>)"
      using v(2) chan d unfolding woken_def by (elim conjE allE [of _ "curid s"]) simp
    from unlinked_fields(1) [OF this] have "tcb_state (TCBPool v (curid s)) = TSTATE_READY" by simp
    ultimately show "\<exists>ys. sched_ok v (xs @ ys) \<and> curid s \<in> set ys \<and>
      tcb_state (TCBPool v (curid s)) = TSTATE_READY" using v(1) by blast
  qed
  show "\<forall>u. cpu_ok u \<and> lock_free u SchedLk \<and> lock_free u lk \<longrightarrow> returns k u (\<lambda>_ v. v =
      taken (u\<lparr>TCBPool := (TCBPool u)(curid s := (TCBPool u (curid s))\<lparr>tcb_channel := ChanNull\<rparr>)\<rparr>) lk)"
    using d by (simp add: k returns_def exec_sleep_tail)
qed

text \<open>
  C38: A second wakeup can lose threads. \<^verbatim>\<open>thread_wakeup\<close> looks at the channel of a thread and not
  at its state, and a woken thread keeps its channel until it runs. If the first ready thread p
  is such a thread and others are queued behind it, another wakeup on the channel links p a
  second time: after it, dequeueing gives p and leaves the queue empty, and the threads that were
  behind p, still in the state READY, are in no queue.
\<close>

theorem thread_wakeup_twice_loses_threads:
  assumes ok: "sched_ok s (p # y # ys)" and st: "tstates_ok s (p # y # ys)"
    and p: "tcb_channel (TCBPool s p) = c" and others: "\<And>q. q \<noteq> p \<Longrightarrow> tcb_channel (TCBPool s q) \<noteq> c"
  shows "returns (thread_wakeup c) s (\<lambda>_ t.
    returns (tqueue_dequeue NUM_IDS) t (\<lambda>r u. r = p \<and> tq_repr NUM_IDS u [] \<and>
      (\<forall>q \<in> set (y # ys). tcb_state (TCBPool u q) = TSTATE_READY)))"
proof -
  define s0 where "s0 = taken s SchedLk"
  define z where "z = last (y # ys)"
  have n: "NUM_IDS < NUM_IDS + NUM_CPUS" by (simp add: kconst)
  from ok have s: "cpu_ok s" "lock_free s SchedLk" "p < NUM_IDS" "p \<notin> set (y # ys)" "z < NUM_IDS" "z \<noteq> p"
      "tq_head (TQueuePool s NUM_IDS) = p" "tq_tail (TQueuePool s NUM_IDS) = z" "p \<noteq> NUM_IDS" "z \<noteq> NUM_IDS"
    using last_in_set [of "y # ys"]
    by (auto simp: sched_ok_def tq_repr_def z_def)
  let ?P = "(TCBPool s)(p := (TCBPool s p)\<lparr>tcb_state := TSTATE_READY, tcb_prev := z, tcb_next := NUM_IDS\<rparr>,
     z := (TCBPool s z)\<lparr>tcb_next := p\<rparr>)"
  let ?Q = "(TQueuePool s)(NUM_IDS := (TQueuePool s NUM_IDS)\<lparr>tq_tail := p\<rparr>)"
  let ?s1 = "s0\<lparr>TCBPool := ?P, TQueuePool := ?Q\<rparr>"
  have loop: "returns (kfor 0 NUM_IDS (\<lambda>pid.
        kbind (kbind (tcb_get_chan pid) (\<lambda>c'. kret (c = c'))) (\<lambda>b.
          kwhen b (kthen (tcb_set_state pid TSTATE_READY) (tqueue_enqueue NUM_IDS pid))))) s0
      (\<lambda>_ t. t = (if NUM_IDS \<le> p then s0 else ?s1))"
  proof (rule returns_kfor [where I = "\<lambda>j t. t = (if j \<le> p then s0 else ?s1)"])
    fix j t assume j: "j < NUM_IDS" and t: "t = (if j \<le> p then s0 else ?s1)"
    have c: "tcb_channel (TCBPool t j) = tcb_channel (TCBPool s j)"
      using s(6) by (simp add: t s0_def)
    have e: "j = p \<Longrightarrow> tqueue_enqueue NUM_IDS p (s0\<lparr>TCBPool := (TCBPool s)(p := (TCBPool s p)\<lparr>tcb_state := TSTATE_READY\<rparr>)\<rparr>) = Ret () ?s1"
      using s n by (simp add: tqueue_enqueue_def tcb_simps tq_simps kexec s0_def fun_upd_twist [of z p])
    show "returns (kbind (kbind (tcb_get_chan j) (\<lambda>c'. kret (c = c'))) (\<lambda>b.
          kwhen b (kthen (tcb_set_state j TSTATE_READY) (tqueue_enqueue NUM_IDS j)))) t
        (\<lambda>_ u. u = (if Suc j \<le> p then s0 else ?s1))"
    proof (cases "j = p")
      case True
      then show ?thesis using j c p e t by (simp add: returns_def kexec s0_def)
    next
      case False
      then show ?thesis using j c others [of j] t by (simp add: returns_def kexec eq_commute [of c])
    qed
  qed (use s in auto)
  let ?t = "s\<lparr>TCBPool := ?P, TQueuePool := ?Q\<rparr>"
  from loop have w: "thread_wakeup c s = Ret () ?t"
    using s unfolding returns_def s0_def
    by (simp add: thread_wakeup_def kexec split: outcome.splits)
      (simp add: taken_def lock_free_def fun_upd_idem)
  have "returns (tqueue_dequeue NUM_IDS) ?t (\<lambda>r u. r = p \<and>
      tq_head (TQueuePool u NUM_IDS) = NUM_IDS \<and> tq_tail (TQueuePool u NUM_IDS) = NUM_IDS \<and>
      (\<forall>q. tcb_state (TCBPool u q) = tcb_state (?P q)))"
    using s n by (simp add: tqueue_dequeue_def tcb_simps tq_simps kwp)
  moreover have "tcb_state (?P q) = TSTATE_READY" if "q \<in> set (y # ys)" for q
    using st that by (auto simp: tstates_ok_def)
  ultimately have "returns (tqueue_dequeue NUM_IDS) ?t (\<lambda>r u. r = p \<and> tq_repr NUM_IDS u [] \<and>
      (\<forall>q \<in> set (y # ys). tcb_state (TCBPool u q) = TSTATE_READY))"
    using n by (elim returns_mono) (simp add: tq_repr_def)
  with w show ?thesis by (simp only: returns_Ret [where m = "thread_wakeup c", OF w])
qed

section \<open>A concrete state\<close>

definition sched_ex :: sched where
  "sched_ex = thr.extend thr_ex (sched.fields
     (\<lambda>p. \<lparr>kctx_esp = of_nat p, kctx_edi = 0, kctx_esi = 0, kctx_ebx = 0, kctx_ebp = 0, kctx_eip = 0\<rparr>)
     \<lparr>kctx_esp = 0, kctx_edi = 0, kctx_esi = 0, kctx_ebx = 0, kctx_ebp = 0, kctx_eip = 0\<rparr> 0x200000 (\<lambda>_. 0))"

lemmas sched_ex_defs = sched_ex_def thr_ex_def percpu_ex_def thr.defs percpu.defs vmm.defs sched.defs vm_ex_defs tcb0_def

lemma sched_ex_ok: "sched_ok sched_ex [1, 2]" "tstates_ok sched_ex [1, 2]" "curid sched_ex = 0"
  by (simp_all add: sched_ok_def tstates_ok_def tq_repr_def cpu_ok_def kstack_ok_def lock_free_def
      sched_ex_defs kconst)

theorem thread_yield_round_robin_witness:
  "\<exists>t. (\<forall>u. (yields ^^ 4) sched_ex u \<longleftrightarrow> u = t) \<and> curid t = 1 \<and> sched_ok t [2, 0]"
proof -
  have r: "rotate 4 [0 :: nat, 1, 2] = [1, 2, 0]" by code_simp
  show ?thesis
    using thread_yield_round_robin [OF sched_ex_ok(1,2) list.distinct(2), of 4]
    unfolding sched_ex_ok(3) r by (elim exE conjE, intro exI conjI) simp_all
qed

theorem thread_sleep_wakeup_witness:
  "sleeps (thread_sleep (ChanFlock 7) (Some (FlockLk 7))) sched_ex (\<lambda>c t k. c = ChanFlock 7 \<and> curid t = 1 \<and>
    returns (thread_wakeup c) t (\<lambda>_ u. \<exists>ys. sched_ok u ([2] @ ys) \<and> 0 \<in> set ys))"
proof (rule sleeps_mono [OF thread_sleep_wakeup [OF sched_ex_ok(1)]])
  show "FlockLk 7 \<noteq> SchedLk" by simp
  show "tcb_channel (TCBPool sched_ex q) \<noteq> ChanFlock 7" for q by (simp add: sched_ex_defs)
  fix c :: chan and t and k :: "(sched, unit) kmon"
  assume *: "c = ChanFlock 7 \<and> curid t = 1 \<and> sched_ok t [2] \<and>
    locks t = (locks sched_ex)(FlockLk 7 := unlocked) \<and> tcb_state (TCBPool t (curid sched_ex)) = TSTATE_SLEEP \<and>
    returns (thread_wakeup (ChanFlock 7)) t (\<lambda>_ u. \<exists>ys. sched_ok u ([2] @ ys) \<and> curid sched_ex \<in> set ys \<and>
      tcb_state (TCBPool u (curid sched_ex)) = TSTATE_READY) \<and>
    (\<forall>u. cpu_ok u \<and> lock_free u SchedLk \<and> lock_free u (FlockLk 7) \<longrightarrow> returns k u (\<lambda>_ v. v =
      taken (u\<lparr>TCBPool := (TCBPool u)(curid sched_ex := (TCBPool u (curid sched_ex))\<lparr>tcb_channel := ChanNull\<rparr>)\<rparr>) (FlockLk 7)))"
  then have c: "c = ChanFlock 7" and w: "returns (thread_wakeup (ChanFlock 7)) t (\<lambda>_ u. \<exists>ys. sched_ok u ([2] @ ys) \<and>
      0 \<in> set ys \<and> tcb_state (TCBPool u 0) = TSTATE_READY)"
    unfolding sched_ex_ok(3) by blast+
  have "returns (thread_wakeup c) t (\<lambda>_ u. \<exists>ys. sched_ok u ([2] @ ys) \<and> 0 \<in> set ys)"
    unfolding c by (rule returns_mono [OF w]) blast
  with * show "c = ChanFlock 7 \<and> curid t = 1 \<and>
    returns (thread_wakeup c) t (\<lambda>_ u. \<exists>ys. sched_ok u ([2] @ ys) \<and> 0 \<in> set ys)" by blast
qed

definition sched_stale :: sched where
  "sched_stale = sched_ex\<lparr>TCBPool := (TCBPool sched_ex)(1 := (TCBPool sched_ex 1)\<lparr>tcb_channel := ChanLog\<rparr>)\<rparr>"

theorem thread_wakeup_twice_loses_threads_witness:
  "returns (thread_wakeup ChanLog) sched_stale (\<lambda>_ t.
    returns (tqueue_dequeue NUM_IDS) t (\<lambda>r u. r = 1 \<and> tq_repr NUM_IDS u [] \<and>
      (\<forall>q \<in> set [2]. tcb_state (TCBPool u q) = TSTATE_READY)))"
proof (rule thread_wakeup_twice_loses_threads)
  show "sched_ok sched_stale [1, 2]" "tstates_ok sched_stale [1, 2]"
    using sched_ex_ok by (simp_all add: sched_stale_def sched_ok_def tstates_ok_def tq_repr_rep)
  show "tcb_channel (TCBPool sched_stale 1) = ChanLog" by (simp add: sched_stale_def)
  show "tcb_channel (TCBPool sched_stale q) \<noteq> ChanLog" if "q \<noteq> 1" for q
    using that by (simp add: sched_stale_def sched_ex_defs)
qed

end
