(* ===== verification/Flock.thy ===== *)
theory Flock
  imports Thread
begin

text \<open>
  Advisory file locks: \<^verbatim>\<open>kern/flock/flock.c\<close>, and the file table entries that hold them,
  \<^verbatim>\<open>file_flock\<close> and the lock part of \<^verbatim>\<open>file_close\<close> of \<^verbatim>\<open>kern/fs/file.c\<close>.

  Every slot of the inode cache contains a \<^verbatim>\<open>flock_t\<close>; the lock of slot \<open>i\<close> is \<open>flocks s i\<close>, its
  spinlock is \<open>FlockLk i\<close> and its sleep channel is \<open>ChanFlock i\<close>. An open file is an entry of
  \<open>ftable\<close>, and its field \<open>f_ip\<close> is the slot of its inode. Counters are C integers; they are
  bounded by the number of open files and threads, so that they are modelled by integers.
\<close>

section \<open>State\<close>

definition LOCK_SH :: u32 where [kconst]: "LOCK_SH = 1"
definition LOCK_EX :: u32 where [kconst]: "LOCK_EX = 2"
definition LOCK_UN :: u32 where [kconst]: "LOCK_UN = 8"
definition LOCK_NB :: u32 where [kconst]: "LOCK_NB = 4"

definition NINODE :: nat where [kconst]: "NINODE = 50"
definition NFILE :: nat where [kconst]: "NFILE = 100"

datatype flock_state = FLOCK_INACTIVE | FLOCK_SHARED | FLOCK_EXCLUSIVE

record waitq =
  wq_pids :: "nat \<Rightarrow> nat"
  wq_len :: nat
  wq_inq :: "nat \<Rightarrow> u8"
  wq_req :: "nat \<Rightarrow> u8"

record flock_t =
  fl_state :: flock_state
  shared_holders :: int
  waiting_shared :: int
  waiting_exclusive :: int
  waitq :: waitq

datatype fd_type = FD_NONE | FD_PIPE | FD_INODE

record file_t =
  f_type :: fd_type
  f_ref :: int
  readable :: bool
  writable :: bool
  f_ip :: nat
  f_off :: u32
  holding_flock :: u32

record flk = sched +
  flocks :: "nat \<Rightarrow> flock_t"
  ftable :: "nat \<Rightarrow> file_t"

definition get_fl :: "nat \<Rightarrow> (flock_t \<Rightarrow> 'a) \<Rightarrow> ('z flk_scheme, 'a) kmon" where
  "get_fl i g = kthen (kindex i NINODE) (kget (\<lambda>s. g (flocks s i)))"

definition upd_fl :: "nat \<Rightarrow> (flock_t \<Rightarrow> flock_t) \<Rightarrow> ('z flk_scheme, unit) kmon" where
  "upd_fl i g = kthen (kindex i NINODE) (kmodify (\<lambda>s. s\<lparr>flocks := (flocks s)(i := g (flocks s i))\<rparr>))"

definition get_file :: "nat \<Rightarrow> (file_t \<Rightarrow> 'a) \<Rightarrow> ('z flk_scheme, 'a) kmon" where
  "get_file f g = kthen (kindex f NFILE) (kget (\<lambda>s. g (ftable s f)))"

definition upd_file :: "nat \<Rightarrow> (file_t \<Rightarrow> file_t) \<Rightarrow> ('z flk_scheme, unit) kmon" where
  "upd_file f g = kthen (kindex f NFILE) (kmodify (\<lambda>s. s\<lparr>ftable := (ftable s)(f := g (ftable s f))\<rparr>))"

section \<open>The wait queue\<close>

definition waitq_add :: "nat \<Rightarrow> nat \<Rightarrow> u32 \<Rightarrow> ('z flk_scheme, unit) kmon" where
  "waitq_add i pid req =
     (if pid \<ge> NUM_IDS then kret ()
      else kthen (kindex pid NUM_IDS) (kbind (get_fl i waitq) (\<lambda>q.
        if wq_inq q pid \<noteq> 0 then
          upd_fl i (\<lambda>fl. fl\<lparr>waitq := q\<lparr>wq_req := (wq_req q)(pid := ucast req)\<rparr>\<rparr>)
        else kwhen (wq_len q < NUM_IDS)
          (kthen (kindex (wq_len q) NUM_IDS)
          (upd_fl i (\<lambda>fl. fl\<lparr>waitq := q\<lparr>wq_pids := (wq_pids q)(wq_len q := pid), wq_len := wq_len q + 1,
             wq_inq := (wq_inq q)(pid := 1), wq_req := (wq_req q)(pid := ucast req)\<rparr>\<rparr>))))))"

text \<open>
  The scan of \<^verbatim>\<open>waitq_remove\<close>: the entries after the first occurrence move down by one. The scan reads
  entries below \<^verbatim>\<open>len\<close> only; that these are in the array is tested before it.
\<close>

function waitq_shift :: "nat \<Rightarrow> (nat \<Rightarrow> nat) \<Rightarrow> nat \<Rightarrow> (nat \<Rightarrow> nat)" where
  "waitq_shift i pids len = (if i + 1 < len then waitq_shift (i + 1) (pids(i := pids (i + 1))) len else pids)"
  by pat_completeness auto
termination
  by (relation "measure (\<lambda>(i, pids, len). len - i)") auto

function waitq_scan :: "nat \<Rightarrow> (nat \<Rightarrow> nat) \<Rightarrow> nat \<Rightarrow> nat \<Rightarrow> (nat \<Rightarrow> nat) \<times> nat" where
  "waitq_scan i pids len pid =
     (if i < len then
        if pids i = pid then (waitq_shift i pids len, len - 1) else waitq_scan (i + 1) pids len pid
      else (pids, len))"
  by pat_completeness auto
termination
  by (relation "measure (\<lambda>(i, pids, len, pid). len - i)") auto

declare waitq_shift.simps [simp del] waitq_scan.simps [simp del]

definition waitq_remove :: "nat \<Rightarrow> nat \<Rightarrow> ('z flk_scheme, unit) kmon" where
  "waitq_remove i pid =
     (if pid \<ge> NUM_IDS then kret ()
      else kthen (kindex pid NUM_IDS) (kbind (get_fl i waitq) (\<lambda>q.
        kwhen (wq_inq q pid \<noteq> 0)
          (kthen (kspan 0 (wq_len q) NUM_IDS)
          (upd_fl i (\<lambda>fl. fl\<lparr>waitq := (case waitq_scan 0 (wq_pids q) (wq_len q) pid of (pids, len) \<Rightarrow>
             q\<lparr>wq_pids := pids, wq_len := len, wq_inq := (wq_inq q)(pid := 0), wq_req := (wq_req q)(pid := 0)\<rparr>)\<rparr>))))))"

definition flock_init :: "nat \<Rightarrow> ('z flk_scheme, unit) kmon" where
  "flock_init i =
     kthen (spinlock_init (FlockLk i))
       (upd_fl i (\<lambda>fl. fl\<lparr>fl_state := FLOCK_INACTIVE, shared_holders := 0, waiting_shared := 0,
          waiting_exclusive := 0,
          waitq := (waitq fl)\<lparr>wq_len := 0,
            wq_inq := (\<lambda>p. if p < NUM_IDS then 0 else wq_inq (waitq fl) p),
            wq_req := (\<lambda>p. if p < NUM_IDS then 0 else wq_req (waitq fl) p)\<rparr>\<rparr>))"

section \<open>Acquiring and releasing\<close>

definition blocked_sh :: "flock_t \<Rightarrow> bool" where
  "blocked_sh fl = (fl_state fl = FLOCK_EXCLUSIVE \<or> waiting_exclusive fl > 0)"

definition blocked_ex :: "flock_t \<Rightarrow> bool" where
  "blocked_ex fl = (fl_state fl \<noteq> FLOCK_INACTIVE)"

text \<open>\<^verbatim>\<open>while (blocked) thread_sleep(fl, &fl->lock)\<close>\<close>

definition wait_while :: "nat \<Rightarrow> (flock_t \<Rightarrow> bool) \<Rightarrow> ('z flk_scheme, unit) kmon" where
  "wait_while i blocked = kloop (kbind (get_fl i blocked) (\<lambda>b.
     if b then kthen (thread_sleep (ChanFlock i) (Some (FlockLk i))) (kret None) else kret (Some ())))"

definition grant_shared :: "nat \<Rightarrow> ('z flk_scheme, int) kmon" where
  "grant_shared i = kthen (upd_fl i (\<lambda>fl. fl\<lparr>fl_state := FLOCK_SHARED, shared_holders := shared_holders fl + 1\<rparr>)) (kret 0)"

definition grant_exclusive :: "nat \<Rightarrow> ('z flk_scheme, int) kmon" where
  "grant_exclusive i = kthen (upd_fl i (\<lambda>fl. fl\<lparr>fl_state := FLOCK_EXCLUSIVE\<rparr>)) (kret 0)"

text \<open>The parts of \<^verbatim>\<open>try_acquire_shared\<close> and \<^verbatim>\<open>try_acquire_exclusive\<close> from the loop on.\<close>

definition await_shared :: "nat \<Rightarrow> nat \<Rightarrow> ('z flk_scheme, int) kmon" where
  "await_shared i pid =
     kthen (wait_while i blocked_sh)
    (kthen (upd_fl i (\<lambda>fl. fl\<lparr>waiting_shared := waiting_shared fl - 1\<rparr>))
    (kthen (waitq_remove i pid)
           (grant_shared i)))"

definition await_exclusive :: "nat \<Rightarrow> nat \<Rightarrow> ('z flk_scheme, int) kmon" where
  "await_exclusive i pid =
     kthen (wait_while i blocked_ex)
    (kthen (upd_fl i (\<lambda>fl. fl\<lparr>waiting_exclusive := waiting_exclusive fl - 1\<rparr>))
    (kthen (waitq_remove i pid)
           (grant_exclusive i)))"

definition try_acquire_shared :: "nat \<Rightarrow> bool \<Rightarrow> ('z flk_scheme, int) kmon" where
  "try_acquire_shared i nonblocking =
     kbind get_curid (\<lambda>pid.
     kbind (get_fl i blocked_sh) (\<lambda>b.
       if b then
         if nonblocking then kret (-1)
         else
           kthen (waitq_add i pid LOCK_SH)
          (kthen (upd_fl i (\<lambda>fl. fl\<lparr>waiting_shared := waiting_shared fl + 1\<rparr>))
                 (await_shared i pid))
       else grant_shared i))"

definition try_acquire_exclusive :: "nat \<Rightarrow> bool \<Rightarrow> ('z flk_scheme, int) kmon" where
  "try_acquire_exclusive i nonblocking =
     kbind get_curid (\<lambda>pid.
     kbind (get_fl i blocked_ex) (\<lambda>b.
       if b then
         if nonblocking then kret (-1)
         else
           kthen (waitq_add i pid LOCK_EX)
          (kthen (upd_fl i (\<lambda>fl. fl\<lparr>waiting_exclusive := waiting_exclusive fl + 1\<rparr>))
                 (await_exclusive i pid))
       else grant_exclusive i))"

definition flock_acquire :: "nat \<Rightarrow> u32 \<Rightarrow> ('z flk_scheme, int) kmon" where
  "flock_acquire i operation =
     (let nonblocking = (operation AND LOCK_NB \<noteq> 0);
          lock_type = operation AND NOT LOCK_NB in
      kthen (spinlock_acquire (FlockLk i))
     (kbind
        (if lock_type = LOCK_SH then try_acquire_shared i nonblocking
         else if lock_type = LOCK_EX then try_acquire_exclusive i nonblocking
         else if lock_type = LOCK_UN then kret 0
         else kret (-1)) (\<lambda>result.
      kthen (spinlock_release (FlockLk i)) (kret result))))"

definition flock_release :: "nat \<Rightarrow> u32 \<Rightarrow> ('z flk_scheme, int) kmon" where
  "flock_release i lock_type =
     kthen (spinlock_acquire (FlockLk i))
       (if lock_type = LOCK_SH then
          kbind (get_fl i (\<lambda>fl. fl)) (\<lambda>fl.
          kbind (if fl_state fl = FLOCK_SHARED \<and> shared_holders fl > 0 then
               kthen (upd_fl i (\<lambda>fl. fl\<lparr>shared_holders := shared_holders fl - 1\<rparr>))
              (kbind (get_fl i shared_holders) (\<lambda>n.
                 if n = 0 then kthen (upd_fl i (\<lambda>fl. fl\<lparr>fl_state := FLOCK_INACTIVE\<rparr>)) (kret True)
                 else kret False))
             else kret False) (\<lambda>need_wakeup.
          kthen (kwhen need_wakeup (thread_wakeup (ChanFlock i)))
         (kthen (spinlock_release (FlockLk i)) (kret 0))))
        else if lock_type = LOCK_EX then
          kbind (get_fl i fl_state) (\<lambda>st.
          kbind (if st = FLOCK_EXCLUSIVE then
                   kthen (upd_fl i (\<lambda>fl. fl\<lparr>fl_state := FLOCK_INACTIVE\<rparr>)) (kret True)
                 else kret False) (\<lambda>need_wakeup.
          kthen (kwhen need_wakeup (thread_wakeup (ChanFlock i)))
         (kthen (spinlock_release (FlockLk i)) (kret 0))))
        else kthen (spinlock_release (FlockLk i)) (kret (-1)))"

section \<open>Locks of open files\<close>

definition file_flock :: "nat \<Rightarrow> u32 \<Rightarrow> ('z flk_scheme, int) kmon" where
  "file_flock f operation =
     (let lock_type = operation AND NOT LOCK_NB in
      kbind (get_file f (\<lambda>fl. fl)) (\<lambda>fl.
        if f_type fl \<noteq> FD_INODE then kret (-1)
        else if lock_type = LOCK_UN then
          if holding_flock fl \<noteq> 0 then
            kbind (flock_release (f_ip fl) (holding_flock fl)) (\<lambda>result.
              kthen (kwhen (result = 0) (upd_file f (\<lambda>fl. fl\<lparr>holding_flock := 0\<rparr>))) (kret result))
          else kret 0
        else if holding_flock fl \<noteq> 0 \<and> holding_flock fl = lock_type then kret 0
        else
          kthen (kwhen (holding_flock fl \<noteq> 0)
                   (kbind (flock_release (f_ip fl) (holding_flock fl)) (\<lambda>_.
                      upd_file f (\<lambda>fl. fl\<lparr>holding_flock := 0\<rparr>))))
         (kbind (flock_acquire (f_ip fl) operation) (\<lambda>result.
            kthen (kwhen (result = 0) (upd_file f (\<lambda>fl. fl\<lparr>holding_flock := lock_type\<rparr>))) (kret result)))))"

definition file_init :: "('z flk_scheme, unit) kmon" where
  "file_init = spinlock_init FtableLk"

definition file_alloc :: "('z flk_scheme, nat option) kmon" where
  "file_alloc =
     kthen (spinlock_acquire FtableLk)
    (kbind (kscan 0 NFILE (\<lambda>f.
        kbind (get_file f f_ref) (\<lambda>ref.
          if ref = 0 then
            kthen (upd_file f (\<lambda>fl. fl\<lparr>f_ref := 1, holding_flock := 0\<rparr>)) (kret (Some f))
          else kret None))) (\<lambda>r.
     kthen (spinlock_release FtableLk) (kret r)))"

definition file_dup :: "nat \<Rightarrow> ('z flk_scheme, nat) kmon" where
  "file_dup f =
     kthen (spinlock_acquire FtableLk)
    (kbind (get_file f f_ref) (\<lambda>ref.
       if ref < 1 then kpanic ''file_dup''
       else kthen (upd_file f (\<lambda>fl. fl\<lparr>f_ref := f_ref fl + 1\<rparr>))
           (kthen (spinlock_release FtableLk) (kret f))))"

text \<open>
  \<^verbatim>\<open>file_close\<close> up to the release of the file's lock. The result is the inode whose reference is
  to be dropped, if this was the last reference to a file of type \<^verbatim>\<open>FD_INODE\<close>.
\<close>

definition file_close_locks :: "nat \<Rightarrow> ('z flk_scheme, nat option) kmon" where
  "file_close_locks f =
     kthen (spinlock_acquire FtableLk)
    (kbind (get_file f f_ref) (\<lambda>ref.
       if ref < 1 then kpanic ''file_close''
       else
         kthen (upd_file f (\<lambda>fl. fl\<lparr>f_ref := ref - 1\<rparr>))
           (if ref - 1 > 0 then kthen (spinlock_release FtableLk) (kret None)
            else
              kbind (get_file f (\<lambda>fl. fl)) (\<lambda>ff.
              kthen (upd_file f (\<lambda>fl. fl\<lparr>f_ref := 0, f_type := FD_NONE\<rparr>))
             (kthen (spinlock_release FtableLk)
                (if f_type ff = FD_INODE then
                   kthen (kwhen (holding_flock ff \<noteq> 0)
                            (kbind (flock_release (f_ip ff) (holding_flock ff)) (\<lambda>_. kret ())))
                     (kret (Some (f_ip ff)))
                 else kret None))))))"

section \<open>The wait queue as a list\<close>

definition wq_list :: "waitq \<Rightarrow> nat list" where
  "wq_list q = map (wq_pids q) [0..<wq_len q]"

lemma waitq_shift_eq:
  "waitq_shift i pids len = (\<lambda>j. if i \<le> j \<and> j + 1 < len then pids (j + 1) else pids j)"
proof (induction i pids len rule: waitq_shift.induct)
  case (1 i pids len)
  show ?case
  proof (cases "i + 1 < len")
    case True
    with 1 have ih: "waitq_shift (i + 1) (pids(i := pids (i + 1))) len =
        (\<lambda>j. if i + 1 \<le> j \<and> j + 1 < len then (pids(i := pids (i + 1))) (j + 1) else (pids(i := pids (i + 1))) j)"
      by blast
    have "waitq_shift i pids len = waitq_shift (i + 1) (pids(i := pids (i + 1))) len"
      using True by (simp add: waitq_shift.simps [of i])
    with ih True show ?thesis by (auto simp: fun_eq_iff)
  next
    case False
    then show ?thesis by (auto simp: waitq_shift.simps [of i] fun_eq_iff)
  qed
qed

lemma waitq_scan_eq:
  assumes "waitq_scan i pids len pid = (pids', len')" and "i \<le> len"
    and "pid \<notin> set (map pids [0..<i])"
  shows "map pids' [0..<len'] = remove1 pid (map pids [0..<len])"
  using assms
proof (induction i pids len pid arbitrary: rule: waitq_scan.induct)
  case (1 i pids len pid)
  show ?case
  proof (cases "i < len")
    case True
    note i = this
    show ?thesis
    proof (cases "pids i = pid")
      case True
      with 1 i have r: "pids' = waitq_shift i pids len" "len' = len - 1"
        by (auto simp: waitq_scan.simps [of i])
      have "[0..<len] = [0..<i] @ i # [Suc i..<len]" 
        using i upt_add_eq_append [of 0 i "len - i"] by (simp add: upt_conv_Cons)
      then have "remove1 pid (map pids [0..<len]) = map pids [0..<i] @ map pids [Suc i..<len]"
        using True 1(4) by (simp add: remove1_append)
      also have "map pids [Suc i..<len] = map (\<lambda>j. pids (j + 1)) [i..<len - 1]"
        using i by (intro nth_equalityI) auto
      also have "map pids [0..<i] @ map (\<lambda>j. pids (j + 1)) [i..<len - 1] = map pids' [0..<len']"
        using i unfolding r waitq_shift_eq by (intro nth_equalityI) (auto simp: nth_append)
      finally show ?thesis by simp
    next
      case False
      with 1 i show ?thesis by (auto simp: waitq_scan.simps [of i] less_Suc_eq)
    qed
  next
    case False
    with 1 have "pid \<notin> set (map pids [0..<len])" "pids' = pids" "len' = len"
      by (auto simp: waitq_scan.simps [of i])
    then show ?thesis by (simp add: remove1_idem)
  qed
qed

definition wq_added :: "nat \<Rightarrow> u32 \<Rightarrow> waitq \<Rightarrow> waitq" where
  "wq_added pid req q = q\<lparr>wq_pids := (wq_pids q)(wq_len q := pid), wq_len := wq_len q + 1,
     wq_inq := (wq_inq q)(pid := 1), wq_req := (wq_req q)(pid := ucast req)\<rparr>"

definition wq_removed :: "nat \<Rightarrow> waitq \<Rightarrow> waitq" where
  "wq_removed pid q = (case waitq_scan 0 (wq_pids q) (wq_len q) pid of (pids, len) \<Rightarrow>
     q\<lparr>wq_pids := pids, wq_len := len, wq_inq := (wq_inq q)(pid := 0), wq_req := (wq_req q)(pid := 0)\<rparr>)"

lemma wq_list_added: "wq_list (wq_added pid req q) = wq_list q @ [pid]"
  by (simp add: wq_list_def wq_added_def)

lemma wq_list_removed: "wq_list (wq_removed pid q) = remove1 pid (wq_list q)"
  using waitq_scan_eq [of 0 "wq_pids q" "wq_len q" pid]
  by (simp add: wq_list_def wq_removed_def split: prod.split)

lemma wq_fields:
  "wq_inq (wq_added pid req q) = (wq_inq q)(pid := 1)" "wq_req (wq_added pid req q) = (wq_req q)(pid := ucast req)"
  "wq_inq (wq_removed pid q) = (wq_inq q)(pid := 0)" "wq_req (wq_removed pid q) = (wq_req q)(pid := 0)"
  by (simp_all add: wq_added_def wq_removed_def split: prod.split)

section \<open>The lock invariant\<close>

text \<open>
  A thread that waits in \<^verbatim>\<open>flock_acquire\<close> is described by its file, the slot of the inode and the
  type of lock it wants; \<open>w\<close> gives the description of every thread that waits. The invariant
  relates the lock of a slot with the open files that hold it and the threads that wait for it.
\<close>

type_synonym waiting = "nat \<Rightarrow> (nat \<times> nat \<times> u32) option"

definition holders :: "(nat \<Rightarrow> file_t) \<Rightarrow> nat \<Rightarrow> u32 \<Rightarrow> nat set" where
  "holders T i ty = {f. f < NFILE \<and> f_type (T f) = FD_INODE \<and> f_ip (T f) = i \<and> holding_flock (T f) = ty}"

definition waiters :: "waiting \<Rightarrow> nat \<Rightarrow> u32 \<Rightarrow> nat set" where
  "waiters w i ty = {p. \<exists>f. w p = Some (f, i, ty)}"

definition lock_ok :: "flock_t \<Rightarrow> nat set \<Rightarrow> nat set \<Rightarrow> bool" where
  "lock_ok fl sh ex = (
     fl_state fl = (if ex \<noteq> {} then FLOCK_EXCLUSIVE else if sh \<noteq> {} then FLOCK_SHARED else FLOCK_INACTIVE) \<and>
     shared_holders fl = int (card sh) \<and> card ex \<le> 1 \<and> (ex = {} \<or> sh = {}))"

definition waitq_ok :: "flock_t \<Rightarrow> nat set \<Rightarrow> nat set \<Rightarrow> bool" where
  "waitq_ok fl sh ex = (distinct (wq_list (waitq fl)) \<and> set (wq_list (waitq fl)) = sh \<union> ex \<and>
     sh \<union> ex \<subseteq> {..<NUM_IDS} \<and> sh \<inter> ex = {} \<and>
     (\<forall>p < NUM_IDS. wq_inq (waitq fl) p = (if p \<in> sh \<union> ex then 1 else 0)) \<and>
     (\<forall>p \<in> sh. wq_req (waitq fl) p = 1) \<and> (\<forall>p \<in> ex. wq_req (waitq fl) p = 2) \<and>
     waiting_shared fl = int (card sh) \<and> waiting_exclusive fl = int (card ex))"

definition flock_inv :: "waiting \<Rightarrow> (nat \<Rightarrow> nat) \<Rightarrow> (nat \<Rightarrow> flock_t) \<Rightarrow> (nat \<Rightarrow> file_t) \<Rightarrow> bool" where
  "flock_inv w own F T = (
     (\<forall>i < NINODE. lock_ok (F i) (holders T i LOCK_SH) (holders T i LOCK_EX)) \<and>
     (\<forall>i < NINODE. waitq_ok (F i) (waiters w i LOCK_SH) (waiters w i LOCK_EX)) \<and>
     (\<forall>p f i ty. w p = Some (f, i, ty) \<longrightarrow> p < NUM_IDS \<and> f < NFILE \<and> i < NINODE \<and> ty \<in> {LOCK_SH, LOCK_EX} \<and>
        own f = p \<and> f_type (T f) = FD_INODE \<and> f_ip (T f) = i \<and> holding_flock (T f) = 0) \<and>
     (\<forall>f < NFILE. f_type (T f) = FD_INODE \<longrightarrow> f_ip (T f) < NINODE \<and> holding_flock (T f) \<in> {0, LOCK_SH, LOCK_EX}))"

lemma finite_holders [simp]: "finite (holders T i ty)"
  by (rule finite_subset [of _ "{..<NFILE}"]) (auto simp: holders_def)

lemma lock_types [simp]: "LOCK_SH \<noteq> LOCK_EX" "LOCK_EX \<noteq> LOCK_SH" "LOCK_SH \<noteq> 0" "LOCK_EX \<noteq> 0"
  "LOCK_UN \<noteq> LOCK_SH" "LOCK_UN \<noteq> LOCK_EX" "LOCK_SH \<noteq> LOCK_UN" "LOCK_EX \<noteq> LOCK_UN"
  by (simp_all add: kconst)

text \<open>The steps of the invariant: granting, releasing, starting and ending to wait, closing.\<close>

definition blocked :: "u32 \<Rightarrow> flock_t \<Rightarrow> bool" where
  "blocked ty fl = (if ty = LOCK_SH then blocked_sh fl else blocked_ex fl)"

definition granted :: "u32 \<Rightarrow> flock_t \<Rightarrow> flock_t" where
  "granted ty fl = (if ty = LOCK_SH
     then fl\<lparr>fl_state := FLOCK_SHARED, shared_holders := shared_holders fl + 1\<rparr>
     else fl\<lparr>fl_state := FLOCK_EXCLUSIVE\<rparr>)"

definition released :: "u32 \<Rightarrow> flock_t \<Rightarrow> flock_t" where
  "released ty fl = (if ty = LOCK_SH
     then if fl_state fl = FLOCK_SHARED \<and> shared_holders fl > 0
          then if shared_holders fl = 1 then fl\<lparr>shared_holders := 0, fl_state := FLOCK_INACTIVE\<rparr>
               else fl\<lparr>shared_holders := shared_holders fl - 1\<rparr>
          else fl
     else if fl_state fl = FLOCK_EXCLUSIVE then fl\<lparr>fl_state := FLOCK_INACTIVE\<rparr> else fl)"

definition enlisted :: "nat \<Rightarrow> u32 \<Rightarrow> flock_t \<Rightarrow> flock_t" where
  "enlisted p ty fl = (if ty = LOCK_SH
     then fl\<lparr>waitq := wq_added p ty (waitq fl), waiting_shared := waiting_shared fl + 1\<rparr>
     else fl\<lparr>waitq := wq_added p ty (waitq fl), waiting_exclusive := waiting_exclusive fl + 1\<rparr>)"

definition delisted :: "nat \<Rightarrow> u32 \<Rightarrow> flock_t \<Rightarrow> flock_t" where
  "delisted p ty fl = (if ty = LOCK_SH
     then fl\<lparr>waiting_shared := waiting_shared fl - 1, waitq := wq_removed p (waitq fl)\<rparr>
     else fl\<lparr>waiting_exclusive := waiting_exclusive fl - 1, waitq := wq_removed p (waitq fl)\<rparr>)"

lemma holders_set:
  assumes "f < NFILE" and "f_type (T f) = FD_INODE" and "holding_flock (T f) = 0"
  shows "holders (T(f := (T f)\<lparr>holding_flock := ty\<rparr>)) i ty' =
    (if i = f_ip (T f) \<and> ty' = ty then insert f (holders T i ty') else holders T i ty' - (if ty' = 0 then {f} else {}))"
  using assms by (auto simp: holders_def)

lemma lock_ok_granted:
  assumes "lock_ok fl sh ex" and "finite sh" and "f \<notin> sh" and "f \<notin> ex"
  shows "\<not> blocked_sh fl \<Longrightarrow> lock_ok (granted LOCK_SH fl) (insert f sh) ex"
    and "\<not> blocked_ex fl \<Longrightarrow> lock_ok (granted LOCK_EX fl) sh (insert f ex)"
  using assms by (auto simp: lock_ok_def granted_def blocked_sh_def blocked_ex_def split: if_splits)

lemma lock_ok_released:
  assumes "lock_ok fl sh ex" and "finite sh" and "finite ex"
  shows "f \<in> sh \<Longrightarrow> lock_ok (released LOCK_SH fl) (sh - {f}) ex"
    and "f \<in> ex \<Longrightarrow> lock_ok (released LOCK_EX fl) sh (ex - {f})"
proof -
  assume f: "f \<in> sh"
  then have "card sh > 0" "ex = {}" using assms by (auto simp: lock_ok_def card_gt_0_iff)
  moreover have "sh - {f} = {} \<longleftrightarrow> card sh = 1"
    using f assms(2) by (auto simp: card_1_singleton_iff)
  moreover have "sh \<noteq> {}" using f by auto
  ultimately show "lock_ok (released LOCK_SH fl) (sh - {f}) ex"
    using assms f by (auto simp: lock_ok_def released_def card_Diff_singleton of_nat_diff)
next
  assume f: "f \<in> ex"
  then have "ex = {f}" using assms by (auto simp: lock_ok_def card_le_Suc0_iff_eq)
  then show "lock_ok (released LOCK_EX fl) sh (ex - {f})"
    using assms by (auto simp: lock_ok_def released_def)
qed

lemma lock_ok_waitq [simp]:
  "lock_ok (enlisted p ty fl) sh ex = lock_ok fl sh ex" "lock_ok (delisted p ty fl) sh ex = lock_ok fl sh ex"
  "waitq_ok (granted ty fl) sh ex = waitq_ok fl sh ex" "waitq_ok (released ty fl) sh ex = waitq_ok fl sh ex"
  by (simp_all add: lock_ok_def enlisted_def delisted_def waitq_ok_def granted_def released_def)

lemma waitq_ok_enlisted:
  assumes "waitq_ok fl sh ex" and "p < NUM_IDS" and "p \<notin> sh \<union> ex"
  shows "waitq_ok (enlisted p LOCK_SH fl) (insert p sh) ex" and "waitq_ok (enlisted p LOCK_EX fl) sh (insert p ex)"
proof -
  have "finite sh" "finite ex" using assms(1) by (auto simp: waitq_ok_def intro: finite_subset)
  then show "waitq_ok (enlisted p LOCK_SH fl) (insert p sh) ex" "waitq_ok (enlisted p LOCK_EX fl) sh (insert p ex)"
    using assms by (auto simp: waitq_ok_def enlisted_def wq_list_added wq_fields LOCK_SH_def LOCK_EX_def)
qed

lemma waitq_ok_delisted:
  assumes "waitq_ok fl sh ex"
  shows "p \<in> sh \<Longrightarrow> waitq_ok (delisted p LOCK_SH fl) (sh - {p}) ex"
    and "p \<in> ex \<Longrightarrow> waitq_ok (delisted p LOCK_EX fl) sh (ex - {p})"
proof -
  have fin: "finite sh" "finite ex" using assms(1) by (auto simp: waitq_ok_def intro: finite_subset)
  have c: "int (card A) - 1 = int (card (A - {p}))" if "p \<in> A" "finite A" for A :: "nat set"
    using card_Suc_Diff1 [OF that(2,1)] by linarith
  show "waitq_ok (delisted p LOCK_SH fl) (sh - {p}) ex" if "p \<in> sh"
  proof -
    from that assms have "p \<notin> ex" "(sh - {p}) \<union> ex = sh \<union> ex - {p}" by (auto simp: waitq_ok_def)
    with that assms show ?thesis
      by (simp add: waitq_ok_def delisted_def wq_list_removed wq_fields set_remove1_eq c fin) blast
  qed
  show "waitq_ok (delisted p LOCK_EX fl) sh (ex - {p})" if "p \<in> ex"
  proof -
    from that assms have "p \<notin> sh" "sh \<union> (ex - {p}) = sh \<union> ex - {p}" by (auto simp: waitq_ok_def)
    with that assms show ?thesis
      by (simp add: waitq_ok_def delisted_def wq_list_removed wq_fields set_remove1_eq c fin) blast
  qed
qed

lemma waiters_upd:
  "w p = None \<Longrightarrow> waiters (w(p \<mapsto> (f, i, ty))) i' ty' =
     (if i' = i \<and> ty' = ty then insert p (waiters w i' ty') else waiters w i' ty')"
  "w p = Some (f, i, ty) \<Longrightarrow> waiters (w(p := None)) i' ty' =
     (if i' = i \<and> ty' = ty then waiters w i' ty' - {p} else waiters w i' ty')"
  by (auto simp: waiters_def)

lemma flock_inv_grant:
  assumes inv: "flock_inv w own F T" and f: "f < NFILE" "f_type (T f) = FD_INODE" "holding_flock (T f) = 0"
    and ty: "ty \<in> {LOCK_SH, LOCK_EX}" and free: "\<not> blocked ty (F (f_ip (T f)))"
    and w: "\<And>p i ty. w p \<noteq> Some (f, i, ty)"
  shows "flock_inv w own (F(f_ip (T f) := granted ty (F (f_ip (T f))))) (T(f := (T f)\<lparr>holding_flock := ty\<rparr>))"
proof -
  let ?i = "f_ip (T f)"
  have i: "lock_ok (F ?i) (holders T ?i LOCK_SH) (holders T ?i LOCK_EX)" "?i < NINODE"
    using inv f by (auto simp: flock_inv_def)
  have "f \<notin> holders T ?i LOCK_SH" "f \<notin> holders T ?i LOCK_EX" using f by (auto simp: holders_def)
  with i ty free have "lock_ok (granted ty (F ?i))
      (holders (T(f := (T f)\<lparr>holding_flock := ty\<rparr>)) ?i LOCK_SH) (holders (T(f := (T f)\<lparr>holding_flock := ty\<rparr>)) ?i LOCK_EX)"
    by (auto simp: holders_set [where T = T and f = f, OF f] blocked_def intro: lock_ok_granted)
  with inv ty w show ?thesis
    by (auto simp: flock_inv_def holders_set [where T = T and f = f, OF f])
qed

lemma holders_unset:
  assumes "f < NFILE" and "f_type (T f) = FD_INODE" and "ty' \<noteq> 0"
  shows "holders (T(f := (T f)\<lparr>holding_flock := 0\<rparr>)) i ty' = holders T i ty' - {f}"
  using assms by (auto simp: holders_def)

lemma flock_inv_release:
  assumes inv: "flock_inv w own F T" and f: "f < NFILE" "f_type (T f) = FD_INODE" "holding_flock (T f) \<noteq> 0"
  shows "flock_inv w own (F(f_ip (T f) := released (holding_flock (T f)) (F (f_ip (T f)))))
    (T(f := (T f)\<lparr>holding_flock := 0\<rparr>))"
proof -
  let ?i = "f_ip (T f)" and ?ty = "holding_flock (T f)"
  have i: "lock_ok (F ?i) (holders T ?i LOCK_SH) (holders T ?i LOCK_EX)" "?i < NINODE" "?ty \<in> {LOCK_SH, LOCK_EX}"
    using inv f by (auto simp: flock_inv_def)
  have *: "f \<in> holders T ?i ?ty" "\<And>ty. ty \<noteq> ?ty \<Longrightarrow> f \<notin> holders T ?i ty" using f by (auto simp: holders_def)
  from i(3) have "lock_ok (released ?ty (F ?i)) (holders T ?i LOCK_SH - {f}) (holders T ?i LOCK_EX - {f})"
  proof
    assume "?ty = LOCK_SH"
    with * lock_ok_released(1) [OF i(1), of f] show ?thesis by simp
  next
    assume "?ty \<in> {LOCK_EX}"
    with * lock_ok_released(2) [OF i(1), of f] show ?thesis by simp
  qed
  moreover have "holders T j ty - {f} = holders T j ty" if "j \<noteq> ?i" for j ty
    using that by (auto simp: holders_def)
  ultimately show ?thesis
    using inv f(3) by (auto simp: flock_inv_def holders_unset [where T = T and f = f, OF f(1,2)])
qed

lemma flock_inv_enlist:
  assumes inv: "flock_inv w own F T" and p: "w p = None" "p < NUM_IDS" "own f = p"
    and f: "f < NFILE" "f_type (T f) = FD_INODE" "holding_flock (T f) = 0" and ty: "ty \<in> {LOCK_SH, LOCK_EX}"
  shows "flock_inv (w(p \<mapsto> (f, f_ip (T f), ty))) own (F(f_ip (T f) := enlisted p ty (F (f_ip (T f))))) T"
proof -
  let ?i = "f_ip (T f)"
  have "waitq_ok (F ?i) (waiters w ?i LOCK_SH) (waiters w ?i LOCK_EX)" "?i < NINODE"
    using inv f by (auto simp: flock_inv_def)
  moreover have "p \<notin> waiters w ?i LOCK_SH \<union> waiters w ?i LOCK_EX" using p by (auto simp: waiters_def)
  ultimately have "waitq_ok (enlisted p ty (F ?i)) (waiters (w(p \<mapsto> (f, ?i, ty))) ?i LOCK_SH)
      (waiters (w(p \<mapsto> (f, ?i, ty))) ?i LOCK_EX)"
    using ty p waitq_ok_enlisted by (auto simp: waiters_upd(1) [where w = w, OF p(1)])
  with inv f p ty show ?thesis
    by (auto simp: flock_inv_def waiters_upd(1) [where w = w, OF p(1)])
qed

lemma flock_inv_delist:
  assumes inv: "flock_inv w own F T" and p: "w p = Some (f, i, ty)"
  shows "flock_inv (w(p := None)) own (F(i := delisted p ty (F i))) T"
proof -
  have i: "waitq_ok (F i) (waiters w i LOCK_SH) (waiters w i LOCK_EX)" "i < NINODE" "ty \<in> {LOCK_SH, LOCK_EX}"
    using inv p unfolding flock_inv_def by blast+
  have "p \<in> waiters w i ty" using p by (auto simp: waiters_def)
  with i have "waitq_ok (delisted p ty (F i)) (waiters (w(p := None)) i LOCK_SH) (waiters (w(p := None)) i LOCK_EX)"
    using waitq_ok_delisted by (auto simp: waiters_upd(2) [where w = w, OF p])
  with inv show ?thesis
    by (auto simp: flock_inv_def waiters_upd(2) [where w = w, OF p] split: if_splits)
qed

lemma flock_inv_file:
  assumes inv: "flock_inv w own F T" and w: "\<And>p i ty. w p \<noteq> Some (f, i, ty)"
    and old: "f_type (T f) = FD_INODE \<Longrightarrow> holding_flock (T f) = 0"
    and new: "f_type b = FD_INODE \<Longrightarrow> f_ip b < NINODE \<and> holding_flock b = 0"
  shows "flock_inv w own F (T(f := b))"
proof -
  have "holders (T(f := b)) i ty = holders T i ty" if "ty \<in> {LOCK_SH, LOCK_EX}" for i ty
    using old new that by (auto simp: holders_def)
  with inv w new show ?thesis by (auto simp: flock_inv_def)
qed

section \<open>The functions in any scheduler state\<close>

definition idle :: "'z flk_scheme \<Rightarrow> bool" where
  "idle s = (cpu_ok s \<and> (\<forall>l. lock_free s l))"

definition holds_only :: "lock_id \<Rightarrow> 'z flk_scheme \<Rightarrow> bool" where
  "holds_only l s = (cpu_ok s \<and> (\<forall>l'. l' \<noteq> l \<longrightarrow> lock_free s l'))"

lemma flk_simps [simp]:
  "cpu_ok (s\<lparr>flocks := F\<rparr>) = cpu_ok s" "cpu_ok (s\<lparr>ftable := T\<rparr>) = cpu_ok s"
  "lock_free (s\<lparr>flocks := F\<rparr>) l = lock_free s l" "lock_free (s\<lparr>ftable := T\<rparr>) l = lock_free s l"
  "flocks (taken s l) = flocks s" "ftable (taken s l) = ftable s"
  "asleep c (s\<lparr>flocks := F\<rparr>) p = asleep c s p" "asleep c (s\<lparr>ftable := T\<rparr>) p = asleep c s p"
  "asleep c (u\<lparr>locks := L\<rparr>) p = asleep c u p" "asleep c (taken u l) p = asleep c u p"
  by (simp_all add: cpu_ok_def kstack_ok_def lock_free_def asleep_def taken_def)

lemma safe_flk [ksafe]:
  "safe (get_fl i g) s R S = (i < NINODE \<longrightarrow> R (g (flocks s i)) s)"
  "safe (upd_fl i h) s R' S' = (i < NINODE \<longrightarrow> R' () (s\<lparr>flocks := (flocks s)(i := h (flocks s i))\<rparr>))"
  "safe (get_file f g') s R'' S'' = (f < NFILE \<longrightarrow> R'' (g' (ftable s f)) s)"
  "safe (upd_file f h') s R' S' = (f < NFILE \<longrightarrow> R' () (s\<lparr>ftable := (ftable s)(f := h' (ftable s f))\<rparr>))"
  by (simp_all add: get_fl_def upd_fl_def get_file_def upd_file_def ksafe)

lemma idle_taken:
  assumes "idle s"
  shows "cpu_ok (taken s l)" "l' \<noteq> l \<Longrightarrow> lock_free (taken s l) l'" "cpu_ok s" "lock_free s l'"
    "(locks (taken s l))(l := unlocked) = locks s"
  using assms by (auto simp: idle_def lock_free_def taken_def)

definition unlock_post :: "nat \<Rightarrow> u32 \<Rightarrow> 'z flk_scheme \<Rightarrow> 'z flk_scheme \<Rightarrow> bool" where
  "unlock_post i ty s t = (
     t = s\<lparr>flocks := (flocks s)(i := released ty (flocks s i)), TCBPool := TCBPool t, TQueuePool := TQueuePool t\<rparr> \<and>
     (\<forall>c p. p < NUM_IDS \<longrightarrow> asleep c t p \<longrightarrow> asleep c s p \<and>
        (c = ChanFlock i \<longrightarrow> fl_state (released ty (flocks s i)) = FLOCK_INACTIVE \<longrightarrow>
           fl_state (flocks s i) = FLOCK_INACTIVE)))"

lemma safe_release_wakeup:
  assumes "idle s" and "fl_state fl = FLOCK_INACTIVE" and "fl = released ty (flocks s i)"
  shows "safe (kthen (thread_wakeup (ChanFlock i)) (kthen (spinlock_release (FlockLk i)) (kret (0 :: int))))
      ((taken s (FlockLk i))\<lparr>flocks := (flocks s)(i := fl)\<rparr>) (\<lambda>r t. r = 0 \<and> unlock_post i ty s t) (\<lambda>_ _ _. False)"
proof -
  let ?s1 = "(taken s (FlockLk i))\<lparr>flocks := (flocks s)(i := fl)\<rparr>"
  note id = idle_taken [OF assms(1)]
  have "safe (thread_wakeup (ChanFlock i)) ?s1 (\<lambda>_ t. woken (ChanFlock i) ?s1 t) (\<lambda>_ _ _. False)"
    by (rule safe_thread_wakeup) (use id in simp_all)
  then have "safe (thread_wakeup (ChanFlock i)) ?s1
      (\<lambda>_ t. unlock_post i ty s (t\<lparr>locks := (locks t)(FlockLk i := unlocked)\<rparr>)) (\<lambda>_ _ _. False)"
  proof (rule safe_mono)
    fix t assume w: "woken (ChanFlock i) ?s1 t"
    then obtain P Q where t: "t = ?s1\<lparr>TCBPool := P, TQueuePool := Q\<rparr>" by (auto simp: woken_def)
    have "asleep c s p \<and> c \<noteq> ChanFlock i" if "p < NUM_IDS" "asleep c t p" for c p
      using woken_asleep [OF w that(2,1)] by simp
    moreover have "t\<lparr>locks := (locks t)(FlockLk i := unlocked)\<rparr> =
        s\<lparr>flocks := (flocks s)(i := fl), TCBPool := P, TQueuePool := Q\<rparr>"
      unfolding t using id(5) by (simp add: taken_def)
    moreover have "asleep c (t\<lparr>locks := (locks t)(FlockLk i := unlocked)\<rparr>) p = asleep c t p" for c p by simp
    ultimately show "unlock_post i ty s (t\<lparr>locks := (locks t)(FlockLk i := unlocked)\<rparr>)"
      by (auto simp: unlock_post_def assms(3))
  qed simp
  then show ?thesis by (simp add: ksafe)
qed

lemma safe_flock_release:
  assumes s: "idle s" and i: "i < NINODE" and ty: "ty \<in> {LOCK_SH, LOCK_EX}"
  shows "safe (flock_release i ty) s (\<lambda>r t. r = 0 \<and> unlock_post i ty s t) (\<lambda>_ _ _. False)"
proof -
  note id = idle_taken [OF s]
  have keep: "unlock_post i ty s (s\<lparr>flocks := (flocks s)(i := released ty (flocks s i))\<rparr>)"
    if "fl_state (released ty (flocks s i)) \<noteq> FLOCK_INACTIVE \<or> fl_state (flocks s i) = FLOCK_INACTIVE"
    using that by (auto simp: unlock_post_def asleep_def)
  have locks: "(taken s (FlockLk i))\<lparr>flocks := G, locks := (locks (taken s (FlockLk i)))(FlockLk i := unlocked)\<rparr> =
      s\<lparr>flocks := G\<rparr>" for G
    using id(5) by (simp add: taken_def)
  show ?thesis
  proof (cases "fl_state (released ty (flocks s i)) = FLOCK_INACTIVE \<and> fl_state (flocks s i) \<noteq> FLOCK_INACTIVE")
    case True
    from safe_release_wakeup [OF s conjunct1 [OF True] refl] ty i True id(3,4) show ?thesis
      by (auto simp: flock_release_def ksafe released_def fun_upd_upd split: if_splits)
  next
    case False
    with keep have "unlock_post i ty s (s\<lparr>flocks := (flocks s)(i := released ty (flocks s i))\<rparr>)" by blast
    with False ty i id(3,4) show ?thesis
      using locks [of "flocks s"] locks [of "(flocks s)(i := released ty (flocks s i))"]
      by (auto simp: flock_release_def ksafe released_def fun_upd_upd split: if_splits)
  qed
qed

text \<open>
  The rest of \<^verbatim>\<open>file_flock\<close> for a thread \<open>p\<close> that sleeps in \<^verbatim>\<open>flock_acquire\<close>: it ends \<^verbatim>\<open>thread_sleep\<close>,
  waits until the lock can be granted, and records the lock in the file.
\<close>

definition await :: "u32 \<Rightarrow> nat \<Rightarrow> nat \<Rightarrow> ('z flk_scheme, int) kmon" where
  "await ty i p = (if ty = LOCK_SH then await_shared i p else await_exclusive i p)"

definition acq_done :: "nat \<Rightarrow> nat \<Rightarrow> u32 \<Rightarrow> int \<Rightarrow> ('z flk_scheme, int) kmon" where
  "acq_done f i ty result = kthen (spinlock_release (FlockLk i))
     (kthen (kwhen (result = 0) (upd_file f (\<lambda>fl. fl\<lparr>holding_flock := ty\<rparr>))) (kret result))"

definition wait_cont :: "nat \<Rightarrow> nat \<Rightarrow> nat \<Rightarrow> u32 \<Rightarrow> ('z flk_scheme, int) kmon" where
  "wait_cont p f i ty = kthen (sleep_tail p (FlockLk i)) (kbind (await ty i p) (acq_done f i ty))"

lemma safe_wait_while:
  assumes s: "holds_only (FlockLk i) s" and i: "i < NINODE"
  shows "safe (wait_while i b) s (\<lambda>_ t. t = s \<and> \<not> b (flocks s i))
    (\<lambda>c t k. k = kthen (sleep_tail (curid s) (FlockLk i)) (wait_while i b) \<and> b (flocks s i) \<and>
       sched_frame s t \<and> idle t \<and> curid s < NUM_IDS \<and> (\<forall>c p. asleep c t p \<longrightarrow> asleep c s p \<or> p = curid s))"
proof (cases "b (flocks s i)")
  case True
  show ?thesis
    using True i s
    by (simp add: wait_while_def [of i b] ksafe kbind_assoc)
      (rule safe_mono [OF safe_thread_sleep], auto simp: holds_only_def idle_def lock_free_def wait_while_def kbind_assoc)
next
  case False
  with i show ?thesis by (simp add: wait_while_def ksafe)
qed

lemma waitq_ok_room:
  assumes "waitq_ok fl sh ex" and "p < NUM_IDS" and "p \<notin> sh \<union> ex"
  shows "wq_inq (waitq fl) p = 0" and "wq_len (waitq fl) < NUM_IDS"
proof -
  show "wq_inq (waitq fl) p = 0" using assms by (simp add: waitq_ok_def)
  have "set (wq_list (waitq fl)) \<subseteq> {..<NUM_IDS} - {p}" "distinct (wq_list (waitq fl))"
    using assms by (auto simp: waitq_ok_def)
  then have "length (wq_list (waitq fl)) \<le> card ({..<NUM_IDS} - {p})"
    by (metis card_mono distinct_card finite_Diff finite_lessThan)
  with assms(2) show "wq_len (waitq fl) < NUM_IDS" by (simp add: wq_list_def)
qed

lemma safe_waitq_remove:
  assumes "p < NUM_IDS" and "wq_inq (waitq (flocks s i)) p \<noteq> 0" and "i < NINODE" and "wq_len (waitq (flocks s i)) \<le> NUM_IDS"
  shows "safe (waitq_remove i p) s R S =
    R () (s\<lparr>flocks := (flocks s)(i := (flocks s i)\<lparr>waitq := wq_removed p (waitq (flocks s i))\<rparr>)\<rparr>)"
  using assms by (simp add: waitq_remove_def ksafe wq_removed_def)

lemma safe_waitq_add:
  assumes "p < NUM_IDS" and "wq_inq (waitq (flocks s i)) p = 0" and "wq_len (waitq (flocks s i)) < NUM_IDS"
    and "i < NINODE"
  shows "safe (waitq_add i p req) s R S =
    R () (s\<lparr>flocks := (flocks s)(i := (flocks s i)\<lparr>waitq := wq_added p req (waitq (flocks s i))\<rparr>)\<rparr>)"
  using assms by (simp add: waitq_add_def ksafe wq_added_def)

lemma waiter_inq:
  assumes "flock_inv w own F T" and "w p = Some (f, i, ty)"
  shows "wq_inq (waitq (F i)) p \<noteq> 0" and "i < NINODE" and "p < NUM_IDS" and "f < NFILE" and "ty \<in> {LOCK_SH, LOCK_EX}"
    and "wq_len (waitq (F i)) \<le> NUM_IDS"
proof -
  show *: "i < NINODE" "p < NUM_IDS" "f < NFILE" "ty \<in> {LOCK_SH, LOCK_EX}"
    using assms unfolding flock_inv_def by blast+
  then have q: "waitq_ok (F i) (waiters w i LOCK_SH) (waiters w i LOCK_EX)" using assms(1) by (simp add: flock_inv_def)
  then have "distinct (wq_list (waitq (F i)))" "set (wq_list (waitq (F i))) \<subseteq> {..<NUM_IDS}" by (auto simp: waitq_ok_def)
  then have "length (wq_list (waitq (F i))) \<le> card {..<NUM_IDS}" by (metis card_mono distinct_card finite_lessThan)
  then show "wq_len (waitq (F i)) \<le> NUM_IDS" by (simp add: wq_list_def)
  note q
  moreover have "p \<in> waiters w i LOCK_SH \<union> waiters w i LOCK_EX" using assms(2) * by (auto simp: waiters_def)
  ultimately show "wq_inq (waitq (F i)) p \<noteq> 0" using * by (simp add: waitq_ok_def)
qed

lemma safe_await:
  fixes s :: "'z flk_scheme"
  assumes s: "holds_only (FlockLk i) s" "curid s = p"
    and inv: "wq_inq (waitq (flocks s i)) p \<noteq> 0" "i < NINODE" "p < NUM_IDS" "f < NFILE" "ty \<in> {LOCK_SH, LOCK_EX}"
      "wq_len (waitq (flocks s i)) \<le> NUM_IDS"
  shows "safe (kbind (await ty i p) (acq_done f i ty)) s
    (\<lambda>r t. r = 0 \<and> \<not> blocked ty (flocks s i) \<and> idle t \<and> TCBPool t = TCBPool s \<and>
       flocks t = (flocks s)(i := granted ty (delisted p ty (flocks s i))) \<and>
       ftable t = (ftable s)(f := (ftable s f)\<lparr>holding_flock := ty\<rparr>))
    (\<lambda>c t k. k = wait_cont p f i ty \<and> blocked ty (flocks s i) \<and> sched_frame s t \<and> idle t \<and>
       (\<forall>c q. asleep c t q \<longrightarrow> asleep c s q \<or> q = p))"
  (is "safe _ s ?R ?S")
proof -
  let ?b = "if ty = LOCK_SH then blocked_sh else blocked_ex"
  define fin :: "('z flk_scheme, int) kmon" where "fin = kthen (upd_fl i (\<lambda>fl. if ty = LOCK_SH then fl\<lparr>waiting_shared := waiting_shared fl - 1\<rparr>
       else fl\<lparr>waiting_exclusive := waiting_exclusive fl - 1\<rparr>))
     (kthen (waitq_remove i p) (kbind (if ty = LOCK_SH then grant_shared i else grant_exclusive i) (acq_done f i ty)))"
  have eq: "kbind (await ty i p) (acq_done f i ty) = kthen (wait_while i ?b) fin"
    by (simp add: await_def await_shared_def await_exclusive_def fin_def kbind_assoc)
  have "safe (wait_while i ?b) s (\<lambda>_ t. safe fin t ?R ?S) (\<lambda>c t k. ?S c t (kthen k fin))"
  proof (rule safe_mono [OF safe_wait_while [OF s(1) inv(2)]])
    fix t assume "t = s \<and> \<not> ?b (flocks s i)"
    then have t: "t = s" and nb: "\<not> blocked ty (flocks s i)" by (auto simp: blocked_def)
    have l: "lock_free s l" if "l \<noteq> FlockLk i" for l using s(1) that by (simp add: holds_only_def)
    have c: "cpu_ok s" using s(1) by (simp add: holds_only_def)
    from inv(5) show "safe fin t ?R ?S"
    proof
      assume "ty = LOCK_SH"
      with inv(1-4,6) nb l c show ?thesis
        by (simp add: t fin_def ksafe safe_waitq_remove grant_shared_def acq_done_def granted_def delisted_def
            idle_def lock_free_def)
    next
      assume "ty \<in> {LOCK_EX}"
      with inv(1-4,6) nb l c show ?thesis
        by (simp add: t fin_def ksafe safe_waitq_remove grant_exclusive_def acq_done_def granted_def delisted_def
            idle_def lock_free_def)
    qed
  next
    fix c t and k :: "('z flk_scheme, unit) kmon"
    assume "k = kthen (sleep_tail (curid s) (FlockLk i)) (wait_while i ?b) \<and> ?b (flocks s i) \<and>
       sched_frame s t \<and> idle t \<and> curid s < NUM_IDS \<and> (\<forall>c p. asleep c t p \<longrightarrow> asleep c s p \<or> p = curid s)"
    then show "?S c t (kthen k fin)"
      using s(2) by (simp add: wait_cont_def eq kbind_assoc blocked_def split: if_split_asm)
  qed
  then show ?thesis by (simp add: eq ksafe)
qed

end
