(* ===== verification/Disk.thy ===== *)
theory Disk
  imports Flock
begin

text \<open>
  The disk driver \<^verbatim>\<open>kern/dev/disk/\<close> and the buffer cache \<^verbatim>\<open>kern/fs/bufcache.c\<close>.

  The controller is described by the last value written to each of its ports, the request that
  was started, the value of its status register for each of the two drives, and the contents of
  the drives. A write request changes the drive when it is carried out, after which the
  controller raises the interrupt that is handled by \<^verbatim>\<open>ide_intr\<close>.

  The buffers are \<open>0, ..., NBUF - 1\<close>; the list header \<^verbatim>\<open>bcache.head\<close> is number \<open>NBUF\<close>. A pointer to a
  buffer is its number, and \<^verbatim>\<open>NULL\<close> in \<^verbatim>\<open>qnext\<close> and \<^verbatim>\<open>idequeue\<close> is \<open>None\<close>.
\<close>

section \<open>State\<close>

definition NBUF :: nat where [kconst]: "NBUF = 10"
definition BSIZE :: nat where [kconst]: "BSIZE = 512"

definition B_BUSY :: u32 where [kconst]: "B_BUSY = 1"
definition B_VALID :: u32 where [kconst]: "B_VALID = 2"
definition B_DIRTY :: u32 where [kconst]: "B_DIRTY = 4"

definition IDE_BSY :: u8 where [kconst]: "IDE_BSY = 0x80"
definition IDE_DRDY :: u8 where [kconst]: "IDE_DRDY = 0x40"
definition IDE_DF :: u8 where [kconst]: "IDE_DF = 0x20"
definition IDE_ERR :: u8 where [kconst]: "IDE_ERR = 0x01"
definition IDE_CMD_READ :: u8 where [kconst]: "IDE_CMD_READ = 0x20"
definition IDE_CMD_WRITE :: u8 where [kconst]: "IDE_CMD_WRITE = 0x30"

type_synonym block = "nat \<Rightarrow> u8"

record buf =
  b_flags :: u32
  b_dev :: u32
  b_sector :: u32
  b_prev :: nat
  b_next :: nat
  b_qnext :: "nat option"
  b_data :: block

datatype ide_request = IdeRead | IdeWrite block

record dsk = flk +
  bufs :: "nat \<Rightarrow> buf"
  idequeue :: "nat option"
  havedisk1 :: bool
  ncpu :: u32
  irqmask :: "16 word"
  ioapic :: u32
  ports :: "nat \<Rightarrow> u8"
  ide_req :: "ide_request option"
  ide_status :: "bool \<Rightarrow> u8"
  disk :: "bool \<Rightarrow> u32 \<Rightarrow> block"

definition get_buf :: "nat \<Rightarrow> (buf \<Rightarrow> 'a) \<Rightarrow> ('z dsk_scheme, 'a) kmon" where
  "get_buf b g = kthen (kindex b (NBUF + 1)) (kget (\<lambda>s. g (bufs s b)))"

definition upd_buf :: "nat \<Rightarrow> (buf \<Rightarrow> buf) \<Rightarrow> ('z dsk_scheme, unit) kmon" where
  "upd_buf b g = kthen (kindex b (NBUF + 1)) (kmodify (\<lambda>s. s\<lparr>bufs := (bufs s)(b := g (bufs s b))\<rparr>))"

section \<open>Interrupt controllers\<close>

definition outb :: "nat \<Rightarrow> u8 \<Rightarrow> ('z dsk_scheme, unit) kmon" where
  "outb p v = kmodify (\<lambda>s. s\<lparr>ports := (ports s)(p := v)\<rparr>)"

definition IO_PIC1 :: nat where [kconst]: "IO_PIC1 = 0x20"
definition IO_PIC2 :: nat where [kconst]: "IO_PIC2 = 0xA0"
definition IRQ_IDE1 :: nat where [kconst]: "IRQ_IDE1 = 14"
definition T_IRQ0 :: nat where [kconst]: "T_IRQ0 = 32"
definition REG_TABLE :: nat where [kconst]: "REG_TABLE = 0x10"

definition picsetmask :: "16 word \<Rightarrow> ('z dsk_scheme, unit) kmon" where
  "picsetmask m =
     kthen (kmodify (\<lambda>s. s\<lparr>irqmask := m\<rparr>))
    (kthen (outb (IO_PIC1 + 1) (ucast m))
           (outb (IO_PIC2 + 1) (ucast (drop_bit 8 m))))"

definition picenable :: "nat \<Rightarrow> ('z dsk_scheme, unit) kmon" where
  "picenable irq = kbind (kget irqmask) (\<lambda>m. picsetmask (m AND NOT (push_bit irq 1)))"

definition ioapicwrite :: "nat \<Rightarrow> u32 \<Rightarrow> ('z dsk_scheme, unit) kmon" where
  "ioapicwrite reg data =
     kbind (kget ioapic) (\<lambda>a. kthen (kstore32 a (of_nat reg)) (kstore32 (a + 16) data))"

definition ioapicenable :: "nat \<Rightarrow> u32 \<Rightarrow> ('z dsk_scheme, unit) kmon" where
  "ioapicenable irq cpunum =
     kthen (ioapicwrite (REG_TABLE + 2 * irq) (of_nat (T_IRQ0 + irq)))
           (ioapicwrite (REG_TABLE + 2 * irq + 1) (push_bit 24 cpunum))"

section \<open>The controller\<close>

definition ide_drive :: "'z dsk_scheme \<Rightarrow> bool" where
  "ide_drive s = bit (ports s 0x1f6) 4"

definition ide_lba :: "'z dsk_scheme \<Rightarrow> u32" where
  "ide_lba s = ucast (ports s 0x1f3) OR push_bit 8 (ucast (ports s 0x1f4)) OR
     push_bit 16 (ucast (ports s 0x1f5)) OR push_bit 24 (ucast (ports s 0x1f6 AND 0x0f))"

definition ide_inb :: "('z dsk_scheme, u8) kmon" where
  "ide_inb = kget (\<lambda>s. ide_status s (ide_drive s))"

definition ide_outsl :: "block \<Rightarrow> ('z dsk_scheme, unit) kmon" where
  "ide_outsl d = kmodify (\<lambda>s. s\<lparr>ide_req := Some (IdeWrite d)\<rparr>)"

definition ide_insl :: "('z dsk_scheme, block) kmon" where
  "ide_insl = kget (\<lambda>s. disk s (ide_drive s) (ide_lba s))"

text \<open>The controller carries out the request that was started.\<close>

definition ide_serve :: "'z dsk_scheme \<Rightarrow> 'z dsk_scheme" where
  "ide_serve s = (case ide_req s of
       Some (IdeWrite d) \<Rightarrow> s\<lparr>disk := (disk s)(ide_drive s := (disk s (ide_drive s))(ide_lba s := d)), ide_req := None\<rparr>
     | _ \<Rightarrow> s\<lparr>ide_req := None\<rparr>)"

section \<open>\<^verbatim>\<open>ide.c\<close>\<close>

text \<open>The status register does not change while the loop of \<^verbatim>\<open>ide_wait\<close> polls it.\<close>

definition ide_wait :: "bool \<Rightarrow> ('z dsk_scheme, int) kmon" where
  "ide_wait checkerr =
     kbind ide_inb (\<lambda>r.
       if r AND (IDE_BSY OR IDE_DRDY) \<noteq> IDE_DRDY then kstop Spin
       else if checkerr \<and> r AND (IDE_DF OR IDE_ERR) \<noteq> 0 then kret (-1)
       else kret 0)"

definition ide_init :: "('z dsk_scheme, unit) kmon" where
  "ide_init =
     kthen (spinlock_init IdeLk)
    (kthen (picenable IRQ_IDE1)
    (kbind (kget ncpu) (\<lambda>n.
     kthen (ioapicenable IRQ_IDE1 (n - 1))
    (kbind (ide_wait False) (\<lambda>_.
     kthen (outb 0x1f6 0xf0)
    (kbind (kscan 0 1000 (\<lambda>_. kbind ide_inb (\<lambda>r.
        if r \<noteq> 0 then kthen (kmodify (\<lambda>s. s\<lparr>havedisk1 := True\<rparr>)) (kret (Some ())) else kret None))) (\<lambda>_.
     outb 0x1f6 0xe0)))))))"

definition ide_start :: "nat option \<Rightarrow> ('z dsk_scheme, unit) kmon" where
  "ide_start bp = (case bp of
       None \<Rightarrow> kpanic ''ide_start''
     | Some b \<Rightarrow>
         kbind (ide_wait False) (\<lambda>_.
         kbind (get_buf b (\<lambda>x. x)) (\<lambda>x.
         kthen (outb 0x3f6 0)
        (kthen (outb 0x1f2 1)
        (kthen (outb 0x1f3 (ucast (b_sector x AND 0xff)))
        (kthen (outb 0x1f4 (ucast (drop_bit 8 (b_sector x) AND 0xff)))
        (kthen (outb 0x1f5 (ucast (drop_bit 16 (b_sector x) AND 0xff)))
        (kthen (outb 0x1f6 (ucast (0xe0 OR push_bit 4 (b_dev x AND 1) OR (drop_bit 24 (b_sector x) AND 0x0f))))
           (if b_flags x AND B_DIRTY \<noteq> 0 then
              kthen (outb 0x1f7 IDE_CMD_WRITE) (ide_outsl (b_data x))
            else
              kthen (outb 0x1f7 IDE_CMD_READ) (kmodify (\<lambda>s. s\<lparr>ide_req := Some IdeRead\<rparr>)))))))))))"

definition ide_intr :: "('z dsk_scheme, unit) kmon" where
  "ide_intr =
     kthen (spinlock_acquire IdeLk)
    (kbind (kget idequeue) (\<lambda>bp. case bp of
       None \<Rightarrow> spinlock_release IdeLk
     | Some b \<Rightarrow>
         kbind (get_buf b (\<lambda>x. x)) (\<lambda>x.
         kthen (kmodify (\<lambda>s. s\<lparr>idequeue := b_qnext x\<rparr>))
        (kthen
           (kwhen (b_flags x AND B_DIRTY = 0)
              (kbind (ide_wait True) (\<lambda>r.
                 kwhen (r \<ge> 0) (kbind ide_insl (\<lambda>d. upd_buf b (\<lambda>x. x\<lparr>b_data := d\<rparr>))))))
        (kthen (upd_buf b (\<lambda>x. x\<lparr>b_flags := (b_flags x OR B_VALID) AND NOT B_DIRTY\<rparr>))
        (kthen (thread_wakeup (ChanBuf b))
        (kbind (kget idequeue) (\<lambda>q.
         kthen (kwhen (q \<noteq> None) (ide_start q))
               (spinlock_release IdeLk)))))))))"

text \<open>The last buffer of the queue; \<open>None\<close> if the queue has no end.\<close>

partial_function (option) ide_last :: "(nat \<Rightarrow> buf) \<Rightarrow> nat \<Rightarrow> nat option" where
  "ide_last B b = (case b_qnext (B b) of None \<Rightarrow> Some b | Some c \<Rightarrow> ide_last B c)"

definition ide_append :: "nat \<Rightarrow> ('z dsk_scheme, unit) kmon" where
  "ide_append b =
     kthen (upd_buf b (\<lambda>x. x\<lparr>b_qnext := None\<rparr>))
    (kbind (kget idequeue) (\<lambda>q. case q of
       None \<Rightarrow> kmodify (\<lambda>s. s\<lparr>idequeue := Some b\<rparr>)
     | Some h \<Rightarrow> kbind (kget (\<lambda>s. ide_last (bufs s) h)) (\<lambda>l. case l of
           None \<Rightarrow> kstop Spin
         | Some c \<Rightarrow> upd_buf c (\<lambda>x. x\<lparr>b_qnext := Some b\<rparr>))))"

definition ide_rw :: "nat \<Rightarrow> ('z dsk_scheme, unit) kmon" where
  "ide_rw b =
     kbind (get_buf b (\<lambda>x. x)) (\<lambda>x.
     kthen (kassert (b_flags x AND B_BUSY \<noteq> 0) ''ide_rw: buf not busy'')
    (kthen (kassert (b_flags x AND (B_VALID OR B_DIRTY) \<noteq> B_VALID) ''ide_rw: nothing to do'')
    (kbind (kget havedisk1) (\<lambda>h.
     kthen (kassert (b_dev x = 0 \<or> h) ''ide_rw: ide disk 1 not present'')
    (kthen (spinlock_acquire IdeLk)
    (kthen (ide_append b)
    (kbind (kget idequeue) (\<lambda>q.
     kthen (kwhen (q = Some b) (ide_start (Some b)))
    (kthen (kloop (kbind (get_buf b b_flags) (\<lambda>f.
        if f AND (B_VALID OR B_DIRTY) \<noteq> B_VALID
        then kthen (thread_sleep (ChanBuf b) (Some IdeLk)) (kret None)
        else kret (Some ()))))
           (spinlock_release IdeLk))))))))))"

section \<open>\<^verbatim>\<open>bufcache.c\<close>\<close>

definition bufcache_init :: "('z dsk_scheme, unit) kmon" where
  "bufcache_init =
     kthen (spinlock_init BcacheLk)
    (kthen (upd_buf NBUF (\<lambda>h. h\<lparr>b_prev := NBUF, b_next := NBUF\<rparr>))
       (kfor 0 NBUF (\<lambda>b.
          kbind (get_buf NBUF b_next) (\<lambda>n.
          kthen (upd_buf b (\<lambda>x. x\<lparr>b_next := n, b_prev := NBUF, b_dev := -1\<rparr>))
         (kthen (upd_buf n (\<lambda>x. x\<lparr>b_prev := b\<rparr>))
                (upd_buf NBUF (\<lambda>h. h\<lparr>b_next := b\<rparr>)))))))"

text \<open>
  The two scans of the list. \<open>None\<close>: the scan never meets the header again; \<open>Some None\<close>: no buffer
  has the property.
\<close>

partial_function (option) find_next :: "(buf \<Rightarrow> bool) \<Rightarrow> (nat \<Rightarrow> buf) \<Rightarrow> nat \<Rightarrow> nat option option" where
  "find_next P B b = (if b = NBUF then Some None else if P (B b) then Some (Some b)
     else find_next P B (b_next (B b)))"

partial_function (option) find_prev :: "(buf \<Rightarrow> bool) \<Rightarrow> (nat \<Rightarrow> buf) \<Rightarrow> nat \<Rightarrow> nat option option" where
  "find_prev P B b = (if b = NBUF then Some None else if P (B b) then Some (Some b)
     else find_prev P B (b_prev (B b)))"

definition kfound :: "'a option \<Rightarrow> ('s, 'a) kmon" where
  "kfound r = (case r of None \<Rightarrow> kstop Spin | Some x \<Rightarrow> kret x)"

definition bufcache_recycle :: "u32 \<Rightarrow> u32 \<Rightarrow> ('z dsk_scheme, nat option) kmon" where
  "bufcache_recycle dev sector =
     kbind (kget (\<lambda>s. find_prev (\<lambda>x. b_flags x AND B_BUSY = 0 \<and> b_flags x AND B_DIRTY = 0) (bufs s) (b_prev (bufs s NBUF)))) (\<lambda>r.
     kbind (kfound r) (\<lambda>r. case r of
       None \<Rightarrow> kpanic ''bufcache_get: no buffers''
     | Some b \<Rightarrow>
         kthen (upd_buf b (\<lambda>x. x\<lparr>b_dev := dev, b_sector := sector, b_flags := B_BUSY\<rparr>))
        (kthen (spinlock_release BcacheLk)
               (kret (Some b)))))"

definition bufcache_get :: "u32 \<Rightarrow> u32 \<Rightarrow> ('z dsk_scheme, nat) kmon" where
  "bufcache_get dev sector =
     kthen (spinlock_acquire BcacheLk)
       (kloop (kbind (kget (\<lambda>s. find_next (\<lambda>x. b_dev x = dev \<and> b_sector x = sector) (bufs s) (b_next (bufs s NBUF)))) (\<lambda>r.
          kbind (kfound r) (\<lambda>r. case r of
            Some b \<Rightarrow> kbind (get_buf b b_flags) (\<lambda>f.
              if f AND B_BUSY = 0 then
                kthen (upd_buf b (\<lambda>x. x\<lparr>b_flags := b_flags x OR B_BUSY\<rparr>))
               (kthen (spinlock_release BcacheLk)
                      (kret (Some b)))
              else kthen (thread_sleep (ChanBuf b) (Some BcacheLk)) (kret None))
          | None \<Rightarrow> bufcache_recycle dev sector))))"

definition bufcache_read :: "u32 \<Rightarrow> u32 \<Rightarrow> ('z dsk_scheme, nat) kmon" where
  "bufcache_read dev sector =
     kbind (bufcache_get dev sector) (\<lambda>b.
     kbind (get_buf b b_flags) (\<lambda>f.
     kthen (kwhen (f AND B_VALID = 0) (ide_rw b))
           (kret b)))"

definition bufcache_write :: "nat \<Rightarrow> ('z dsk_scheme, unit) kmon" where
  "bufcache_write b =
     kbind (get_buf b b_flags) (\<lambda>f.
     kthen (kassert (f AND B_BUSY \<noteq> 0) ''bwrite'')
    (kthen (upd_buf b (\<lambda>x. x\<lparr>b_flags := b_flags x OR B_DIRTY\<rparr>))
           (ide_rw b)))"

text \<open>The list operations of \<^verbatim>\<open>bufcache_release\<close>, in the order of the assignments.\<close>

definition move_to_front :: "nat \<Rightarrow> ('z dsk_scheme, unit) kmon" where
  "move_to_front b =
     kbind (get_buf b b_next) (\<lambda>n.
     kbind (get_buf b b_prev) (\<lambda>p.
     kthen (upd_buf n (\<lambda>x. x\<lparr>b_prev := p\<rparr>))
    (kbind (get_buf b b_prev) (\<lambda>p.
     kbind (get_buf b b_next) (\<lambda>n.
     kthen (upd_buf p (\<lambda>x. x\<lparr>b_next := n\<rparr>))
    (kbind (get_buf NBUF b_next) (\<lambda>h.
     kthen (upd_buf b (\<lambda>x. x\<lparr>b_next := h\<rparr>))
    (kthen (upd_buf b (\<lambda>x. x\<lparr>b_prev := NBUF\<rparr>))
    (kbind (get_buf NBUF b_next) (\<lambda>h.
     kthen (upd_buf h (\<lambda>x. x\<lparr>b_prev := b\<rparr>))
           (upd_buf NBUF (\<lambda>x. x\<lparr>b_next := b\<rparr>))))))))))))"

definition bufcache_release :: "nat \<Rightarrow> ('z dsk_scheme, unit) kmon" where
  "bufcache_release b =
     kbind (get_buf b b_flags) (\<lambda>f.
     kthen (kassert (f AND B_BUSY \<noteq> 0) ''brelse'')
    (kthen (spinlock_acquire BcacheLk)
    (kthen (move_to_front b)
    (kthen (upd_buf b (\<lambda>x. x\<lparr>b_flags := b_flags x AND NOT B_BUSY\<rparr>))
    (kthen (thread_wakeup (ChanBuf b))
           (spinlock_release BcacheLk))))))"

end
