(* ===== verification/FlockSys.thy ===== *)
theory FlockSys
  imports Flock
begin

text \<open>
  The file locks as a system: any number of threads call \<^verbatim>\<open>file_flock\<close>, open and close files, sleep
  and are resumed, in any order that the scheduler may choose. The invariant of the lock
  counters, the wait queues and the file table holds in every reachable state.
\<close>

section \<open>The locks of all files\<close>

text \<open>\<open>sleep_ok\<close>: no thread sleeps on a lock that it could be granted.\<close>

definition sleep_ok :: "waiting \<Rightarrow> 'z flk_scheme \<Rightarrow> bool" where
  "sleep_ok w s = (\<forall>p f i ty. w p = Some (f, i, ty) \<longrightarrow> asleep (ChanFlock i) s p \<longrightarrow> blocked ty (flocks s i))"

definition files_ok :: "(nat \<Rightarrow> file_t) \<Rightarrow> bool" where
  "files_ok T = (\<forall>f < NFILE. f_type (T f) = FD_INODE \<longrightarrow> 1 \<le> f_ref (T f))"

definition locks_inv :: "waiting \<Rightarrow> (nat \<Rightarrow> nat) \<Rightarrow> 'z flk_scheme \<Rightarrow> bool" where
  "locks_inv w own s = (idle s \<and> flock_inv w own (flocks s) (ftable s) \<and> files_ok (ftable s) \<and> sleep_ok w s)"

text \<open>Shared locks are granted only while nobody waits for an exclusive one.\<close>

definition prio :: "'z flk_scheme \<Rightarrow> 'z flk_scheme \<Rightarrow> bool" where
  "prio s t = (\<forall>j. shared_holders (flocks s j) < shared_holders (flocks t j) \<longrightarrow> waiting_exclusive (flocks s j) = 0)"

lemma files_ok_upd [simp]:
  "files_ok (T(f := (T f)\<lparr>holding_flock := ty\<rparr>)) = files_ok T"
  by (auto simp: files_ok_def)

lemma prio_refl [simp]: "prio s s"
  by (simp add: prio_def)

lemma prio_released:
  assumes "flocks t = (flocks s)(i := released ty (flocks s i))"
  shows "prio s t" and "prio t u \<Longrightarrow> prio s u"
proof -
  have r: "shared_holders (flocks t j) \<le> shared_holders (flocks s j)" "waiting_exclusive (flocks t j) = waiting_exclusive (flocks s j)" for j
    using assms by (auto simp: released_def)
  show "prio s t" unfolding prio_def using r(1) by (meson leD)
  assume *: "prio t u"
  show "prio s u"
    unfolding prio_def
  proof (intro allI impI)
    fix j assume "shared_holders (flocks s j) < shared_holders (flocks u j)"
    then have "shared_holders (flocks t j) < shared_holders (flocks u j)" using r(1) [of j] by linarith
    with * r(2) [of j] show "waiting_exclusive (flocks s j) = 0" by (simp add: prio_def)
  qed
qed

lemma sched_frame_flk:
  assumes "sched_frame s t"
  shows "flocks t = flocks s" "ftable t = ftable s" "ks_cpu_idx t = ks_cpu_idx s"
proof -
  obtain L C P Q kp r where "t = s\<lparr>locks := L, CURID := C, TCBPool := P, TQueuePool := Q, kctx_pool := kp, cpu_regs := r\<rparr>"
    using assms unfolding sched_frame_def by blast
  then show "flocks t = flocks s" "ftable t = ftable s" "ks_cpu_idx t = ks_cpu_idx s" by simp_all
qed

text \<open>What granting and releasing do to the other requests.\<close>

lemma blocked_granted:
  assumes "\<not> blocked ty fl" and "blocked ty' fl" and "ty \<in> {LOCK_SH, LOCK_EX}" "ty' \<in> {LOCK_SH, LOCK_EX}"
  shows "blocked ty' (granted ty fl)"
  using assms by (auto simp: blocked_def granted_def blocked_sh_def blocked_ex_def)

lemma blocked_enlisted: "blocked ty' fl \<Longrightarrow> blocked ty' (enlisted p ty fl)"
  by (auto simp: blocked_def enlisted_def blocked_sh_def blocked_ex_def)

lemma blocked_delisted_granted:
  assumes "\<not> blocked ty fl" and "blocked ty' fl" and "ty \<in> {LOCK_SH, LOCK_EX}" "ty' \<in> {LOCK_SH, LOCK_EX}"
  shows "blocked ty' (granted ty (delisted p ty fl))"
  using assms by (auto simp: blocked_def granted_def delisted_def blocked_sh_def blocked_ex_def)

lemma blocked_released:
  assumes "blocked ty' fl" and "fl_state (released ty fl) = FLOCK_INACTIVE \<longrightarrow> fl_state fl = FLOCK_INACTIVE"
  shows "blocked ty' (released ty fl)"
  using assms by (auto simp: blocked_def released_def blocked_sh_def blocked_ex_def split: if_splits)

lemma locks_inv_release:
  assumes inv: "locks_inv w own s" and f: "f < NFILE" "f_type (ftable s f) = FD_INODE" "holding_flock (ftable s f) \<noteq> 0"
    and t: "unlock_post (f_ip (ftable s f)) (holding_flock (ftable s f)) s t"
  shows "locks_inv w own (t\<lparr>ftable := (ftable s)(f := (ftable s f)\<lparr>holding_flock := 0\<rparr>)\<rparr>)"
proof -
  let ?i = "f_ip (ftable s f)" and ?ty = "holding_flock (ftable s f)"
  obtain P Q where t': "t = s\<lparr>flocks := (flocks s)(?i := released ?ty (flocks s ?i)), TCBPool := P, TQueuePool := Q\<rparr>"
    using t by (auto simp: unlock_post_def)
  have "flock_inv w own (flocks t) ((ftable s)(f := (ftable s f)\<lparr>holding_flock := 0\<rparr>))"
    using flock_inv_release [of w own "flocks s" "ftable s" f] inv f by (simp add: locks_inv_def t')
  moreover have "idle t" using inv by (simp add: locks_inv_def idle_def t')
  moreover have "sleep_ok w t"
    unfolding sleep_ok_def
  proof (intro allI impI)
    fix p g j ty assume w: "w p = Some (g, j, ty)" and a: "asleep (ChanFlock j) t p"
    have p: "p < NUM_IDS" using waiter_inq(3) [of w own "flocks s" "ftable s"] inv w by (auto simp: locks_inv_def)
    have as: "asleep (ChanFlock j) s p" and r: "j = ?i \<Longrightarrow> fl_state (released ?ty (flocks s ?i)) = FLOCK_INACTIVE \<longrightarrow>
           fl_state (flocks s ?i) = FLOCK_INACTIVE"
      using t p a by (auto simp: unlock_post_def)
    have "blocked ty (flocks s j)" using inv w as by (auto simp: locks_inv_def sleep_ok_def)
    then show "blocked ty (flocks t j)" using r by (auto simp: t' intro: blocked_released)
  qed
  ultimately show ?thesis using inv by (simp add: locks_inv_def idle_def sleep_ok_def)
qed

lemma locks_inv_grant:
  assumes inv: "locks_inv w own s" and f: "f < NFILE" "f_type (ftable s f) = FD_INODE" "holding_flock (ftable s f) = 0"
    and ty: "ty \<in> {LOCK_SH, LOCK_EX}" and free: "\<not> blocked ty (flocks s (f_ip (ftable s f)))"
    and w: "\<And>p i ty. w p \<noteq> Some (f, i, ty)"
  shows "locks_inv w own (s\<lparr>flocks := (flocks s)(f_ip (ftable s f) := granted ty (flocks s (f_ip (ftable s f)))),
    ftable := (ftable s)(f := (ftable s f)\<lparr>holding_flock := ty\<rparr>)\<rparr>)"
proof -
  have "blocked ty' (granted ty (flocks s (f_ip (ftable s f))))"
    if "w p = Some (g, f_ip (ftable s f), ty')" "asleep (ChanFlock (f_ip (ftable s f))) s p" for p g ty'
  proof (rule blocked_granted [OF free _ ty])
    show "ty' \<in> {LOCK_SH, LOCK_EX}"
      using waiter_inq(5) [of w own "flocks s" "ftable s"] inv that(1) by (auto simp: locks_inv_def)
    show "blocked ty' (flocks s (f_ip (ftable s f)))" using inv that by (auto simp: locks_inv_def sleep_ok_def)
  qed
  moreover have "flock_inv w own ((flocks s)(f_ip (ftable s f) := granted ty (flocks s (f_ip (ftable s f)))))
      ((ftable s)(f := (ftable s f)\<lparr>holding_flock := ty\<rparr>))"
    using inv by (intro flock_inv_grant f ty free w) (simp add: locks_inv_def)
  ultimately show ?thesis using inv by (auto simp: locks_inv_def idle_def sleep_ok_def)
qed

text \<open>A thread that has been put on the wait queue and has gone to sleep.\<close>

lemma locks_inv_enlist:
  assumes inv: "locks_inv w own s" and p: "w p = None" "p < NUM_IDS" "own f = p"
    and f: "f < NFILE" "f_type (ftable s f) = FD_INODE" "holding_flock (ftable s f) = 0" and i: "i = f_ip (ftable s f)"
    and ty: "ty \<in> {LOCK_SH, LOCK_EX}" and b: "blocked ty (enlisted p ty (flocks s i))"
    and t: "idle t" "flocks t = (flocks s)(i := enlisted p ty (flocks s i))" "ftable t = ftable s"
      "\<And>c q. asleep c t q \<Longrightarrow> asleep c s q \<or> q = p"
  shows "locks_inv (w(p \<mapsto> (f, i, ty))) own t"
proof -
  have "flock_inv (w(p \<mapsto> (f, i, ty))) own (flocks t) (ftable t)"
    using inv unfolding t i by (intro flock_inv_enlist p f ty) (simp add: locks_inv_def)
  moreover have "blocked ty' (flocks t j)"
    if "(w(p \<mapsto> (f, i, ty))) q = Some (g, j, ty')" "asleep (ChanFlock j) t q" for q g j ty'
  proof (cases "q = p")
    case True
    with that b show ?thesis by (simp add: t)
  next
    case False
    with that t(4) have "w q = Some (g, j, ty')" "asleep (ChanFlock j) s q" by auto
    with inv have "blocked ty' (flocks s j)" unfolding locks_inv_def sleep_ok_def by blast
    then show ?thesis by (auto simp: t intro: blocked_enlisted)
  qed
  ultimately show ?thesis using t(1) inv by (auto simp: locks_inv_def sleep_ok_def t(3))
qed

definition try_acquire :: "u32 \<Rightarrow> nat \<Rightarrow> bool \<Rightarrow> ('z flk_scheme, int) kmon" where
  "try_acquire ty i nb = (if ty = LOCK_SH then try_acquire_shared i nb else try_acquire_exclusive i nb)"

lemma safe_acquire_free:
  assumes "idle s" "\<not> blocked ty (flocks s i)" "ty \<in> {LOCK_SH, LOCK_EX}" "i < NINODE" "f < NFILE"
  shows "safe (kthen (spinlock_acquire (FlockLk i)) (kbind (try_acquire ty i nb) (acq_done f i ty))) s R S =
    R 0 (s\<lparr>flocks := (flocks s)(i := granted ty (flocks s i)),
           ftable := (ftable s)(f := (ftable s f)\<lparr>holding_flock := ty\<rparr>)\<rparr>)"
proof -
  note id = idle_taken [OF assms(1)]
  have restore: "(taken s (FlockLk i))\<lparr>flocks := G, locks := (locks (taken s (FlockLk i)))(FlockLk i := unlocked), ftable := T\<rparr> =
      s\<lparr>flocks := G, ftable := T\<rparr>" for G T
    using id(5) by (simp add: taken_def)
  from assms(3) show ?thesis
  proof
    assume "ty = LOCK_SH"
    with assms(2,4,5) id(1-4) restore show ?thesis
      by (simp add: try_acquire_def ksafe try_acquire_shared_def grant_shared_def acq_done_def blocked_def granted_def)
  next
    assume "ty \<in> {LOCK_EX}"
    with assms(2,4,5) id(1-4) restore show ?thesis
      by (simp add: try_acquire_def ksafe try_acquire_exclusive_def grant_exclusive_def acq_done_def blocked_def granted_def)
  qed
qed

lemma safe_acquire_nb:
  assumes "idle s" "blocked ty (flocks s i)" "ty \<in> {LOCK_SH, LOCK_EX}" "i < NINODE"
  shows "safe (kthen (spinlock_acquire (FlockLk i)) (kbind (try_acquire ty i True) (acq_done f i ty))) s R S = R (-1) s"
proof -
  note id = idle_taken [OF assms(1)]
  have restore: "(taken s (FlockLk i))\<lparr>locks := (locks (taken s (FlockLk i)))(FlockLk i := unlocked)\<rparr> = s"
    using id(5) by (simp add: taken_def)
  from assms(3) show ?thesis
  proof
    assume "ty = LOCK_SH"
    with assms(2,4) id(1-4) restore show ?thesis
      by (simp add: try_acquire_def ksafe try_acquire_shared_def acq_done_def blocked_def)
  next
    assume "ty \<in> {LOCK_EX}"
    with assms(2,4) id(1-4) restore show ?thesis
      by (simp add: try_acquire_def ksafe try_acquire_exclusive_def acq_done_def blocked_def)
  qed
qed

lemma safe_acquire_wait:
  assumes "idle s" "blocked ty (flocks s i)" "ty \<in> {LOCK_SH, LOCK_EX}" "i < NINODE" "p < NUM_IDS" "curid s = p"
    "wq_inq (waitq (flocks s i)) p = 0" "wq_len (waitq (flocks s i)) < NUM_IDS"
  shows "safe (kthen (spinlock_acquire (FlockLk i)) (kbind (try_acquire ty i False) (acq_done f i ty))) s R S =
    safe (kbind (await ty i p) (acq_done f i ty))
      ((taken s (FlockLk i))\<lparr>flocks := (flocks s)(i := enlisted p ty (flocks s i))\<rparr>) R S"
proof -
  note id = idle_taken [OF assms(1)]
  from assms(3) show ?thesis
  proof
    assume "ty = LOCK_SH"
    with assms(2,4-8) id(1-4) show ?thesis
      by (simp add: safe_kbind safe_kthen safe_if_distrib safe_flk safe_curid safe_acquire try_acquire_def try_acquire_shared_def
            blocked_def safe_waitq_add enlisted_def await_def)
  next
    assume "ty \<in> {LOCK_EX}"
    with assms(2,4-8) id(1-4) show ?thesis
      by (simp add: safe_kbind safe_kthen safe_if_distrib safe_flk safe_curid safe_acquire try_acquire_def try_acquire_exclusive_def
            blocked_def safe_waitq_add enlisted_def await_def)
  qed
qed

lemma safe_acquire_lock:
  fixes s :: "'z flk_scheme"
  assumes inv: "locks_inv w own s" and p: "w p = None" "p < NUM_IDS" "own f = p" "curid s = p"
    and f: "f < NFILE" "f_type (ftable s f) = FD_INODE" "holding_flock (ftable s f) = 0"
    and i: "i = f_ip (ftable s f)" and ty: "ty \<in> {LOCK_SH, LOCK_EX}"
    and w: "\<And>p i ty. w p \<noteq> Some (f, i, ty)"
  shows "safe (kthen (spinlock_acquire (FlockLk i)) (kbind (try_acquire ty i nb) (acq_done f i ty))) s
    (\<lambda>r t. locks_inv w own t \<and> prio s t)
    (\<lambda>c t k. k = wait_cont p f i ty \<and> locks_inv (w(p \<mapsto> (f, i, ty))) own t \<and> prio s t)" (is "safe _ _ ?R ?S")
proof -
  have in1: "i < NINODE" and wok: "waitq_ok (flocks s i) (waiters w i LOCK_SH) (waiters w i LOCK_EX)"
    and s: "idle s"
    using inv f i by (auto simp: locks_inv_def flock_inv_def)
  have nin: "p \<notin> waiters w i LOCK_SH \<union> waiters w i LOCK_EX" using p by (auto simp: waiters_def)
  note room = waitq_ok_room [OF wok p(2) nin]
  show ?thesis
  proof (cases "blocked ty (flocks s i)")
    case False
    have "locks_inv w own (s\<lparr>flocks := (flocks s)(i := granted ty (flocks s i)),
        ftable := (ftable s)(f := (ftable s f)\<lparr>holding_flock := ty\<rparr>)\<rparr>)"
      using locks_inv_grant [OF inv f ty _ w] False i by simp
    moreover have "waiting_exclusive (flocks s i) = 0" if "ty = LOCK_SH"
      using False that wok by (simp add: blocked_def blocked_sh_def waitq_ok_def)
    then have "prio s (s\<lparr>flocks := (flocks s)(i := granted ty (flocks s i)),
        ftable := (ftable s)(f := (ftable s f)\<lparr>holding_flock := ty\<rparr>)\<rparr>)"
      by (simp add: prio_def granted_def)
    ultimately show ?thesis using safe_acquire_free [OF s False ty in1 f(1)] by simp
  next
    case True
    show ?thesis
    proof (cases nb)
      case nb: True
      then show ?thesis using safe_acquire_nb [OF s True ty in1] inv by simp
    next
      case nb: False
      let ?s1 = "(taken s (FlockLk i))\<lparr>flocks := (flocks s)(i := enlisted p ty (flocks s i))\<rparr>"
      note id = idle_taken [OF s]
      have "safe (kbind (await ty i p) (acq_done f i ty)) ?s1 ?R ?S"
      proof (rule safe_mono [OF safe_await])
        show "holds_only (FlockLk i) ?s1" using id by (simp add: holds_only_def)
        show "wq_inq (waitq (flocks ?s1 i)) p \<noteq> 0" by (simp add: enlisted_def wq_fields)
        show "wq_len (waitq (flocks ?s1 i)) \<le> NUM_IDS" using room(2) by (simp add: enlisted_def wq_added_def)
        fix r and t :: "'z flk_scheme"
        assume "r = (0 :: int) \<and> \<not> blocked ty (flocks ?s1 i) \<and> idle t \<and> TCBPool t = TCBPool ?s1 \<and>
           flocks t = (flocks ?s1)(i := granted ty (delisted p ty (flocks ?s1 i))) \<and>
           ftable t = (ftable ?s1)(f := (ftable ?s1 f)\<lparr>holding_flock := ty\<rparr>)"
        then show "?R r t" using True by (simp add: blocked_enlisted)
      next
        fix c and t :: "'z flk_scheme" and k :: "('z flk_scheme, int) kmon"
        assume a: "k = wait_cont p f i ty \<and> blocked ty (flocks ?s1 i) \<and> sched_frame ?s1 t \<and> idle t \<and>
          (\<forall>c q. asleep c t q \<longrightarrow> asleep c ?s1 q \<or> q = p)"
        have "locks_inv (w(p \<mapsto> (f, i, ty))) own t"
          by (rule locks_inv_enlist [OF inv p(1,2,3) f i ty])
            (use a True in \<open>auto simp: blocked_enlisted sched_frame_flk\<close>)
        moreover have "flocks t = (flocks s)(i := enlisted p ty (flocks s i))" using a sched_frame_flk(1) [of ?s1 t] by simp
        then have "prio s t" by (simp add: prio_def enlisted_def)
        ultimately show "?S c t k" using a by simp
      qed (use in1 p f ty in auto)
      then show ?thesis using safe_acquire_wait [OF s True ty in1 p(2,4) room] nb by simp
    qed
  qed
qed

section \<open>The calls of one thread\<close>

lemma flock_acquire_done:
  "kthen (spinlock_acquire (FlockLk i)) (kbind (try_acquire ty i (op AND LOCK_NB \<noteq> 0)) (acq_done f i ty)) =
   kbind (flock_acquire i op) (\<lambda>result.
     kthen (kwhen (result = 0) (upd_file f (\<lambda>fl. fl\<lparr>holding_flock := ty\<rparr>))) (kret result))"
  if "ty = op AND NOT LOCK_NB" "ty \<in> {LOCK_SH, LOCK_EX}"
  using that by (auto simp: flock_acquire_def try_acquire_def acq_done_def [abs_def] kbind_assoc Let_def)

lemma safe_file_acquire:
  fixes s :: "'z flk_scheme"
  assumes inv: "locks_inv w own s" and p: "w p = None" "p < NUM_IDS" "own f = p" "curid s = p"
    and f: "f < NFILE" "f_type (ftable s f) = FD_INODE" "holding_flock (ftable s f) = 0"
    and i: "i = f_ip (ftable s f)" and ty: "ty = op AND NOT LOCK_NB" "ty \<noteq> LOCK_UN"
    and w: "\<And>p i ty. w p \<noteq> Some (f, i, ty)"
  shows "safe (kbind (flock_acquire i op) (\<lambda>result.
     kthen (kwhen (result = 0) (upd_file f (\<lambda>fl. fl\<lparr>holding_flock := ty\<rparr>))) (kret result))) s
    (\<lambda>r t. locks_inv w own t \<and> prio s t)
    (\<lambda>c t k. \<exists>i ty. k = wait_cont p f i ty \<and> locks_inv (w(p \<mapsto> (f, i, ty))) own t \<and> prio s t)"
proof (cases "ty \<in> {LOCK_SH, LOCK_EX}")
  case True
  show ?thesis
    unfolding flock_acquire_done [OF ty(1) True, symmetric]
    by (rule safe_mono [OF safe_acquire_lock [OF inv p f i True w]]) auto
next
  case False
  have s: "idle s" using inv by (simp add: locks_inv_def)
  note id = idle_taken [OF s]
  have "(taken s (FlockLk i))\<lparr>locks := (locks (taken s (FlockLk i)))(FlockLk i := unlocked)\<rparr> = s"
    using id(5) by (simp add: taken_def)
  with False ty id inv show ?thesis by (simp add: flock_acquire_def ksafe Let_def)
qed

lemma locks_inv_nowait:
  assumes "locks_inv w own s" and "w (own f) = None"
  shows "w p \<noteq> Some (f, i, ty)"
proof
  assume "w p = Some (f, i, ty)"
  moreover from this assms(1) have "own f = p" unfolding locks_inv_def flock_inv_def by blast
  ultimately show False using assms(2) by simp
qed

lemma safe_file_release:
  fixes s :: "'z flk_scheme"
  assumes inv: "locks_inv w own s" and f: "f < NFILE" "f_type (ftable s f) = FD_INODE" "holding_flock (ftable s f) \<noteq> 0"
    and i: "i = f_ip (ftable s f)"
    and R: "\<And>t. locks_inv w own t \<Longrightarrow> ftable t = (ftable s)(f := (ftable s f)\<lparr>holding_flock := 0\<rparr>) \<Longrightarrow> curid t = curid s \<Longrightarrow>
      prio s t \<Longrightarrow> (\<And>u. prio t u \<Longrightarrow> prio s u) \<Longrightarrow> R 0 t"
  shows "safe (flock_release i (holding_flock (ftable s f))) s
    (\<lambda>r t. R r (t\<lparr>ftable := (ftable t)(f := (ftable t f)\<lparr>holding_flock := 0\<rparr>)\<rparr>) \<and> r = 0) (\<lambda>_ _ _. False)"
proof (rule safe_mono [OF safe_flock_release])
  show "idle s" "i < NINODE" "holding_flock (ftable s f) \<in> {LOCK_SH, LOCK_EX}"
    using inv f i by (auto simp: locks_inv_def flock_inv_def)
  fix r :: int and t :: "'z flk_scheme"
  assume a: "r = 0 \<and> unlock_post i (holding_flock (ftable s f)) s t"
  let ?t = "t\<lparr>ftable := (ftable s)(f := (ftable s f)\<lparr>holding_flock := 0\<rparr>)\<rparr>"
  from a obtain P Q where t: "t = s\<lparr>flocks := (flocks s)(i := released (holding_flock (ftable s f)) (flocks s i)), TCBPool := P, TQueuePool := Q\<rparr>"
    by (auto simp: unlock_post_def)
  have *: "ftable t = ftable s" "curid ?t = curid s"
    "flocks ?t = (flocks s)(i := released (holding_flock (ftable s f)) (flocks s i))"
    by (simp_all add: t)
  have "locks_inv w own ?t" using locks_inv_release [OF inv f] a i by blast
  then have "R 0 ?t" by (rule R) (use * prio_released [OF *(3)] in simp_all)
  with a *(1) show "R r (t\<lparr>ftable := (ftable t)(f := (ftable t f)\<lparr>holding_flock := 0\<rparr>)\<rparr>) \<and> r = 0" by simp
qed simp

lemma safe_file_flock:
  fixes s :: "'z flk_scheme"
  assumes inv: "locks_inv w own s" and p: "w p = None" "p < NUM_IDS" "own f = p" "curid s = p" and f: "f < NFILE"
  shows "safe (file_flock f op) s
    (\<lambda>r t. locks_inv w own t \<and> prio s t)
    (\<lambda>c t k. \<exists>i ty. k = wait_cont p f i ty \<and> locks_inv (w(p \<mapsto> (f, i, ty))) own t \<and> prio s t)"
    (is "safe _ _ ?R ?S")
proof -
  let ?ty = "op AND NOT LOCK_NB" and ?i = "f_ip (ftable s f)" and ?h = "holding_flock (ftable s f)"
  have w: "w q \<noteq> Some (f, i, ty)" for q i ty using locks_inv_nowait [OF inv] p by simp
  show ?thesis
  proof (cases "f_type (ftable s f) = FD_INODE")
    case False
    with inv f show ?thesis by (simp add: file_flock_def ksafe Let_def)
  next
    case t: True
    show ?thesis
    proof (cases "?h = 0")
      case h: True
      show ?thesis
        using safe_file_acquire [OF inv p f t h refl refl _ w] inv f t h
        by (simp add: file_flock_def ksafe Let_def)
    next
      case h: False
      have un: "safe (flock_release ?i ?h) s
          (\<lambda>r t. ?R r (t\<lparr>ftable := (ftable t)(f := (ftable t f)\<lparr>holding_flock := 0\<rparr>)\<rparr>) \<and> r = 0) (\<lambda>_ _ _. False)"
        by (rule safe_file_release [OF inv f t h refl]) simp
      have up: "safe (flock_release ?i ?h) s (\<lambda>r t. safe (kbind (flock_acquire ?i op) (\<lambda>result.
             kthen (kwhen (result = 0) (upd_file f (\<lambda>fl. fl\<lparr>holding_flock := ?ty\<rparr>))) (kret result)))
          (t\<lparr>ftable := (ftable t)(f := (ftable t f)\<lparr>holding_flock := 0\<rparr>)\<rparr>) ?R ?S \<and> r = 0) (\<lambda>_ _ _. False)"
        if ne: "?ty \<noteq> LOCK_UN"
      proof (rule safe_file_release [OF inv f t h refl])
        fix u :: "'z flk_scheme"
        assume u: "locks_inv w own u" "ftable u = (ftable s)(f := (ftable s f)\<lparr>holding_flock := 0\<rparr>)" "curid u = curid s"
          "\<And>v. prio u v \<Longrightarrow> prio s v"
        show "safe (kbind (flock_acquire ?i op) (\<lambda>result.
             kthen (kwhen (result = 0) (upd_file f (\<lambda>fl. fl\<lparr>holding_flock := ?ty\<rparr>))) (kret result))) u ?R ?S"
          by (rule safe_mono [OF safe_file_acquire [OF u(1) p(1-3) _ f _ _ _ refl ne w]])
            (use u(2-4) p(4) t in auto)
      qed
      consider "?ty = LOCK_UN" | "?h = ?ty" "?ty \<noteq> LOCK_UN" | "?h \<noteq> ?ty" "?ty \<noteq> LOCK_UN" by blast
      then show ?thesis
      proof cases
        case 1
        have "safe (flock_release ?i ?h) s (\<lambda>r t. (r = 0 \<longrightarrow> ?R r (t\<lparr>ftable := (ftable t)(f := (ftable t f)\<lparr>holding_flock := 0\<rparr>)\<rparr>)) \<and>
            (r \<noteq> 0 \<longrightarrow> ?R r t)) (\<lambda>c t k. ?S c t (Q k))" for Q
          by (rule safe_mono [OF un]) auto
        with 1 f t h show ?thesis by (simp add: file_flock_def ksafe Let_def)
      next
        case 2
        with f t h inv show ?thesis by (simp add: file_flock_def ksafe Let_def)
      next
        case 3
        note up' = up [OF 3(2)]
        have "safe (flock_release ?i ?h) s (\<lambda>r t. safe (kbind (flock_acquire ?i op) (\<lambda>result.
             kthen (kwhen (result = 0) (upd_file f (\<lambda>fl. fl\<lparr>holding_flock := ?ty\<rparr>))) (kret result)))
          (t\<lparr>ftable := (ftable t)(f := (ftable t f)\<lparr>holding_flock := 0\<rparr>)\<rparr>) ?R ?S) (\<lambda>c t k. ?S c t (Q k))" for Q
          by (rule safe_mono [OF up']) auto
        with 3 f t h show ?thesis by (simp add: file_flock_def safe_kbind safe_kthen safe_kwhen safe_flk safe_if_distrib Let_def)
      qed
    qed
  qed
qed

text \<open>A thread that waits is resumed: it takes the lock or goes back to sleep.\<close>

lemma locks_inv_unwait:
  assumes inv: "locks_inv w own s" and p: "w p = Some (f, i, ty)" and nb: "\<not> blocked ty (flocks s i)"
    and t: "idle t" "flocks t = (flocks s)(i := granted ty (delisted p ty (flocks s i)))"
      "ftable t = (ftable s)(f := (ftable s f)\<lparr>holding_flock := ty\<rparr>)"
      "\<And>c q. q \<noteq> p \<Longrightarrow> asleep c t q \<Longrightarrow> asleep c s q"
  shows "locks_inv (w(p := None)) own t" and "prio s t"
proof -
  have fi: "flock_inv w own (flocks s) (ftable s)" using inv by (simp add: locks_inv_def)
  have f: "f < NFILE" "f_type (ftable s f) = FD_INODE" "holding_flock (ftable s f) = 0" "f_ip (ftable s f) = i"
    and ty: "ty \<in> {LOCK_SH, LOCK_EX}" and i: "i < NINODE" and own: "own f = p"
    using fi p unfolding flock_inv_def by blast+
  let ?w = "w(p := None)" and ?F = "(flocks s)(i := delisted p ty (flocks s i))"
  have "flock_inv ?w own ?F (ftable s)" by (rule flock_inv_delist [OF fi p])
  moreover have "?w q \<noteq> Some (f, j, ty')" for q j ty'
    using fi own unfolding flock_inv_def by (metis fun_upd_apply option.distinct(1))
  moreover have "\<not> blocked ty (?F i)"
    using nb by (auto simp: blocked_def delisted_def blocked_sh_def blocked_ex_def)
  ultimately have "flock_inv ?w own (flocks t) (ftable t)"
    using flock_inv_grant [of ?w own ?F "ftable s" f ty] f ty by (simp add: t(2,3))
  moreover have "blocked ty' (flocks t j)" if "?w q = Some (g, j, ty')" "asleep (ChanFlock j) t q" for q g j ty'
  proof -
    from that have q: "q \<noteq> p" "w q = Some (g, j, ty')" by (auto split: if_splits)
    with inv t(4) that(2) have "blocked ty' (flocks s j)" by (auto simp: locks_inv_def sleep_ok_def)
    then show ?thesis
      using blocked_delisted_granted [OF nb _ ty] waiter_inq(5) [OF fi q(2)] by (auto simp: t(2))
  qed
  ultimately show "locks_inv ?w own t" using inv t(1) by (simp add: locks_inv_def sleep_ok_def t(3))
  have "waitq_ok (flocks s i) (waiters w i LOCK_SH) (waiters w i LOCK_EX)" using fi i by (simp add: flock_inv_def)
  then have "waiting_exclusive (flocks s i) = 0" if "ty = LOCK_SH"
    using nb that by (simp add: blocked_def blocked_sh_def waitq_ok_def)
  then show "prio s t" by (simp add: prio_def t(2) granted_def delisted_def)
qed

lemma safe_resume:
  fixes s :: "'z flk_scheme"
  assumes inv: "locks_inv w own s" and p: "w p = Some (f, i, ty)" "curid s = p"
  shows "safe (wait_cont p f i ty) s
    (\<lambda>r t. locks_inv (w(p := None)) own t \<and> prio s t)
    (\<lambda>c t k. k = wait_cont p f i ty \<and> locks_inv w own t \<and> prio s t)" (is "safe _ _ ?R ?S")
proof -
  let ?s1 = "taken (s\<lparr>TCBPool := (TCBPool s)(p := (TCBPool s p)\<lparr>tcb_channel := ChanNull\<rparr>)\<rparr>) (FlockLk i)"
  have fi: "flock_inv w own (flocks s) (ftable s)" and s: "idle s" using inv by (simp_all add: locks_inv_def)
  note wi = waiter_inq [OF fi p(1)] and id = idle_taken [OF s]
  have as: "asleep c ?s1 q \<Longrightarrow> q \<noteq> p \<Longrightarrow> asleep c s q" for c q by (simp add: asleep_def)
  have "safe (kbind (await ty i p) (acq_done f i ty)) ?s1 ?R ?S"
  proof (rule safe_mono [OF safe_await])
    show "holds_only (FlockLk i) ?s1" using s by (simp add: holds_only_def idle_def taken_def cpu_ok_def kstack_ok_def lock_free_def)
    fix r and t :: "'z flk_scheme"
    assume a: "r = (0 :: int) \<and> \<not> blocked ty (flocks ?s1 i) \<and> idle t \<and> TCBPool t = TCBPool ?s1 \<and>
       flocks t = (flocks ?s1)(i := granted ty (delisted p ty (flocks ?s1 i))) \<and>
       ftable t = (ftable ?s1)(f := (ftable ?s1 f)\<lparr>holding_flock := ty\<rparr>)"
    have q: "asleep c t q \<Longrightarrow> q \<noteq> p \<Longrightarrow> asleep c s q" for c q using as [of c q] a by (simp add: asleep_def)
    show "?R r t"
      using a q by (intro conjI locks_inv_unwait [OF inv p(1)]) simp_all
  next
    fix c and t :: "'z flk_scheme" and k :: "('z flk_scheme, int) kmon"
    assume a: "k = wait_cont p f i ty \<and> blocked ty (flocks ?s1 i) \<and> sched_frame ?s1 t \<and> idle t \<and>
      (\<forall>c q. asleep c t q \<longrightarrow> asleep c ?s1 q \<or> q = p)"
    then have t: "flocks t = flocks s" "ftable t = ftable s" using sched_frame_flk [of ?s1 t] by simp_all
    have "blocked ty' (flocks s j)" if "w q = Some (g, j, ty')" "asleep (ChanFlock j) t q" for q g j ty'
    proof (cases "q = p")
      case True
      with that p a show ?thesis by simp
    next
      case False
      with that a as have "asleep (ChanFlock j) s q" by blast
      with that inv show ?thesis unfolding locks_inv_def sleep_ok_def by blast
    qed
    then have "sleep_ok w t" unfolding sleep_ok_def t by blast
    with inv a t show "?S c t k" by (simp add: locks_inv_def prio_def)
  qed (use wi p in simp_all)
  moreover have "sleep_tail p (FlockLk i) s = Ret () ?s1"
    using s wi(3) by (intro exec_sleep_tail) (simp_all add: idle_def)
  ultimately show ?thesis by (simp add: wait_cont_def safe_kthen safe_Ret)
qed

text \<open>Closing and opening files.\<close>

lemma flock_inv_cong:
  assumes "flock_inv w own F T"
    and "\<And>f. f_type (T' f) = f_type (T f)" "\<And>f. f_ip (T' f) = f_ip (T f)" "\<And>f. holding_flock (T' f) = holding_flock (T f)"
  shows "flock_inv w own F T'"
  using assms by (simp add: flock_inv_def holders_def)

lemma unlock_post_fields:
  assumes "unlock_post i ty s t"
  shows "flocks t = (flocks s)(i := released ty (flocks s i))" "ftable t = ftable s" "curid t = curid s"
proof -
  from assms obtain P Q where "t = s\<lparr>flocks := (flocks s)(i := released ty (flocks s i)), TCBPool := P, TQueuePool := Q\<rparr>"
    by (auto simp: unlock_post_def)
  then show "flocks t = (flocks s)(i := released ty (flocks s i))" "ftable t = ftable s" "curid t = curid s" by simp_all
qed

lemma unlock_post_ftable:
  "unlock_post i ty (s\<lparr>ftable := T\<rparr>) t \<Longrightarrow> unlock_post i ty s (t\<lparr>ftable := ftable s\<rparr>)"
proof -
  assume a: "unlock_post i ty (s\<lparr>ftable := T\<rparr>) t"
  then obtain P Q where t: "t = s\<lparr>ftable := T, flocks := (flocks s)(i := released ty (flocks s i)), TCBPool := P, TQueuePool := Q\<rparr>"
    by (auto simp: unlock_post_def)
  have "t\<lparr>ftable := ftable s\<rparr> = s\<lparr>flocks := (flocks s)(i := released ty (flocks s i)), TCBPool := TCBPool t, TQueuePool := TQueuePool t\<rparr>"
    by (simp add: t)
  moreover have "asleep c t q \<longrightarrow> asleep c s q \<and> (c = ChanFlock i \<longrightarrow> fl_state (released ty (flocks s i)) = FLOCK_INACTIVE \<longrightarrow>
      fl_state (flocks s i) = FLOCK_INACTIVE)" if "q < NUM_IDS" for c q
    using a that by (auto simp: unlock_post_def)
  ultimately show ?thesis unfolding unlock_post_def by (simp add: asleep_def)
qed

lemma locks_inv_close:
  assumes inv: "locks_inv w own s" and w: "\<And>p i ty. w p \<noteq> Some (f, i, ty)"
    and old: "f_type (ftable s f) = FD_INODE \<Longrightarrow> holding_flock (ftable s f) = 0" and new: "f_type b \<noteq> FD_INODE"
  shows "locks_inv w own (s\<lparr>ftable := (ftable s)(f := b)\<rparr>)"
proof -
  have "flock_inv w own (flocks s) ((ftable s)(f := b))"
    by (rule flock_inv_file) (use inv w old new in \<open>simp_all add: locks_inv_def\<close>)
  with inv new show ?thesis by (simp add: locks_inv_def idle_def sleep_ok_def files_ok_def)
qed

lemma safe_file_close_locks:
  fixes s :: "'z flk_scheme"
  assumes inv: "locks_inv w own s" and p: "w p = None" "own f = p" and f: "f < NFILE"
  shows "safe (file_close_locks f) s (\<lambda>_ t. locks_inv w own t \<and> prio s t) (\<lambda>_ _ _. False)" (is "safe _ _ ?R ?S")
proof -
  have w: "w q \<noteq> Some (f, i, ty)" for q i ty using locks_inv_nowait [OF inv] p by simp
  have s: "idle s" using inv by (simp add: locks_inv_def)
  note id = idle_taken [OF s]
  let ?ff = "ftable s f"
  let ?b = "?ff\<lparr>f_ref := 0, f_type := FD_NONE\<rparr>"
  have restore: "(taken s FtableLk)\<lparr>ftable := T, locks := (locks (taken s FtableLk))(FtableLk := unlocked)\<rparr> = s\<lparr>ftable := T\<rparr>" for T
    using id(5) by (simp add: taken_def)
  have keep: "?R None (s\<lparr>ftable := (ftable s)(f := ?ff\<lparr>f_ref := n\<rparr>)\<rparr>)" if "n > 0" for n
  proof -
    have "flock_inv w own (flocks s) ((ftable s)(f := ?ff\<lparr>f_ref := n\<rparr>))"
      by (rule flock_inv_cong [of _ _ _ "ftable s"]) (use inv in \<open>simp_all add: locks_inv_def\<close>)
    with inv that show ?thesis by (simp add: locks_inv_def idle_def files_ok_def sleep_ok_def prio_def)
  qed
  have last: "?R None (s\<lparr>ftable := (ftable s)(f := ?b)\<rparr>)" if "f_type ?ff = FD_INODE \<Longrightarrow> holding_flock ?ff = 0"
    using locks_inv_close [OF inv w that, of ?b] by (simp add: prio_def)
  have rel: "safe (flock_release (f_ip ?ff) (holding_flock ?ff)) (s\<lparr>ftable := (ftable s)(f := ?b)\<rparr>) (\<lambda>_. ?R None) (\<lambda>_ _ _. False)"
    if h: "f_type ?ff = FD_INODE" "holding_flock ?ff \<noteq> 0"
  proof (rule safe_mono [OF safe_flock_release])
    show "idle (s\<lparr>ftable := (ftable s)(f := ?b)\<rparr>)" using s by (simp add: idle_def)
    show "f_ip ?ff < NINODE" "holding_flock ?ff \<in> {LOCK_SH, LOCK_EX}"
      using inv f h by (auto simp: locks_inv_def flock_inv_def)
    fix r :: int and t :: "'z flk_scheme"
    assume a: "r = 0 \<and> unlock_post (f_ip ?ff) (holding_flock ?ff) (s\<lparr>ftable := (ftable s)(f := ?b)\<rparr>) t"
    then have t: "flocks t = (flocks s)(f_ip ?ff := released (holding_flock ?ff) (flocks s (f_ip ?ff)))"
      "ftable t = (ftable s)(f := ?b)"
      using unlock_post_fields by fastforce+
    let ?t = "t\<lparr>ftable := (ftable s)(f := ?ff\<lparr>holding_flock := 0\<rparr>)\<rparr>"
    have "locks_inv w own ?t"
      using locks_inv_release [OF inv f h unlock_post_ftable [OF conjunct2 [OF a]]] by simp
    from locks_inv_close [OF this w, where b = ?b]
    have "locks_inv w own t" by (simp add: t(2) [symmetric])
    with prio_released(1) [OF t(1)] show "?R None t" by simp
  qed simp
  have ref: "f_ref ?ff = 1" if "f_ref ?ff \<ge> 1" "\<not> f_ref ?ff - 1 > 0" using that by simp
  show ?thesis
    using f id restore keep last rel ref
    by (auto simp: file_close_locks_def safe_kbind safe_kthen safe_kwhen safe_flk safe_if_distrib safe_acquire safe_release safe_basic)
qed

lemma exec_file_alloc:
  assumes s: "idle s"
  shows "returns file_alloc s (\<lambda>r t. case r of
      None \<Rightarrow> t = s \<and> (\<forall>f < NFILE. f_ref (ftable s f) \<noteq> 0)
    | Some f \<Rightarrow> f < NFILE \<and> f_ref (ftable s f) = 0 \<and> (\<forall>g < f. f_ref (ftable s g) \<noteq> 0) \<and>
        t = s\<lparr>ftable := (ftable s)(f := (ftable s f)\<lparr>f_ref := 1, holding_flock := 0\<rparr>)\<rparr>)"
proof -
  note id = idle_taken [OF s]
  let ?s1 = "taken s FtableLk"
  have "returns (kscan 0 NFILE (\<lambda>f. kbind (get_file f f_ref) (\<lambda>ref. if ref = 0 then
            kthen (upd_file f (\<lambda>fl. fl\<lparr>f_ref := 1, holding_flock := 0\<rparr>)) (kret (Some f)) else kret None))) ?s1
     (\<lambda>r t. case r of
      None \<Rightarrow> t = ?s1 \<and> (\<forall>f < NFILE. f_ref (ftable s f) \<noteq> 0)
    | Some f \<Rightarrow> f < NFILE \<and> f_ref (ftable s f) = 0 \<and> (\<forall>g < f. f_ref (ftable s g) \<noteq> 0) \<and>
        t = ?s1\<lparr>ftable := (ftable s)(f := (ftable s f)\<lparr>f_ref := 1, holding_flock := 0\<rparr>)\<rparr>)"
    by (rule returns_kscan [where I = "\<lambda>i t. t = ?s1 \<and> (\<forall>f < i. f_ref (ftable s f) \<noteq> 0)"])
      (auto simp: kwp get_file_def upd_file_def less_Suc_eq)
  then have "returns (kscan 0 NFILE (\<lambda>f. kbind (get_file f f_ref) (\<lambda>ref. if ref = 0 then
            kthen (upd_file f (\<lambda>fl. fl\<lparr>f_ref := 1, holding_flock := 0\<rparr>)) (kret (Some f)) else kret None))) ?s1
     (\<lambda>r t. case r of
      None \<Rightarrow> t\<lparr>locks := (locks t)(FtableLk := unlocked)\<rparr> = s \<and> (\<forall>f < NFILE. f_ref (ftable s f) \<noteq> 0)
    | Some f \<Rightarrow> f < NFILE \<and> f_ref (ftable s f) = 0 \<and> (\<forall>g < f. f_ref (ftable s g) \<noteq> 0) \<and>
        t\<lparr>locks := (locks t)(FtableLk := unlocked)\<rparr> = s\<lparr>ftable := (ftable s)(f := (ftable s f)\<lparr>f_ref := 1, holding_flock := 0\<rparr>)\<rparr>)"
    by (rule returns_mono) (use id(5) in \<open>auto simp: taken_def split: option.splits\<close>)
  then show ?thesis using id by (simp add: file_alloc_def kwp)
qed

lemma safe_file_alloc:
  assumes inv: "locks_inv w own s"
  shows "safe file_alloc s (\<lambda>r t. \<forall>f. r = Some f \<longrightarrow> f < NFILE \<and> f_ref (ftable s f) = 0 \<and>
        t = s\<lparr>ftable := (ftable s)(f := (ftable s f)\<lparr>f_ref := 1, holding_flock := 0\<rparr>)\<rparr>) (\<lambda>_ _ _. False)"
  by (rule safe_mono [OF safe_of_returns [OF exec_file_alloc]])
    (use inv in \<open>auto simp: locks_inv_def split: option.splits\<close>)

text \<open>A new open file of slot \<open>i\<close>; the entry becomes the file of the thread that opens it.\<close>

lemma locks_inv_open:
  assumes inv: "locks_inv w own s" and f: "f < NFILE" "f_ref (ftable s f) = 0" and i: "i < NINODE"
    and b: "f_type b = FD_INODE" "f_ip b = i" "holding_flock b = 0" "f_ref b = 1"
  shows "locks_inv w (own(f := p)) (s\<lparr>ftable := (ftable s)(f := b)\<rparr>)"
proof -
  have none: "f_type (ftable s f) \<noteq> FD_INODE" using inv f by (auto simp: locks_inv_def files_ok_def)
  have fi: "flock_inv w own (flocks s) (ftable s)" using inv by (simp add: locks_inv_def)
  have w: "w q \<noteq> Some (f, j, ty)" for q j ty using fi none unfolding flock_inv_def by blast
  have "flock_inv w own (flocks s) ((ftable s)(f := b))"
    by (rule flock_inv_file [OF fi w]) (use none i b in auto)
  then have "flock_inv w (own(f := p)) (flocks s) ((ftable s)(f := b))" using w unfolding flock_inv_def by auto
  with inv b show ?thesis by (simp add: locks_inv_def idle_def sleep_ok_def files_ok_def)
qed

lemma idle_upd [simp]: "idle (s\<lparr>flocks := F\<rparr>) = idle s" "idle (s\<lparr>ftable := T\<rparr>) = idle s"
  by (simp_all add: idle_def)

text \<open>A slot of the inode cache that no file refers to is given to another inode.\<close>

lemma safe_flock_init:
  assumes inv: "locks_inv w own s" and i: "\<And>f. f < NFILE \<Longrightarrow> f_type (ftable s f) = FD_INODE \<Longrightarrow> f_ip (ftable s f) \<noteq> i"
    and n: "i < NINODE"
  shows "safe (flock_init i) s (\<lambda>_ t. locks_inv w own t \<and> prio s t) (\<lambda>_ _ _. False)"
proof -
  let ?fl = "(flocks s i)\<lparr>fl_state := FLOCK_INACTIVE, shared_holders := 0, waiting_shared := 0, waiting_exclusive := 0,
    waitq := (waitq (flocks s i))\<lparr>wq_len := 0,
            wq_inq := (\<lambda>p. if p < NUM_IDS then 0 else wq_inq (waitq (flocks s i)) p),
            wq_req := (\<lambda>p. if p < NUM_IDS then 0 else wq_req (waitq (flocks s i)) p)\<rparr>\<rparr>"
  have fi: "flock_inv w own (flocks s) (ftable s)" using inv by (simp add: locks_inv_def)
  have h: "holders (ftable s) i ty = {}" for ty using i by (auto simp: holders_def)
  have "w q \<noteq> Some (f, i, ty)" for q f ty using fi i unfolding flock_inv_def by blast
  then have w: "waiters w i ty = {}" for ty by (auto simp: waiters_def)
  have "flock_inv w own ((flocks s)(i := ?fl)) (ftable s)"
    using fi by (auto simp: flock_inv_def h w lock_ok_def waitq_ok_def wq_list_def)
  moreover have "sleep_ok w (s\<lparr>flocks := (flocks s)(i := ?fl)\<rparr>)"
    using inv w by (auto simp: locks_inv_def sleep_ok_def waiters_def)
  moreover have "prio s (s\<lparr>flocks := (flocks s)(i := ?fl)\<rparr>)"
  proof -
    have "shared_holders (flocks s i) = 0" using fi n h by (simp add: flock_inv_def lock_ok_def)
    then show ?thesis by (simp add: prio_def)
  qed
  moreover have "(locks s)(FlockLk i := unlocked) = locks s"
    using inv by (auto simp: locks_inv_def idle_def lock_free_def)
  ultimately show ?thesis using inv n
    by (intro safe_of_returns) (simp add: flock_init_def kwp upd_fl_def locks_inv_def)
qed

lemma returns_wait_while: "i < NINODE \<Longrightarrow> \<not> b (flocks s i) \<Longrightarrow> returns (wait_while i b) s Q = Q () s"
  unfolding wait_while_def by (subst returns_def, subst kloop_leave [where y = "()" and t = s]) (simp_all add: kexec get_fl_def)

text \<open>A thread that waits takes the lock as soon as it runs in a state in which the lock can be granted.\<close>

lemma returns_resume:
  fixes u :: "'z flk_scheme"
  assumes inv: "locks_inv w own u" and p: "w p = Some (f, i, ty)" and nb: "\<not> blocked ty (flocks u i)"
  shows "returns (wait_cont p f i ty) u (\<lambda>r t. r = 0 \<and> flocks t = (flocks u)(i := granted ty (delisted p ty (flocks u i))) \<and>
    ftable t = (ftable u)(f := (ftable u f)\<lparr>holding_flock := ty\<rparr>))"
proof -
  have fi: "flock_inv w own (flocks u) (ftable u)" and s: "idle u" using inv by (simp_all add: locks_inv_def)
  note wi = waiter_inq [OF fi p]
  have k: "kstack_ok u" "lock_free u l" for l using s by (simp_all add: idle_def cpu_ok_def)
  from wi(5) show ?thesis
  proof
    assume "ty = LOCK_SH"
    with wi nb k show ?thesis
      by (simp add: wait_cont_def sleep_tail_def tcb_set_chan_def upd_tcb_def await_def await_shared_def returns_wait_while
          waitq_remove_def grant_shared_def acq_done_def get_fl_def upd_fl_def upd_file_def blocked_def granted_def delisted_def
          wq_removed_def kwp taken_def lock_free_def kstack_ok_def)
  next
    assume "ty \<in> {LOCK_EX}"
    with wi nb k show ?thesis
      by (simp add: wait_cont_def sleep_tail_def tcb_set_chan_def upd_tcb_def await_def await_exclusive_def returns_wait_while
          waitq_remove_def grant_exclusive_def acq_done_def get_fl_def upd_fl_def upd_file_def blocked_def granted_def delisted_def
          wq_removed_def kwp taken_def lock_free_def kstack_ok_def)
  qed
qed

section \<open>The system\<close>

text \<open>
  A configuration is the kernel state, for every thread the rest of the call it sleeps in, and
  for every file the thread that uses it. Between two steps the scheduler may have run anything
  that leaves the locks and the file table alone, takes no lock with it and puts no thread to
  sleep on a file lock (\<open>resched\<close>); in particular it may have woken threads, in any order. Any
  thread may be resumed, whether it is in the ready queue or not: the system has every execution of the kernel,
  and more, so that what holds in all its reachable states holds of the kernel.

  The steps of a thread are a call of \<^verbatim>\<open>file_flock\<close> on one of its files, the opening and the closing
  of a file, and the continuation of a call in which it sleeps. \<open>recycle\<close> is \<^verbatim>\<open>inode_get\<close>, which
  initialises the lock of a slot of the inode cache that no open file uses.
\<close>

type_synonym 'z fconf = "'z flk_scheme \<times> (nat \<Rightarrow> ('z flk_scheme, int) kmon option) \<times> (nat \<Rightarrow> nat)"

definition resched :: "'z flk_scheme \<Rightarrow> 'z flk_scheme \<Rightarrow> bool" where
  "resched s u = (flocks u = flocks s \<and> ftable u = ftable s \<and> idle u \<and>
     (\<forall>i p. asleep (ChanFlock i) u p \<longrightarrow> asleep (ChanFlock i) s p))"

definition run_thread :: "nat \<Rightarrow> ('s, int) kmon \<Rightarrow> 's \<Rightarrow> (nat \<Rightarrow> ('s, int) kmon option) \<Rightarrow> 's \<Rightarrow>
    (nat \<Rightarrow> ('s, int) kmon option) \<Rightarrow> bool" where
  "run_thread p m u K t K' = (case m u of
       Ret r t' \<Rightarrow> t = t' \<and> K' = K(p := None)
     | Sleep c t' k \<Rightarrow> t = t' \<and> K' = K(p := Some k)
     | Stop e \<Rightarrow> False)"

text \<open>The fields that \<^verbatim>\<open>sys_open\<close> stores in a new file.\<close>

definition file_set_inode :: "nat \<Rightarrow> nat \<Rightarrow> bool \<Rightarrow> bool \<Rightarrow> ('z flk_scheme, unit) kmon" where
  "file_set_inode f ip r w =
     upd_file f (\<lambda>fl. fl\<lparr>f_type := FD_INODE, f_ip := ip, f_off := 0, readable := r, writable := w\<rparr>)"

inductive flock_step :: "'z fconf \<Rightarrow> 'z fconf \<Rightarrow> bool" where
  lock_call: "flock_step (s, K, own) (t, K', own)"
    if "resched s u" "curid u = p" "p < NUM_IDS" "K p = None" "own f = p" "f < NFILE"
      "run_thread p (file_flock f operation) u K t K'"
| resume: "flock_step (s, K, own) (t, K', own)"
    if "resched s u" "curid u = p" "K p = Some m" "run_thread p m u K t K'"
| open_file: "flock_step (s, K, own) (t, K, own(f := p))"
    if "resched s u" "curid u = p" "p < NUM_IDS" "K p = None" "i < NINODE"
      "file_alloc u = Ret (Some f) v" "file_set_inode f i rd wr v = Ret () t"
| close_file: "flock_step (s, K, own) (t, K, own)"
    if "resched s u" "curid u = p" "p < NUM_IDS" "K p = None" "own f = p" "f < NFILE" "file_close_locks f u = Ret r t"
| recycle: "flock_step (s, K, own) (t, K, own)"
    if "resched s u" "i < NINODE" "\<And>f. f < NFILE \<Longrightarrow> f_type (ftable u f) = FD_INODE \<Longrightarrow> f_ip (ftable u f) \<noteq> i"
      "flock_init i u = Ret () t"

text \<open>At boot the tables are zero.\<close>

definition flock_boot :: "'z fconf \<Rightarrow> bool" where
  "flock_boot = (\<lambda>(s, K, own). idle s \<and> K = (\<lambda>_. None) \<and>
     (\<forall>f < NFILE. f_type (ftable s f) = FD_NONE \<and> f_ref (ftable s f) = 0) \<and>
     (\<forall>i < NINODE. fl_state (flocks s i) = FLOCK_INACTIVE \<and> shared_holders (flocks s i) = 0 \<and>
        waiting_shared (flocks s i) = 0 \<and> waiting_exclusive (flocks s i) = 0 \<and>
        wq_len (waitq (flocks s i)) = 0 \<and> (\<forall>p < NUM_IDS. wq_inq (waitq (flocks s i)) p = 0)))"

definition flock_reachable :: "'z fconf \<Rightarrow> bool" where
  "flock_reachable x = (\<exists>b. flock_boot b \<and> flock_step\<^sup>*\<^sup>* b x)"

definition sys_inv :: "waiting \<Rightarrow> 'z fconf \<Rightarrow> bool" where
  "sys_inv w = (\<lambda>(s, K, own). locks_inv w own s \<and>
     (\<forall>p. K p = map_option (\<lambda>(f, i, ty). wait_cont p f i ty) (w p)))"

lemma sys_inv_boot:
  assumes "flock_boot x"
  shows "sys_inv (\<lambda>_. None) x"
proof (cases x)
  case (fields s K own)
  have "holders (ftable s) i ty = {}" for i ty using assms by (auto simp: fields flock_boot_def holders_def)
  moreover have "waiters (\<lambda>_. None) i ty = {}" for i ty by (simp add: waiters_def)
  ultimately show ?thesis
    using assms
    by (simp add: fields flock_boot_def sys_inv_def locks_inv_def flock_inv_def lock_ok_def waitq_ok_def
        wq_list_def sleep_ok_def files_ok_def)
qed

lemma sys_inv_resched:
  assumes "sys_inv w (s, K, own)" and "resched s u"
  shows "K q = map_option (\<lambda>(f, i, ty). wait_cont q f i ty) (w q)" and "locks_inv w own u"
    and "prio u t \<Longrightarrow> prio s t"
  using assms by (auto simp: sys_inv_def locks_inv_def resched_def sleep_ok_def prio_def)

lemma sys_inv_run:
  fixes u t :: "'z flk_scheme"
  assumes K: "\<And>q. K q = map_option (\<lambda>(f, i, ty). wait_cont q f i ty) (w q)"
    and m: "safe m u (\<lambda>r t. locks_inv (w(p := None)) own t \<and> prio u t)
      (\<lambda>c t k. \<exists>f i ty. k = wait_cont p f i ty \<and> locks_inv (w(p \<mapsto> (f, i, ty))) own t \<and> prio u t)"
    and r: "run_thread p m u K t K'"
  shows "\<exists>w'. sys_inv w' (t, K', own) \<and> prio u t"
proof (cases "m u")
  case (Ret a t')
  with m r have "locks_inv (w(p := None)) own t \<and> prio u t" "K' = K(p := None)"
    by (auto simp: safe_def run_thread_def)
  then show ?thesis by (intro exI [of _ "w(p := None)"]) (simp add: sys_inv_def K)
next
  case (Sleep c t' k)
  with m r obtain f i ty where "k = wait_cont p f i ty" "locks_inv (w(p \<mapsto> (f, i, ty))) own t \<and> prio u t" "K' = K(p := Some k)"
    by (auto simp: safe_def run_thread_def)
  then show ?thesis by (intro exI [of _ "w(p \<mapsto> (f, i, ty))"]) (simp add: sys_inv_def K)
next
  case (Stop e)
  with r show ?thesis by (simp add: run_thread_def)
qed

lemma sys_inv_step:
  fixes x y :: "'z fconf"
  assumes "flock_step x y" and "sys_inv w x"
  shows "\<exists>w'. sys_inv w' y \<and> prio (fst x) (fst y)"
  using assms
proof (induction rule: flock_step.cases)
  case (lock_call s u p K own f operation t K')
  from lock_call have s: "sys_inv w (s, K, own)" "resched s u" by simp_all
  note sys = sys_inv_resched [OF s]
  note K = sys(1) and inv = sys(2) and pr = sys(3)
  from lock_call K have p: "w p = None" by (metis map_option_is_None)
  then have "w(p := None) = w" by auto
  with safe_file_flock [OF inv p] lock_call
  have "safe (file_flock f operation) u (\<lambda>r t. locks_inv (w(p := None)) own t \<and> prio u t)
      (\<lambda>c t k. \<exists>f i ty. k = wait_cont p f i ty \<and> locks_inv (w(p \<mapsto> (f, i, ty))) own t \<and> prio u t)"
    by (intro safe_mono [OF safe_file_flock [OF inv p]]) auto
  from sys_inv_run [OF K this] lock_call pr show ?case by auto
next
  case (resume s u p K m t K' own)
  from resume have s: "sys_inv w (s, K, own)" "resched s u" by simp_all
  note sys = sys_inv_resched [OF s]
  note K = sys(1) and inv = sys(2) and pr = sys(3)
  from resume K [of p] obtain f i ty where p: "w p = Some (f, i, ty)" and m: "m = wait_cont p f i ty"
    by (cases "w p") auto
  then have "w(p \<mapsto> (f, i, ty)) = w" by auto
  then have "safe m u (\<lambda>r t. locks_inv (w(p := None)) own t \<and> prio u t)
      (\<lambda>c t k. \<exists>f i ty. k = wait_cont p f i ty \<and> locks_inv (w(p \<mapsto> (f, i, ty))) own t \<and> prio u t)"
    using resume unfolding m by (intro safe_mono [OF safe_resume [OF inv p]]) (simp_all, metis)
  from sys_inv_run [OF K this] resume pr show ?case by auto
next
  case (open_file s u p K i f v rd wr t own)
  from open_file have s: "sys_inv w (s, K, own)" "resched s u" by simp_all
  note sys = sys_inv_resched [OF s]
  note K = sys(1) and inv = sys(2) and pr = sys(3)
  from safe_file_alloc [OF inv] open_file have a: "f < NFILE" "f_ref (ftable u f) = 0"
    "v = u\<lparr>ftable := (ftable u)(f := (ftable u f)\<lparr>f_ref := 1, holding_flock := 0\<rparr>)\<rparr>"
    by (auto simp: safe_def)
  with open_file have t: "t = u\<lparr>ftable := (ftable u)(f := (ftable u f)\<lparr>f_ref := 1, holding_flock := 0,
      f_type := FD_INODE, f_ip := i, f_off := 0, readable := rd, writable := wr\<rparr>)\<rparr>"
    by (auto simp: file_set_inode_def upd_file_def kexec)
  have "locks_inv w (own(f := p)) t" unfolding t by (rule locks_inv_open [OF inv a(1,2) open_file(7)]) simp_all
  moreover have "prio u t" by (simp add: t prio_def)
  ultimately show ?case using K pr open_file by (auto simp: sys_inv_def)
next
  case (close_file s u p K own f r t)
  from close_file have s: "sys_inv w (s, K, own)" "resched s u" by simp_all
  note sys = sys_inv_resched [OF s]
  note K = sys(1) and inv = sys(2) and pr = sys(3)
  from close_file K have p: "w p = None" by (metis map_option_is_None)
  from safe_file_close_locks [OF inv p, of f] close_file have "locks_inv w own t \<and> prio u t" by (simp add: safe_def)
  then show ?case using K pr close_file by (auto simp: sys_inv_def)
next
  case (recycle s u i t K own)
  from recycle have s: "sys_inv w (s, K, own)" "resched s u" by simp_all
  note sys = sys_inv_resched [OF s]
  note K = sys(1) and inv = sys(2) and pr = sys(3)
  have "safe (flock_init i) u (\<lambda>_ t. locks_inv w own t \<and> prio u t) (\<lambda>_ _ _. False)"
    by (rule safe_flock_init [OF inv]) (use recycle in auto)
  with recycle have "locks_inv w own t \<and> prio u t" by (simp add: safe_def)
  then show ?case using K pr recycle by (auto simp: sys_inv_def)
qed

lemma sys_inv_reachable:
  assumes "flock_reachable x"
  shows "\<exists>w. sys_inv w x"
proof -
  obtain b where b: "flock_boot b" "flock_step\<^sup>*\<^sup>* b x" using assms by (auto simp: flock_reachable_def)
  from b(2) show ?thesis
    by (induction rule: rtranclp_induct) (use sys_inv_boot [OF b(1)] sys_inv_step in blast)+
qed

section \<open>Properties\<close>

text \<open>
  C1: Mutual exclusion of file locks. In every reachable state, if an open file holds the
  exclusive lock of its inode then no other open file holds a lock of the same inode, and the
  inode's lock record says so.
\<close>

theorem flock_mutual_exclusion:
  assumes "flock_reachable (s, K, own)" and "f < NFILE" and "g < NFILE"
    and "f_type (ftable s f) = FD_INODE" and "f_type (ftable s g) = FD_INODE"
    and "f_ip (ftable s g) = f_ip (ftable s f)"
    and "holding_flock (ftable s f) = LOCK_EX" and "holding_flock (ftable s g) \<noteq> 0"
  shows "g = f \<and> fl_state (flocks s (f_ip (ftable s f))) = FLOCK_EXCLUSIVE \<and>
    shared_holders (flocks s (f_ip (ftable s f))) = 0"
proof -
  let ?i = "f_ip (ftable s f)"
  obtain w where "sys_inv w (s, K, own)" using sys_inv_reachable [OF assms(1)] by blast
  then have fi: "flock_inv w own (flocks s) (ftable s)" by (simp add: sys_inv_def locks_inv_def)
  with assms have l: "lock_ok (flocks s ?i) (holders (ftable s) ?i LOCK_SH) (holders (ftable s) ?i LOCK_EX)"
    and g: "holding_flock (ftable s g) \<in> {LOCK_SH, LOCK_EX}"
    by (auto simp: flock_inv_def)
  have f: "f \<in> holders (ftable s) ?i LOCK_EX" using assms by (simp add: holders_def)
  with l have sh: "holders (ftable s) ?i LOCK_SH = {}" and ex: "holders (ftable s) ?i LOCK_EX = {f}"
    by (auto simp: lock_ok_def card_le_Suc0_iff_eq)
  from g assms have "g \<in> holders (ftable s) ?i LOCK_SH \<union> holders (ftable s) ?i LOCK_EX"
    by (auto simp: holders_def)
  with sh ex l show ?thesis by (simp add: lock_ok_def)
qed

text \<open>
  C4: The lock record is exact. In every reachable state the record of a slot is in the exclusive
  state iff some open file holds the exclusive lock, inactive iff no open file holds a lock, and
  \<^verbatim>\<open>shared_holders\<close> is the number of open files that hold the shared lock.
\<close>

theorem flock_record_exact:
  assumes "flock_reachable (s, K, own)" and "i < NINODE"
  shows "(fl_state (flocks s i) = FLOCK_EXCLUSIVE \<longleftrightarrow> holders (ftable s) i LOCK_EX \<noteq> {}) \<and>
    (fl_state (flocks s i) = FLOCK_INACTIVE \<longleftrightarrow>
      (\<forall>f < NFILE. f_type (ftable s f) = FD_INODE \<longrightarrow> f_ip (ftable s f) = i \<longrightarrow> holding_flock (ftable s f) = 0)) \<and>
    shared_holders (flocks s i) = int (card (holders (ftable s) i LOCK_SH))"
proof -
  obtain w where "sys_inv w (s, K, own)" using sys_inv_reachable [OF assms(1)] by blast
  then have fi: "flock_inv w own (flocks s) (ftable s)" by (simp add: sys_inv_def locks_inv_def)
  have "(\<forall>f < NFILE. f_type (ftable s f) = FD_INODE \<longrightarrow> f_ip (ftable s f) = i \<longrightarrow> holding_flock (ftable s f) = 0) \<longleftrightarrow>
      holders (ftable s) i LOCK_SH = {} \<and> holders (ftable s) i LOCK_EX = {}"
    using fi by (auto simp: holders_def flock_inv_def)
  then show ?thesis using fi assms(2) by (auto simp: flock_inv_def lock_ok_def)
qed

text \<open>
  C5: The wait queue lists exactly the sleeping calls. In every reachable state the queue of a
  slot has no duplicates, the counters add up to its length, every thread in it is inside a call
  of \<^verbatim>\<open>file_flock\<close> that has not returned, and every thread inside such a call is in the queue of
  exactly one slot.
\<close>

theorem flock_waitq_exact:
  assumes "flock_reachable (s, K, own)"
  shows "(\<forall>i < NINODE. distinct (wq_list (waitq (flocks s i))) \<and>
      waiting_shared (flocks s i) + waiting_exclusive (flocks s i) = int (length (wq_list (waitq (flocks s i)))) \<and>
      (\<forall>p \<in> set (wq_list (waitq (flocks s i))). K p \<noteq> None)) \<and>
    (\<forall>p. K p \<noteq> None \<longrightarrow> (\<exists>!i. i < NINODE \<and> p \<in> set (wq_list (waitq (flocks s i)))))"
proof -
  obtain w where "sys_inv w (s, K, own)" using sys_inv_reachable [OF assms(1)] by blast
  then have fi: "flock_inv w own (flocks s) (ftable s)" and K: "K p \<noteq> None \<longleftrightarrow> w p \<noteq> None" for p
    by (auto simp: sys_inv_def locks_inv_def)
  have q: "waitq_ok (flocks s i) (waiters w i LOCK_SH) (waiters w i LOCK_EX)" if "i < NINODE" for i
    using fi that by (simp add: flock_inv_def)
  have set: "set (wq_list (waitq (flocks s i))) = waiters w i LOCK_SH \<union> waiters w i LOCK_EX" if "i < NINODE" for i
    using q [OF that] by (simp add: waitq_ok_def)
  have mem: "p \<in> set (wq_list (waitq (flocks s i))) \<longleftrightarrow> (\<exists>f ty. w p = Some (f, i, ty))" if "i < NINODE" for p i
    using waiter_inq(5) [OF fi, of p] by (auto simp: set [OF that] waiters_def)
  have "length (wq_list (waitq (flocks s i))) = card (waiters w i LOCK_SH) + card (waiters w i LOCK_EX)"
    if "i < NINODE" for i
  proof -
    have "finite (waiters w i LOCK_SH)" "finite (waiters w i LOCK_EX)"
      using q [OF that] by (auto simp: waitq_ok_def intro: finite_subset)
    then show ?thesis
      using q [OF that] by (simp add: waitq_ok_def distinct_card [symmetric] card_Un_disjoint)
  qed
  then have "\<forall>i < NINODE. distinct (wq_list (waitq (flocks s i))) \<and>
      waiting_shared (flocks s i) + waiting_exclusive (flocks s i) = int (length (wq_list (waitq (flocks s i)))) \<and>
      (\<forall>p \<in> set (wq_list (waitq (flocks s i))). K p \<noteq> None)"
    using q by (simp add: waitq_ok_def) (use K in \<open>auto simp: waiters_def\<close>)
  moreover have "\<exists>!i. i < NINODE \<and> p \<in> set (wq_list (waitq (flocks s i)))" if p: "w p \<noteq> None" for p
  proof -
    from p obtain f i ty where *: "w p = Some (f, i, ty)" by auto
    then show ?thesis using mem waiter_inq(2) [OF fi *] by (intro ex1I [of _ i]) auto
  qed
  ultimately show ?thesis using K by blast
qed

text \<open>
  C3: Writer priority. Whenever a step of a reachable state grants a shared lock, no thread is
  waiting for the exclusive lock of that inode.
\<close>

theorem flock_writer_priority:
  assumes "flock_reachable (s, K, own)" and "flock_step (s, K, own) (t, K', own')" and "i < NINODE"
    and "shared_holders (flocks s i) < shared_holders (flocks t i)"
  shows "waiting_exclusive (flocks s i) = 0 \<and> (\<forall>p \<in> set (wq_list (waitq (flocks s i))). wq_req (waitq (flocks s i)) p = ucast LOCK_SH)"
proof -
  obtain w where w: "sys_inv w (s, K, own)" using sys_inv_reachable [OF assms(1)] by blast
  then have "waitq_ok (flocks s i) (waiters w i LOCK_SH) (waiters w i LOCK_EX)"
    using assms(3) by (simp add: sys_inv_def locks_inv_def flock_inv_def)
  moreover have "waiting_exclusive (flocks s i) = 0"
    using sys_inv_step [OF assms(2) w] assms(4) by (auto simp: prio_def)
  moreover from calculation have "waiters w i LOCK_EX = {}"
    using finite_subset [of "waiters w i LOCK_EX" "{..<NUM_IDS}"] by (auto simp: waitq_ok_def)
  ultimately show ?thesis by (auto simp: waitq_ok_def LOCK_SH_def)
qed

text \<open>
  C2: The lock code leaves no waiter behind a free lock. If in a reachable state a queued thread is asleep
  on the lock of a slot and no open file holds that lock, then threads are queued for the exclusive lock, none of
  them is asleep on it, and whichever of them runs next, in whatever state the scheduler resumes it, returns
  from its call with the lock. When a woken thread runs is up to the scheduler, which is not part
  of this statement; theory \<open>Thread\<close> shows a case in which \<^verbatim>\<open>thread_wakeup\<close> drops ready threads.
\<close>

theorem flock_free_lock_taken:
  assumes "flock_reachable (s, K, own)" and "i < NINODE" and "p \<in> set (wq_list (waitq (flocks s i)))"
    and "asleep (ChanFlock i) s p"
  shows "(\<exists>f < NFILE. f_type (ftable s f) = FD_INODE \<and> f_ip (ftable s f) = i \<and> holding_flock (ftable s f) \<noteq> 0) \<or>
    (\<exists>q \<in> set (wq_list (waitq (flocks s i))). wq_req (waitq (flocks s i)) q = ucast LOCK_EX) \<and>
    (\<forall>q \<in> set (wq_list (waitq (flocks s i))). wq_req (waitq (flocks s i)) q = ucast LOCK_EX \<longrightarrow>
       \<not> asleep (ChanFlock i) s q \<and>
       (\<exists>f m. f < NFILE \<and> own f = q \<and> f_ip (ftable s f) = i \<and> K q = Some m \<and>
          (\<forall>u. resched s u \<and> curid u = q \<longrightarrow> (\<exists>t. m u = Ret 0 t \<and> holding_flock (ftable t f) = LOCK_EX))))"
proof -
  obtain w where w: "sys_inv w (s, K, own)" using sys_inv_reachable [OF assms(1)] by blast
  then have l: "lock_ok (flocks s i) (holders (ftable s) i LOCK_SH) (holders (ftable s) i LOCK_EX)"
    and q: "waitq_ok (flocks s i) (waiters w i LOCK_SH) (waiters w i LOCK_EX)"
    and sl: "\<And>p f ty. w p = Some (f, i, ty) \<Longrightarrow> asleep (ChanFlock i) s p \<Longrightarrow> blocked ty (flocks s i)"
    and fi: "flock_inv w own (flocks s) (ftable s)"
    using assms(2) by (auto simp: sys_inv_def locks_inv_def flock_inv_def sleep_ok_def)
  show ?thesis
  proof (cases "fl_state (flocks s i) = FLOCK_INACTIVE")
    case False
    with l have "holders (ftable s) i LOCK_SH \<union> holders (ftable s) i LOCK_EX \<noteq> {}" by (auto simp: lock_ok_def)
    then show ?thesis by (auto simp: holders_def)
  next
    case True
    then have nb: "\<not> blocked LOCK_EX (flocks s i)" by (simp add: blocked_def blocked_ex_def)
    from assms(3) q obtain f ty where p: "w p = Some (f, i, ty)" by (auto simp: waitq_ok_def waiters_def)
    from sl [OF p assms(4)] True have "waiting_exclusive (flocks s i) > 0"
      by (auto simp: blocked_def blocked_sh_def blocked_ex_def split: if_splits)
    with q have "waiters w i LOCK_EX \<noteq> {}" by (auto simp: waitq_ok_def)
    then have ex: "\<exists>q \<in> set (wq_list (waitq (flocks s i))). wq_req (waitq (flocks s i)) q = ucast LOCK_EX"
      using q by (auto simp: waitq_ok_def LOCK_EX_def)
    have "\<not> asleep (ChanFlock i) s r \<and> (\<exists>f m. f < NFILE \<and> own f = r \<and> f_ip (ftable s f) = i \<and> K r = Some m \<and>
          (\<forall>u. resched s u \<and> curid u = r \<longrightarrow> (\<exists>t. m u = Ret 0 t \<and> holding_flock (ftable t f) = LOCK_EX)))"
      if r: "r \<in> set (wq_list (waitq (flocks s i)))" "wq_req (waitq (flocks s i)) r = ucast LOCK_EX" for r
    proof -
      have "r \<in> waiters w i LOCK_EX" using q r by (auto simp: waitq_ok_def LOCK_EX_def)
      then obtain g where g: "w r = Some (g, i, LOCK_EX)" by (auto simp: waiters_def)
      then have K: "K r = Some (wait_cont r g i LOCK_EX)" using sys_inv_resched(1) [OF w, of s] w
        by (auto simp: sys_inv_def)
      have "\<exists>t. wait_cont r g i LOCK_EX u = Ret 0 t \<and> holding_flock (ftable t g) = LOCK_EX" if u: "resched s u" for u
      proof -
        have "flocks u = flocks s" using u by (simp add: resched_def)
        with returns_resume [OF sys_inv_resched(2) [OF w u] g] nb show ?thesis by (auto elim!: returnsE)
      qed
      moreover have "g < NFILE \<and> own g = r \<and> f_ip (ftable s g) = i" using fi g unfolding flock_inv_def by blast
      ultimately show ?thesis using K sl [OF g] nb by blast
    qed
    with ex show ?thesis by blast
  qed
qed

section \<open>Examples\<close>

text \<open>Thread 0 opens the file of slot 0 twice, locks one of the two and then wants to lock the other.\<close>

definition flock0 :: flock_t where
  "flock0 = \<lparr>fl_state = FLOCK_INACTIVE, shared_holders = 0, waiting_shared = 0, waiting_exclusive = 0,
     waitq = \<lparr>wq_pids = (\<lambda>_. 0), wq_len = 0, wq_inq = (\<lambda>_. 0), wq_req = (\<lambda>_. 0)\<rparr>\<rparr>"

definition file0 :: file_t where
  "file0 = \<lparr>f_type = FD_NONE, f_ref = 0, readable = False, writable = False, f_ip = 0, f_off = 0, holding_flock = 0\<rparr>"

definition file1 :: file_t where
  "file1 = \<lparr>f_type = FD_INODE, f_ref = 1, readable = True, writable = True, f_ip = 0, f_off = 0, holding_flock = 0\<rparr>"

definition flk_ex :: flk where
  "flk_ex = sched.extend sched_ex (flk.fields (\<lambda>_. flock0) (\<lambda>_. file0))"

definition flk_open :: flk where
  "flk_open = flk_ex\<lparr>ftable := (\<lambda>_. file0)(0 := file1, 1 := file1)\<rparr>"

definition flk_locked :: "u32 \<Rightarrow> flk" where
  "flk_locked ty = flk_open\<lparr>flocks := (\<lambda>_. flock0)(0 := granted ty flock0),
     ftable := (\<lambda>_. file0)(0 := file1\<lparr>holding_flock := ty\<rparr>, 1 := file1)\<rparr>"

lemmas flk_ex_defs = flk_ex_def flk.defs sched.defs flock0_def file0_def file1_def

lemma flk_ex_sched: "locks flk_ex = locks sched_ex" "pcpus flk_ex = pcpus sched_ex" "CURID flk_ex = CURID sched_ex"
  "ks_magic flk_ex = ks_magic sched_ex" "ks_cpu_idx flk_ex = ks_cpu_idx sched_ex" "TCBPool flk_ex = TCBPool sched_ex"
  "TQueuePool flk_ex = TQueuePool sched_ex" "flocks flk_ex = (\<lambda>_. flock0)" "ftable flk_ex = (\<lambda>_. file0)"
  by (simp_all add: flk_ex_def flk.defs sched.defs)

lemma flk_ex_idle: "idle flk_ex" "curid flk_ex = 0" "sched_ok flk_ex [1, 2]"
proof -
  have "locks sched_ex = (\<lambda>_. unlocked)" by (simp add: sched_ex_defs unlocked_def)
  with sched_ex_ok show "idle flk_ex" "curid flk_ex = 0" "sched_ok flk_ex [1, 2]"
    by (simp_all add: idle_def cpu_ok_def kstack_ok_def lock_free_def flk_ex_sched sched_ok_def tq_repr_def)
qed

lemma resched_refl [simp]: "idle s \<Longrightarrow> resched s s"
  by (simp add: resched_def)

lemma boot_open: "flock_reachable (flk_open, \<lambda>_. None, \<lambda>_. 0)"
proof -
  have b: "flock_boot (flk_ex, \<lambda>_. None, \<lambda>_. 0)"
    by (simp add: flock_boot_def flk_ex_idle flk_ex_sched flock0_def file0_def)
  have fa: "file_alloc s = Ret (Some f) (s\<lparr>ftable := (ftable s)(f := (ftable s f)\<lparr>f_ref := 1, holding_flock := 0\<rparr>)\<rparr>)"
    if "idle s" "f < NFILE" "f_ref (ftable s f) = 0" "\<And>g. g < f \<Longrightarrow> f_ref (ftable s g) \<noteq> 0" for f and s :: flk
  proof (rule returnsE [OF exec_file_alloc [OF that(1)]])
    fix r t assume r: "file_alloc s = Ret r t" and c: "case r of
        None \<Rightarrow> t = s \<and> (\<forall>f < NFILE. f_ref (ftable s f) \<noteq> 0)
      | Some g \<Rightarrow> g < NFILE \<and> f_ref (ftable s g) = 0 \<and> (\<forall>h < g. f_ref (ftable s h) \<noteq> 0) \<and>
          t = s\<lparr>ftable := (ftable s)(g := (ftable s g)\<lparr>f_ref := 1, holding_flock := 0\<rparr>)\<rparr>"
    from c that obtain g where g: "r = Some g" by (cases r) auto
    from c g that(3) have "\<not> f < g" by auto
    moreover from c g that(4) have "\<not> g < f" by auto
    ultimately have "g = f" by simp
    with r c g show ?thesis by simp
  qed
  let ?s1 = "flk_ex\<lparr>ftable := (\<lambda>_. file0)(0 := file1)\<rparr>"
  have "flock_step (flk_ex, \<lambda>_. None, \<lambda>_. 0) (?s1, \<lambda>_. None, (\<lambda>_. 0)(0 := 0))"
    by (rule flock_step.open_file [where u = flk_ex and i = 0 and rd = True and wr = True, OF _ _ _ _ _ fa [of _ 0]])
      (simp_all add: flk_ex_idle sched_ex_ok kconst flk_ex_sched file_set_inode_def upd_file_def kexec file0_def file1_def)
  moreover have "flock_step (?s1, \<lambda>_. None, \<lambda>_. 0) (flk_open, \<lambda>_. None, (\<lambda>_. 0)(1 := 0))"
    by (rule flock_step.open_file [where u = ?s1 and i = 0 and rd = True and wr = True, OF _ _ _ _ _ fa [of _ 1]])
      (simp_all add: flk_ex_idle sched_ex_ok kconst flk_ex_sched file_set_inode_def upd_file_def kexec file0_def file1_def flk_open_def)
  moreover have "(\<lambda>_. 0)(n := 0) = (\<lambda>_. 0 :: nat)" for n :: nat by auto
  ultimately have "flock_step\<^sup>*\<^sup>* (flk_ex, \<lambda>_. None, \<lambda>_. 0) (flk_open, \<lambda>_. None, \<lambda>_. 0)"
    by (metis (no_types) converse_rtranclp_into_rtranclp r_into_rtranclp)
  with b show ?thesis unfolding flock_reachable_def by blast
qed

lemma flk_open_sel: "idle flk_open" "curid flk_open = 0" "flocks flk_open = (\<lambda>_. flock0)"
  "ftable flk_open = (\<lambda>_. file0)(0 := file1, 1 := file1)"
  by (simp_all add: flk_open_def flk_ex_idle flk_ex_sched sched_ex_ok)

lemma exec_of_safe:
  assumes "\<And>R S. safe m s R S = R a t"
  shows "m s = Ret a t"
proof (cases "m s")
  case (Ret b u)
  with assms [of "\<lambda>x v. x = b \<and> v = u"] show ?thesis by (simp add: safe_def)
next
  case (Sleep c u k)
  with assms [of "\<lambda>_ _. False" "\<lambda>_ _ _. True"] show ?thesis by (simp add: safe_def)
next
  case (Stop e)
  with assms [of "\<lambda>_ _. False"] show ?thesis by (simp add: safe_def)
qed

lemma exec_of_safe_sleep:
  assumes "\<And>R S. safe m s R S = S c t k"
  shows "m s = Sleep c t k"
proof (cases "m s")
  case (Ret b u)
  with assms [of "\<lambda>_ _. True" "\<lambda>_ _ _. False"] show ?thesis by (simp add: safe_def)
next
  case (Sleep c' u k')
  with assms [of "\<lambda>_ _. False" "\<lambda>x v k. x = c' \<and> v = u \<and> k = k'"] show ?thesis by (simp add: safe_def)
next
  case (Stop e)
  with assms [of "\<lambda>_ _. False" "\<lambda>_ _ _. False"] show ?thesis by (simp add: safe_def)
qed

lemma lock_types_nb: "ty \<in> {LOCK_SH, LOCK_EX} \<Longrightarrow> ty AND NOT LOCK_NB = ty \<and> ty AND LOCK_NB = 0 \<and> ty \<noteq> LOCK_UN"
  by (auto simp: LOCK_SH_def LOCK_EX_def LOCK_NB_def LOCK_UN_def)

lemma file_flock_exec:
  assumes f: "f < NFILE" "f_type (ftable s f) = FD_INODE" "holding_flock (ftable s f) = 0" "f_ip (ftable s f) = i"
    and ty: "ty \<in> {LOCK_SH, LOCK_EX}"
  shows "file_flock f ty s = kthen (spinlock_acquire (FlockLk i)) (kbind (try_acquire ty i False) (acq_done f i ty)) s"
proof -
  have "file_flock f ty s = kbind (flock_acquire i ty) (\<lambda>result.
     kthen (kwhen (result = 0) (upd_file f (\<lambda>fl. fl\<lparr>holding_flock := ty\<rparr>))) (kret result)) s"
    using f lock_types_nb [OF ty] by (simp add: file_flock_def get_file_def kexec Let_def)
  also have "kbind (flock_acquire i ty) (\<lambda>result.
     kthen (kwhen (result = 0) (upd_file f (\<lambda>fl. fl\<lparr>holding_flock := ty\<rparr>))) (kret result)) =
      kthen (spinlock_acquire (FlockLk i)) (kbind (try_acquire ty i False) (acq_done f i ty))"
    by (subst flock_acquire_done [where ty = ty and op = ty, symmetric]) (use lock_types_nb [OF ty] ty in simp_all)
  finally show ?thesis .
qed

lemma exec_first_lock:
  assumes ty: "ty \<in> {LOCK_SH, LOCK_EX}"
  shows "file_flock 0 ty flk_open = Ret 0 (flk_locked ty)"
proof -
  have "safe (kthen (spinlock_acquire (FlockLk 0)) (kbind (try_acquire ty 0 False) (acq_done 0 0 ty))) flk_open R S =
      R 0 (flk_locked ty)" for R S
  proof -
    have "flk_open\<lparr>flocks := (flocks flk_open)(0 := granted ty (flocks flk_open 0)),
           ftable := (ftable flk_open)(0 := (ftable flk_open 0)\<lparr>holding_flock := ty\<rparr>)\<rparr> = flk_locked ty"
      by (simp add: flk_locked_def flk_open_def flk_ex_sched fun_upd_twist [of "Suc 0" 0])
    then show ?thesis
      using ty by (subst safe_acquire_free)
        (auto simp: flk_open_def flk_ex_idle flk_ex_sched flock0_def blocked_def blocked_sh_def blocked_ex_def kconst)
  qed
  note e = exec_of_safe [of "kthen (spinlock_acquire (FlockLk 0)) (kbind (try_acquire ty 0 False) (acq_done 0 0 ty))", OF this]
  show ?thesis
    by (subst file_flock_exec [where i = 0]) (use ty e in \<open>simp_all add: flk_open_def file1_def kconst\<close>)
qed

lemma first_lock_step:
  assumes ty: "ty \<in> {LOCK_SH, LOCK_EX}"
  shows "flock_step (flk_open, \<lambda>_. None, \<lambda>_. 0) (flk_locked ty, \<lambda>_. None, \<lambda>_. 0)"
  by (rule flock_step.lock_call [where u = flk_open and p = 0 and f = 0 and operation = ty])
    (simp_all add: exec_first_lock [OF ty] run_thread_def flk_open_sel kconst fun_eq_iff)

lemma first_lock_reachable: "ty \<in> {LOCK_SH, LOCK_EX} \<Longrightarrow> flock_reachable (flk_locked ty, \<lambda>_. None, \<lambda>_. 0)"
  using boot_open first_lock_step unfolding flock_reachable_def by (blast intro: rtranclp.rtrancl_into_rtrancl)

lemma flk_locked_sel:
  "flocks (flk_locked ty) = (\<lambda>_. flock0)(0 := granted ty flock0)"
  "ftable (flk_locked ty) = (\<lambda>_. file0)(0 := file1\<lparr>holding_flock := ty\<rparr>, 1 := file1)"
  by (simp_all add: flk_locked_def)

theorem flock_mutual_exclusion_witness:
  "fl_state (flocks (flk_locked LOCK_EX) 0) = FLOCK_EXCLUSIVE \<and> shared_holders (flocks (flk_locked LOCK_EX) 0) = 0"
  using flock_mutual_exclusion [OF first_lock_reachable [of LOCK_EX], of 0 0]
  by (simp add: flk_locked_sel file1_def kconst)

theorem flock_record_exact_witness:
  "fl_state (flocks (flk_locked LOCK_SH) 0) \<noteq> FLOCK_INACTIVE \<and>
   shared_holders (flocks (flk_locked LOCK_SH) 0) = int (card (holders (ftable (flk_locked LOCK_SH)) 0 LOCK_SH))"
  using flock_record_exact [OF first_lock_reachable [of LOCK_SH], of 0]
  by (simp add: flk_locked_sel file1_def kconst granted_def)

theorem flock_writer_priority_witness:
  "waiting_exclusive (flocks flk_open 0) = 0 \<and> shared_holders (flocks flk_open 0) < shared_holders (flocks (flk_locked LOCK_SH) 0)"
proof -
  have "shared_holders (flocks flk_open 0) < shared_holders (flocks (flk_locked LOCK_SH) 0)"
    by (simp add: flk_locked_sel flk_open_sel granted_def)
  with flock_writer_priority [OF boot_open first_lock_step [of LOCK_SH], of 0] show ?thesis by (simp add: kconst)
qed

lemma flk_locked_idle: "idle (flk_locked ty)" "curid (flk_locked ty) = 0" "sched_ok (flk_locked ty) [1, 2]"
  using flk_ex_idle by (simp_all add: flk_locked_def flk_open_def sched_ok_def tq_repr_rep idle_def)

text \<open>The second request of thread 0 sleeps.\<close>

lemma second_lock_sleeps:
  "\<exists>(t :: flk) k. flock_reachable (t, [0 \<mapsto> k], \<lambda>_. 0) \<and> 0 \<in> set (wq_list (waitq (flocks t 0))) \<and> asleep (ChanFlock 0) t 0"
proof -
  let ?s = "flk_locked LOCK_EX" and ?fl = "granted LOCK_EX flock0"
  let ?u = "(taken ?s (FlockLk 0))\<lparr>flocks := (flocks ?s)(0 := enlisted 0 LOCK_EX ?fl)\<rparr>"
  have ok: "sched_ok ?u (1 # [2])" using flk_locked_idle(3) [of LOCK_EX] by (simp add: sched_ok_def tq_repr_rep)
  have "FlockLk 0 \<noteq> SchedLk" by simp
  from thread_sleep_switch [OF ok this, of "ChanFlock 0"] obtain t k where t:
    "thread_sleep (ChanFlock 0) (Some (FlockLk 0)) ?u = Sleep (ChanFlock 0) t k"
    "switched (curid ?u) (\<lambda>b. b\<lparr>tcb_state := TSTATE_SLEEP, tcb_channel := ChanFlock 0\<rparr>) 1 ?u t"
    by (auto elim!: sleepsE)
  have cur: "curid ?u = 0" using flk_locked_idle(2) by simp
  have u: "unlinked (TCBPool t p) = unlinked (if p = 1 then (TCBPool ?u p)\<lparr>tcb_state := TSTATE_RUN\<rparr>
        else if p = 0 then (TCBPool ?u p)\<lparr>tcb_state := TSTATE_SLEEP, tcb_channel := ChanFlock 0\<rparr> else TCBPool ?u p)" for p
    using t(2) unfolding switched_def cur by blast
  have "asleep (ChanFlock 0) t 0" using unlinked_fields(1,3) [OF u [of 0]] by (simp add: asleep_def)
  moreover have fl: "flocks t = flocks ?u" using t(2) unfolding switched_def by (intro sched_frame_flk(1)) blast
  then have "0 \<in> set (wq_list (waitq (flocks t 0)))" by (simp add: enlisted_def wq_list_added)
  moreover have "\<exists>k'. file_flock 1 LOCK_EX ?s = Sleep (ChanFlock 0) t k'"
  proof -
    have "\<exists>k'. kthen (spinlock_acquire (FlockLk 0)) (kbind (try_acquire LOCK_EX 0 False) (acq_done 1 0 LOCK_EX)) ?s =
        Sleep (ChanFlock 0) t k'"
    proof -
      have b: "blocked_ex (enlisted 0 LOCK_EX ?fl)" by (simp add: enlisted_def granted_def blocked_ex_def)
      have "\<exists>k'. kbind (await LOCK_EX 0 0) (acq_done 1 0 LOCK_EX) ?u = Sleep (ChanFlock 0) t k'"
        by (simp add: await_def await_exclusive_def wait_while_def kexec kloop_unfold get_fl_def t(1) NINODE_def b)
      then obtain k' where k': "kbind (await LOCK_EX 0 0) (acq_done 1 0 LOCK_EX) ?u = Sleep (ChanFlock 0) t k'" by blast
      have "kthen (spinlock_acquire (FlockLk 0)) (kbind (try_acquire LOCK_EX 0 False) (acq_done 1 0 LOCK_EX)) ?s =
        Sleep (ChanFlock 0) t k'"
        by (rule exec_of_safe_sleep, subst safe_acquire_wait [where p = 0])
          (use k' in \<open>simp_all add: flk_locked_idle flk_locked_sel blocked_def blocked_ex_def granted_def flock0_def kconst safe_def\<close>)
      then show ?thesis by blast
    qed
    moreover have "file_flock 1 LOCK_EX ?s = kthen (spinlock_acquire (FlockLk 0)) (kbind (try_acquire LOCK_EX 0 False) (acq_done 1 0 LOCK_EX)) ?s"
      by (rule file_flock_exec) (simp_all add: flk_locked_sel file1_def kconst)
    ultimately show ?thesis by simp
  qed
  then obtain k' where "file_flock 1 LOCK_EX ?s = Sleep (ChanFlock 0) t k'" by blast
  then have "flock_step (?s, \<lambda>_. None, \<lambda>_. 0) (t, [0 \<mapsto> k'], \<lambda>_. 0)"
    by (intro flock_step.lock_call [where u = ?s and p = 0 and f = 1 and operation = LOCK_EX])
      (simp_all add: run_thread_def flk_locked_idle kconst)
  with first_lock_reachable [of LOCK_EX] have "flock_reachable (t, [0 \<mapsto> k'], \<lambda>_. 0)"
    unfolding flock_reachable_def by (auto intro: rtranclp.rtrancl_into_rtrancl)
  ultimately show ?thesis by blast
qed

theorem flock_waitq_exact_witness:
  "\<exists>(t :: flk) k. flock_reachable (t, [0 \<mapsto> k], \<lambda>_. 0 :: nat) \<and> (\<exists>!i. i < NINODE \<and> 0 \<in> set (wq_list (waitq (flocks t i))))"
proof -
  obtain t :: flk and k where "flock_reachable (t, [0 \<mapsto> k], \<lambda>_. 0)" using second_lock_sleeps by blast
  with flock_waitq_exact [OF this] show ?thesis by (metis (no_types, lifting) fun_upd_same option.distinct(1))
qed

theorem flock_free_lock_taken_witness:
  "\<exists>(t :: flk) k. flock_reachable (t, [0 \<mapsto> k], \<lambda>_. 0 :: nat) \<and> asleep (ChanFlock 0) t 0 \<and>
    ((\<exists>f < NFILE. f_type (ftable t f) = FD_INODE \<and> f_ip (ftable t f) = 0 \<and> holding_flock (ftable t f) \<noteq> 0) \<or>
    (\<exists>q \<in> set (wq_list (waitq (flocks t 0))). wq_req (waitq (flocks t 0)) q = ucast LOCK_EX))"
proof -
  obtain t :: flk and k where *: "flock_reachable (t, [0 \<mapsto> k], \<lambda>_. 0)" "0 \<in> set (wq_list (waitq (flocks t 0)))" "asleep (ChanFlock 0) t 0"
    using second_lock_sleeps by blast
  have "0 < NINODE" by (simp add: NINODE_def)
  from flock_free_lock_taken [OF *(1) this *(2,3)] * show ?thesis by blast
qed

end
