(* ===== verification/Driver.thy ===== *)
theory Driver
  imports Disk FlockSys
begin

text \<open>
  A disk request of a thread that is the only one to use the file system: the thread sleeps, the
  controller carries out the request, its interrupt is handled in whatever thread runs then, and
  the thread is resumed with the buffer filled or written.
\<close>

section \<open>Flags\<close>

definition busy :: "buf \<Rightarrow> bool" where "busy x = bit (b_flags x) 0"
definition valid :: "buf \<Rightarrow> bool" where "valid x = bit (b_flags x) 1"
definition dirty :: "buf \<Rightarrow> bool" where "dirty x = bit (b_flags x) 2"

lemma flag_tests:
  "b_flags x AND B_BUSY = 0 \<longleftrightarrow> \<not> busy x"
  "b_flags x AND B_VALID = 0 \<longleftrightarrow> \<not> valid x"
  "b_flags x AND B_DIRTY = 0 \<longleftrightarrow> \<not> dirty x"
  using and_exp_eq_0_iff_not_bit [of "b_flags x" 0] and_exp_eq_0_iff_not_bit [of "b_flags x" 1]
    and_exp_eq_0_iff_not_bit [of "b_flags x" 2]
  by (simp_all add: kconst busy_def valid_def dirty_def)

lemma flag_done: "b_flags x AND (B_VALID OR B_DIRTY) = B_VALID \<longleftrightarrow> valid x \<and> \<not> dirty x"
proof -
  have "b_flags x AND (B_VALID OR B_DIRTY) = (b_flags x AND B_VALID) OR (b_flags x AND B_DIRTY)"
    by (simp add: bit.conj_disj_distrib)
  moreover have "b_flags x AND B_VALID = (if valid x then B_VALID else 0)"
    "b_flags x AND B_DIRTY = (if dirty x then B_DIRTY else 0)"
    by (rule bit_word_eqI; auto simp: kconst valid_def dirty_def bit_simps less_Suc_eq numeral_2_eq_2 numeral_3_eq_3)+
  ultimately show ?thesis by (simp add: kconst)
qed

definition served :: "buf \<Rightarrow> buf" where
  "served x = x\<lparr>b_flags := (b_flags x OR B_VALID) AND NOT B_DIRTY\<rparr>"

lemma flag_updates:
  "busy (x\<lparr>b_flags := b_flags x OR B_BUSY\<rparr>)" "valid (x\<lparr>b_flags := b_flags x OR B_BUSY\<rparr>) = valid x"
  "dirty (x\<lparr>b_flags := b_flags x OR B_BUSY\<rparr>) = dirty x"
  "busy (x\<lparr>b_flags := b_flags x AND NOT B_BUSY\<rparr>) = False" "valid (x\<lparr>b_flags := b_flags x AND NOT B_BUSY\<rparr>) = valid x"
  "dirty (x\<lparr>b_flags := b_flags x AND NOT B_BUSY\<rparr>) = dirty x"
  "busy (x\<lparr>b_flags := b_flags x OR B_DIRTY\<rparr>) = busy x" "valid (x\<lparr>b_flags := b_flags x OR B_DIRTY\<rparr>) = valid x"
  "dirty (x\<lparr>b_flags := b_flags x OR B_DIRTY\<rparr>)"
  "busy (y\<lparr>b_flags := B_BUSY\<rparr>)" "valid (y\<lparr>b_flags := B_BUSY\<rparr>) = False" "dirty (y\<lparr>b_flags := B_BUSY\<rparr>) = False"
  "busy (served x) = busy x" "valid (served x)" "dirty (served x) = False"
  by (auto simp: busy_def valid_def dirty_def served_def kconst bit_simps numeral_2_eq_2 numeral_3_eq_3)

lemma flag_upd_other [simp]:
  "busy (x\<lparr>b_data := d\<rparr>) = busy x" "valid (x\<lparr>b_data := d\<rparr>) = valid x" "dirty (x\<lparr>b_data := d\<rparr>) = dirty x"
  "busy (x\<lparr>b_next := n\<rparr>) = busy x" "valid (x\<lparr>b_next := n\<rparr>) = valid x" "dirty (x\<lparr>b_next := n\<rparr>) = dirty x"
  "busy (x\<lparr>b_prev := n\<rparr>) = busy x" "valid (x\<lparr>b_prev := n\<rparr>) = valid x" "dirty (x\<lparr>b_prev := n\<rparr>) = dirty x"
  "busy (x\<lparr>b_qnext := q\<rparr>) = busy x" "valid (x\<lparr>b_qnext := q\<rparr>) = valid x" "dirty (x\<lparr>b_qnext := q\<rparr>) = dirty x"
  by (simp_all add: busy_def valid_def dirty_def)

lemma served_fields [simp]:
  "b_dev (served x) = b_dev x" "b_sector (served x) = b_sector x" "b_prev (served x) = b_prev x"
  "b_next (served x) = b_next x" "b_qnext (served x) = b_qnext x" "b_data (served x) = b_data x"
  by (simp_all add: served_def)

section \<open>The address of a request\<close>

lemma mask_bits:
  "bit (0xff :: u32) n = (n < 8)" "bit (0x0f :: u32) n = (n < 4)" "bit (0x0f :: u8) n = (n < 4)"
  "bit (0xe0 :: u32) n = (5 \<le> n \<and> n < 8)"
proof -
  have m: "(0xff :: u32) = mask 8" "(0x0f :: u32) = mask 4" "(0x0f :: u8) = mask 4" "(0xe0 :: u32) = push_bit 5 (mask 3)"
    by (simp_all add: mask_eq_exp_minus_1 push_bit_eq_mult)
  show "bit (0xff :: u32) n = (n < 8)" "bit (0x0f :: u32) n = (n < 4)" "bit (0x0f :: u8) n = (n < 4)"
    "bit (0xe0 :: u32) n = (5 \<le> n \<and> n < 8)"
    unfolding m by (auto simp: bit_simps)
qed

lemma bit_below:
  assumes "(x :: u32) < 2 ^ 28" and "28 \<le> n"
  shows "\<not> bit x n"
proof -
  have "unat x < 2 ^ 28" using assms(1) by (simp add: word_less_nat_alt)
  also have "(2 :: nat) ^ 28 \<le> 2 ^ n" using assms(2) by (intro power_increasing) auto
  finally have "drop_bit n (unat x) = 0" by (simp add: drop_bit_eq_div)
  then have "\<not> bit (unat x) n" by (simp add: bit_iff_odd_drop_bit)
  then show ?thesis by (simp add: bit_unsigned_iff bit_simps)
qed

lemma bit_byte:
  "bit (ucast (ucast (x AND 0xff :: u32) :: u8) :: u32) n = (n < 8 \<and> bit x n)"
  "bit (ucast (ucast (drop_bit k x AND 0xff :: u32) :: u8) :: u32) n = (n < 8 \<and> bit x (k + n))"
  "bit (ucast ((ucast (0xe0 OR push_bit 4 (d AND 1 :: u32) OR (drop_bit 24 x AND 0x0f)) :: u8) AND 0x0f) :: u32) n =
     (n < 4 \<and> bit x (24 + n))"
  by (simp only: bit_unsigned_iff bit_and_iff bit_or_iff bit_push_bit_iff bit_drop_bit_eq mask_bits o_def; auto)+

lemma lba_split:
  assumes "(x :: u32) < 2 ^ 28"
  shows "ucast (ucast (x AND 0xff) :: u8) OR push_bit 8 (ucast (ucast (drop_bit 8 x AND 0xff) :: u8)) OR
     push_bit 16 (ucast (ucast (drop_bit 16 x AND 0xff) :: u8)) OR
     push_bit 24 (ucast ((ucast (0xe0 OR push_bit 4 (d AND 1 :: u32) OR (drop_bit 24 x AND 0x0f)) :: u8) AND 0x0f)) = x"
  (is "?a OR push_bit 8 ?b OR push_bit 16 ?c OR push_bit 24 ?d = x")
proof (rule bit_word_eqI)
  fix n assume n: "n < LENGTH(32)"
  have "bit (?a OR push_bit 8 ?b OR push_bit 16 ?c OR push_bit 24 ?d) n \<longleftrightarrow>
     bit ?a n \<or> 8 \<le> n \<and> bit ?b (n - 8) \<or> 16 \<le> n \<and> bit ?c (n - 16) \<or> 24 \<le> n \<and> bit ?d (n - 24)"
    using n by (simp only: bit_or_iff bit_push_bit_iff) (simp add: disj_assoc)
  also have "\<dots> \<longleftrightarrow> n < 8 \<and> bit x n \<or> 8 \<le> n \<and> n - 8 < 8 \<and> bit x (8 + (n - 8)) \<or>
        16 \<le> n \<and> n - 16 < 8 \<and> bit x (16 + (n - 16)) \<or> 24 \<le> n \<and> n - 24 < 4 \<and> bit x (24 + (n - 24))"
    by (simp only: bit_byte bit_drop_bit_eq o_def)
  also have "\<dots> \<longleftrightarrow> bit x n"
  proof -
    consider "n < 8" | "8 \<le> n" "n < 16" | "16 \<le> n" "n < 24" | "24 \<le> n" "n < 28" | "28 \<le> n" by linarith
    then show ?thesis by cases (auto simp: bit_below [OF assms])
  qed
  finally show "bit (?a OR push_bit 8 ?b OR push_bit 16 ?c OR push_bit 24 ?d) n = bit x n" .
qed

lemma drive_bit: "bit (ucast (0xe0 OR push_bit 4 (d AND 1 :: u32) OR (drop_bit 24 x AND 0x0f)) :: u8) 4 = bit d 0"
  by (simp only: bit_unsigned_iff bit_and_iff bit_or_iff bit_push_bit_iff bit_drop_bit_eq mask_bits o_def)
    (auto simp: bit_1_iff)

section \<open>The user of the file system and its environment\<close>

fun fs_chan :: "chan \<Rightarrow> bool" where
  "fs_chan (ChanBuf b) = True"
| "fs_chan (ChanInode i) = True"
| "fs_chan ChanLog = True"
| "fs_chan _ = False"

definition ide_ready :: "'z dsk_scheme \<Rightarrow> bool" where
  "ide_ready s = (\<forall>d. ide_status s d AND (IDE_BSY OR IDE_DRDY) = IDE_DRDY \<and> ide_status s d AND (IDE_DF OR IDE_ERR) = 0)"

text \<open>
  \<open>fs_ok p s\<close>: thread \<open>p\<close> runs, holds no spinlock, another thread is ready to run while \<open>p\<close> sleeps,
  no thread sleeps in the file system, and the controller is idle and works.
\<close>

definition fs_ok :: "nat \<Rightarrow> 'z dsk_scheme \<Rightarrow> bool" where
  "fs_ok p s = (cpu_ok s \<and> (\<forall>l. lock_free s l) \<and> curid s = p \<and> (\<exists>x xs. sched_ok s (x # xs)) \<and>
     (\<forall>q < NUM_IDS. \<not> fs_chan (tcb_channel (TCBPool s q))) \<and> ide_ready s \<and> havedisk1 s \<and> idequeue s = None)"

text \<open>What the file system sees of a state.\<close>

definition same_fs :: "'z dsk_scheme \<Rightarrow> 'z dsk_scheme \<Rightarrow> bool" where
  "same_fs s t = (bufs t = bufs s \<and> idequeue t = idequeue s \<and> havedisk1 t = havedisk1 s \<and> ports t = ports s \<and>
     ide_req t = ide_req s \<and> ide_status t = ide_status s \<and> disk t = disk s \<and> dsk.more t = dsk.more s)"

text \<open>
  \<open>others p t v\<close>: while \<open>p\<close> sleeps the other threads do anything that does not concern the file
  system.
\<close>

definition others :: "nat \<Rightarrow> 'z dsk_scheme \<Rightarrow> 'z dsk_scheme \<Rightarrow> bool" where
  "others p t v = (cpu_ok v \<and> (\<forall>l. lock_free v l) \<and> (\<exists>xs. sched_ok v xs) \<and>
     (\<forall>q < NUM_IDS. q \<noteq> p \<longrightarrow> \<not> fs_chan (tcb_channel (TCBPool v q))) \<and>
     tcb_channel (TCBPool v p) = tcb_channel (TCBPool t p) \<and> same_fs t v)"

text \<open>
  \<open>resumed p t u\<close>: \<open>p\<close> went to sleep in \<open>t\<close>; the controller carried out the request, the interrupt
  was handled, and \<open>p\<close> runs again in \<open>u\<close>.
\<close>

definition resumed :: "nat \<Rightarrow> 'z dsk_scheme \<Rightarrow> 'z dsk_scheme \<Rightarrow> bool" where
  "resumed p t u = (\<exists>v w. others p t v \<and> ide_intr (ide_serve v) = Ret () w \<and> others p w u \<and>
     curid u = p \<and> (\<exists>x xs. sched_ok u (x # xs)))"

text \<open>
  At every point at which \<open>p\<close> sleeps, the contents of the disk satisfy \<open>g\<close> before and after the
  request is carried out, and \<open>p\<close> can be resumed.
\<close>

definition disk_env :: "nat \<Rightarrow> ((u32 \<Rightarrow> block) \<Rightarrow> bool) \<Rightarrow> 'z dsk_scheme env" where
  "disk_env p g = (\<lambda>c t. g (disk t True) \<and> g (disk (ide_serve t) True) \<and> (\<exists>u. resumed p t u), \<lambda>c t u. resumed p t u)"

section \<open>Driver functions\<close>

lemma exec_bufs [kexec]:
  "b \<le> NBUF \<Longrightarrow> get_buf b g s = Ret (g (bufs s b)) s"
  "b \<le> NBUF \<Longrightarrow> upd_buf b h s = Ret () (s\<lparr>bufs := (bufs s)(b := h (bufs s b))\<rparr>)"
  by (simp_all add: get_buf_def upd_buf_def kexec)

lemma completes_bufs [kwp]:
  "b \<le> NBUF \<Longrightarrow> completes E (get_buf b g) s Q = Q (g (bufs s b)) s"
  "b \<le> NBUF \<Longrightarrow> completes E (upd_buf b h) s Q' = Q' () (s\<lparr>bufs := (bufs s)(b := h (bufs s b))\<rparr>)"
  by (simp_all add: exec_bufs completes_Ret)

lemma exec_ide_wait [kexec]: "ide_ready s \<Longrightarrow> ide_wait e s = Ret 0 s"
  by (simp add: ide_wait_def ide_inb_def ide_ready_def kexec)

lemma dsk_upd [simp]:
  "lock_free (s\<lparr>bufs := B\<rparr>) l = lock_free s l" "lock_free (s\<lparr>idequeue := q\<rparr>) l = lock_free s l"
  "lock_free (s\<lparr>ports := P\<rparr>) l = lock_free s l" "lock_free (s\<lparr>ide_req := r\<rparr>) l = lock_free s l"
  "lock_free (s\<lparr>disk := D\<rparr>) l = lock_free s l"
  "cpu_ok (s\<lparr>bufs := B\<rparr>) = cpu_ok s" "cpu_ok (s\<lparr>idequeue := q\<rparr>) = cpu_ok s"
  "cpu_ok (s\<lparr>ports := P\<rparr>) = cpu_ok s" "cpu_ok (s\<lparr>ide_req := r\<rparr>) = cpu_ok s" "cpu_ok (s\<lparr>disk := D\<rparr>) = cpu_ok s"
  "ide_ready (s\<lparr>bufs := B\<rparr>) = ide_ready s" "ide_ready (s\<lparr>idequeue := q\<rparr>) = ide_ready s"
  "ide_ready (s\<lparr>ports := P\<rparr>) = ide_ready s" "ide_ready (s\<lparr>ide_req := r\<rparr>) = ide_ready s"
  "ide_ready (s\<lparr>disk := D\<rparr>) = ide_ready s" "ide_ready (s\<lparr>locks := L\<rparr>) = ide_ready s" "ide_ready (taken s k) = ide_ready s"
  by (simp_all add: lock_free_def cpu_ok_def kstack_ok_def ide_ready_def taken_def)

lemma taken_dsk [simp]:
  "bufs (taken s l) = bufs s" "idequeue (taken s l) = idequeue s" "havedisk1 (taken s l) = havedisk1 s"
  "ports (taken s l) = ports s" "ide_req (taken s l) = ide_req s" "ide_status (taken s l) = ide_status s"
  "disk (taken s l) = disk s" "dsk.more (taken s l) = dsk.more s"
  by (simp_all add: taken_def)

text \<open>The state in which the handler of the interrupt wakes the thread up.\<close>

definition intr_done :: "nat \<Rightarrow> 'z dsk_scheme \<Rightarrow> 'z dsk_scheme" where
  "intr_done b s = s\<lparr>idequeue := None, bufs := (bufs s)(b := served (if dirty (bufs s b) then bufs s b
     else (bufs s b)\<lparr>b_data := disk s (ide_drive s) (ide_lba s)\<rparr>))\<rparr>"

lemma ide_intr_unfold:
  assumes "cpu_ok s" "lock_free s IdeLk" "ide_ready s" "idequeue s = Some b" "b \<le> NBUF" "b_qnext (bufs s b) = None"
  shows "ide_intr s = obind (thread_wakeup (ChanBuf b) (intr_done b (taken s IdeLk))) (\<lambda>_.
     kbind (kget idequeue) (\<lambda>q. kthen (kwhen (q \<noteq> None) (ide_start q)) (spinlock_release IdeLk)))"
  using assms
  by (simp add: ide_intr_def kexec flag_tests ide_insl_def intr_done_def served_def ide_drive_def ide_lba_def)

lemma ide_intr_effect:
  assumes ok: "cpu_ok s" "\<And>l. lock_free s l" "ide_ready s" and q: "idequeue s = Some b" "b \<le> NBUF" "b_qnext (bufs s b) = None"
    and r: "ide_intr s = Ret () w"
  shows "same_fs (intr_done b s) w"
proof -
  let ?s = "intr_done b (taken s IdeLk)"
  have "cpu_ok ?s" "lock_free ?s SchedLk" using ok by (simp_all add: intr_done_def)
  note wk = safe_thread_wakeup [OF this, of "ChanBuf b"]
  have u: "obind (thread_wakeup (ChanBuf b) ?s) (\<lambda>_.
     kbind (kget idequeue) (\<lambda>q. kthen (kwhen (q \<noteq> None) (ide_start q)) (spinlock_release IdeLk))) = Ret () w"
    using ide_intr_unfold [OF ok(1) ok(2) ok(3) q] r by simp
  show ?thesis
  proof (cases "thread_wakeup (ChanBuf b) ?s")
    case (Ret x v)
    with wk have "woken (ChanBuf b) ?s v" by (simp add: safe_def)
    then obtain P Q where v: "v = ?s\<lparr>TCBPool := P, TQueuePool := Q\<rparr>" by (auto simp: woken_def)
    with u Ret have "w = v\<lparr>locks := (locks v)(IdeLk := unlocked)\<rparr>" by (simp add: kexec intr_done_def)
    then show ?thesis by (simp add: v same_fs_def intr_done_def ide_drive_def ide_lba_def)
  qed (use u wk in \<open>auto simp: safe_def\<close>)
qed

lemma same_fs_refl [simp]: "same_fs s s"
  by (simp add: same_fs_def)

lemma same_fs_trans: "same_fs s t \<Longrightarrow> same_fs t u \<Longrightarrow> same_fs s u"
  by (simp add: same_fs_def)

text \<open>\<open>p\<close> sleeps for buffer \<open>b\<close>, the only one in the queue of the driver.\<close>

definition waiting :: "nat \<Rightarrow> nat \<Rightarrow> 'z dsk_scheme \<Rightarrow> bool" where
  "waiting p b t = (cpu_ok t \<and> (\<forall>l. lock_free t l) \<and> p < NUM_IDS \<and> (\<exists>xs. sched_ok t xs \<and> p \<notin> insert (curid t) (set xs)) \<and>
     (\<forall>q < NUM_IDS. q \<noteq> p \<longrightarrow> \<not> fs_chan (tcb_channel (TCBPool t q))) \<and>
     idequeue t = Some b \<and> b \<le> NBUF \<and> b_qnext (bufs t b) = None \<and> ide_ready t)"

lemma serve_frame:
  "\<exists>D r. ide_serve t = t\<lparr>disk := D, ide_req := r\<rparr>"
proof (cases "ide_req t")
  case None
  then have "ide_serve t = t\<lparr>disk := disk t, ide_req := None\<rparr>" by (simp add: ide_serve_def)
  then show ?thesis by blast
next
  case (Some r)
  show ?thesis
  proof (cases r)
    case IdeRead
    with Some have "ide_serve t = t\<lparr>disk := disk t, ide_req := None\<rparr>" by (simp add: ide_serve_def)
    then show ?thesis by blast
  next
    case (IdeWrite d)
    with Some show ?thesis by (auto simp: ide_serve_def)
  qed
qed

lemma sched_ok_dsk [simp]:
  "sched_ok (s\<lparr>bufs := B\<rparr>) xs = sched_ok s xs" "sched_ok (s\<lparr>idequeue := q\<rparr>) xs = sched_ok s xs"
  "sched_ok (s\<lparr>ports := P\<rparr>) xs = sched_ok s xs" "sched_ok (s\<lparr>ide_req := r\<rparr>) xs = sched_ok s xs"
  "sched_ok (s\<lparr>disk := D\<rparr>) xs = sched_ok s xs"
  by (simp_all add: sched_ok_def tq_repr_def)

lemma sched_ok_lock: "L SchedLk = locks s SchedLk \<Longrightarrow> sched_ok (s\<lparr>locks := L\<rparr>) xs = sched_ok s xs"
  by (simp add: sched_ok_def tq_repr_def lock_free_def)

lemma waiting_effect:
  assumes w: "waiting p b t" and r: "resumed p t u"
  shows "same_fs (intr_done b (ide_serve t)) u" and "cpu_ok u" and "lock_free u l" and "curid u = p"
    and "\<exists>x xs. sched_ok u (x # xs)" and "q < NUM_IDS \<Longrightarrow> q \<noteq> p \<Longrightarrow> \<not> fs_chan (tcb_channel (TCBPool u q))"
proof -
  from r obtain v w where r: "others p t v" "ide_intr (ide_serve v) = Ret () w" "others p w u" "curid u = p"
      "\<exists>x xs. sched_ok u (x # xs)" by (auto simp: resumed_def)
  obtain D r' where sv: "ide_serve v = v\<lparr>disk := D, ide_req := r'\<rparr>" using serve_frame by blast
  have "same_fs t v" using r(1) by (simp add: others_def)
  have "same_fs (intr_done b (ide_serve v)) w"
  proof (rule ide_intr_effect [OF _ _ _ _ _ _ r(2)])
    show "cpu_ok (ide_serve v)" "\<And>l. lock_free (ide_serve v) l" using r(1) by (simp_all add: others_def sv)
    show "ide_ready (ide_serve v)" using w \<open>same_fs t v\<close> by (simp add: waiting_def sv ide_ready_def same_fs_def)
    show "idequeue (ide_serve v) = Some b" "b \<le> NBUF" "b_qnext (bufs (ide_serve v) b) = None"
      using w \<open>same_fs t v\<close> by (simp_all add: waiting_def sv same_fs_def)
  qed
  moreover have "same_fs (intr_done b (ide_serve t)) (intr_done b (ide_serve v))"
    using \<open>same_fs t v\<close> by (auto simp: same_fs_def intr_done_def ide_serve_def ide_drive_def ide_lba_def split: option.splits ide_request.splits)
  moreover have "same_fs w u" using r(3) by (simp add: others_def)
  ultimately show "same_fs (intr_done b (ide_serve t)) u" using same_fs_trans by blast
  show "cpu_ok u" and "lock_free u l" and "curid u = p"
    and "\<exists>x xs. sched_ok u (x # xs)" and "q < NUM_IDS \<Longrightarrow> q \<noteq> p \<Longrightarrow> \<not> fs_chan (tcb_channel (TCBPool u q))"
    using r(3-5) by (simp_all add: others_def)
qed

lemma woken_channel:
  assumes "woken c s t"
  shows "tcb_channel (TCBPool t q) = tcb_channel (TCBPool s q)"
proof -
  have u: "unlinked (TCBPool t q) = unlinked (
        if q < NUM_IDS \<and> tcb_channel (TCBPool s q) = c then (TCBPool s q)\<lparr>tcb_state := TSTATE_READY\<rparr>
        else TCBPool s q)" using assms by (simp add: woken_def)
  show ?thesis using unlinked_fields(3) [OF u] by (simp split: if_splits)
qed

lemma switched_channel:
  assumes "switched old f new s t" and "r \<noteq> old"
  shows "tcb_channel (TCBPool t r) = tcb_channel (TCBPool s r)"
proof -
  have u: "unlinked (TCBPool t r) = unlinked (if r = new then (TCBPool s r)\<lparr>tcb_state := TSTATE_RUN\<rparr>
        else if r = old then f (TCBPool s r) else TCBPool s r)" using assms(1) by (simp add: switched_def)
  show ?thesis using unlinked_fields(3) [OF u] assms(2) by (simp split: if_splits)
qed

text \<open>The thread can be resumed: the handler returns, and a scheduler state with \<open>p\<close> running exists.\<close>

lemma scheduled_others:
  assumes "cpu_ok w" "\<And>l. lock_free w l" "p < NUM_IDS"
    and "\<And>q. q < NUM_IDS \<Longrightarrow> q \<noteq> p \<Longrightarrow> \<not> fs_chan (tcb_channel (TCBPool w q))"
  shows "\<exists>u. others p w u \<and> curid u = p \<and> (\<exists>x xs. sched_ok u (x # xs))"
proof -
  define r :: nat where "r = (if p = 0 then 1 else 0)"
  define u where "u = w\<lparr>CURID := (CURID w)(ks_cpu_idx w := p),
     TCBPool := (\<lambda>q. (TCBPool w q)\<lparr>tcb_prev := NUM_IDS, tcb_next := NUM_IDS\<rparr>),
     TQueuePool := (TQueuePool w)(NUM_IDS := \<lparr>tq_head = r, tq_tail = r\<rparr>)\<rparr>"
  have "r < NUM_IDS" "r \<noteq> p" by (simp_all add: r_def kconst)
  then have "sched_ok u [r]"
    using assms by (simp add: u_def sched_ok_def tq_repr_def) (simp add: kconst)
  moreover have "same_fs w u" by (simp add: u_def same_fs_def)
  ultimately have "others p w u" "curid u = p" using assms by (auto simp: u_def others_def)
  with \<open>sched_ok u [r]\<close> show ?thesis by blast
qed

lemma waiting_resumed:
  assumes w: "waiting p b t"
  shows "\<exists>u. resumed p t u"
proof -
  obtain D r where sv: "ide_serve t = t\<lparr>disk := D, ide_req := r\<rparr>" using serve_frame by blast
  let ?s = "intr_done b (taken (ide_serve t) IdeLk)"
  from w obtain xs where xs: "sched_ok t xs" "p \<notin> insert (curid t) (set xs)" by (auto simp: waiting_def)
  have "sched_ok ?s xs" using xs(1) by (simp add: intr_done_def sv taken_def sched_ok_lock)
  moreover have "no_stale (ChanBuf b) ?s xs"
  proof -
    have "set xs \<subseteq> {..<NUM_IDS}" "curid t < NUM_IDS" using xs(1) by (auto simp: sched_ok_def tq_repr_def)
    then have "\<not> fs_chan (tcb_channel (TCBPool t q))" if "q \<in> insert (curid t) (set xs)" for q
      using w xs(2) that by (auto simp: waiting_def)
    then show ?thesis by (force simp: no_stale_def intr_done_def sv)
  qed
  ultimately obtain v where v: "thread_wakeup (ChanBuf b) ?s = Ret () v" "woken (ChanBuf b) ?s v"
    by (rule returns_thread_wakeup [THEN returnsE]) simp
  from v(2) obtain P Q where PQ: "v = ?s\<lparr>TCBPool := P, TQueuePool := Q\<rparr>" by (auto simp: woken_def)
  have ch: "tcb_channel (TCBPool v q) = tcb_channel (TCBPool t q)" for q
    using woken_channel [OF v(2), of q] by (simp add: intr_done_def sv)
  define z where "z = v\<lparr>locks := (locks v)(IdeLk := unlocked)\<rparr>"
  have i: "ide_intr (ide_serve t) = Ret () z"
    using w v(1) by (subst ide_intr_unfold [of _ b]) (auto simp: waiting_def sv kexec PQ intr_done_def z_def)
  have "cpu_ok z" "\<And>l. lock_free z l" "TCBPool z = TCBPool v"
    using w by (auto simp: z_def PQ intr_done_def sv waiting_def lock_free_def taken_def)
  then obtain u where "others p z u" "curid u = p" "\<exists>x xs. sched_ok u (x # xs)"
    using scheduled_others [of z p] w ch by (auto simp: waiting_def)
  moreover have "others p t t" using w xs(1) by (auto simp: others_def waiting_def)
  ultimately show ?thesis unfolding resumed_def using i by blast
qed

section \<open>Requests\<close>

definition issued :: "buf \<Rightarrow> 'z dsk_scheme \<Rightarrow> 'z dsk_scheme" where
  "issued x s = s\<lparr>ports := (ports s)(0x3f6 := 0, 0x1f2 := 1, 0x1f3 := ucast (b_sector x AND 0xff),
      0x1f4 := ucast (drop_bit 8 (b_sector x) AND 0xff), 0x1f5 := ucast (drop_bit 16 (b_sector x) AND 0xff),
      0x1f6 := ucast (0xe0 OR push_bit 4 (b_dev x AND 1) OR (drop_bit 24 (b_sector x) AND 0x0f)),
      0x1f7 := if dirty x then IDE_CMD_WRITE else IDE_CMD_READ),
    ide_req := Some (if dirty x then IdeWrite (b_data x) else IdeRead)\<rparr>"

lemma exec_ide_start [kexec]:
  "ide_ready s \<Longrightarrow> b \<le> NBUF \<Longrightarrow> ide_start (Some b) s = Ret () (issued (bufs s b) s)"
  by (simp add: ide_start_def kexec outb_def ide_outsl_def issued_def flag_tests fun_upd_twist)

lemma issued_address:
  assumes "b_sector x < 2 ^ 28"
  shows "ide_lba (issued x s) = b_sector x" and "ide_drive (issued x s) = bit (b_dev x) 0"
  using lba_split [OF assms, of "b_dev x"] drive_bit [of "b_dev x" "b_sector x"]
  by (simp_all add: ide_lba_def ide_drive_def issued_def)

text \<open>The buffer and the disk after a request.\<close>

definition done_buf :: "(u32 \<Rightarrow> block) \<Rightarrow> buf \<Rightarrow> buf" where
  "done_buf D x = (served (if dirty x then x else x\<lparr>b_data := D (b_sector x)\<rparr>))\<lparr>b_qnext := None\<rparr>"

definition done_disk :: "(u32 \<Rightarrow> block) \<Rightarrow> buf \<Rightarrow> u32 \<Rightarrow> block" where
  "done_disk D x = (if dirty x then D(b_sector x := b_data x) else D)"

lemma completes_ide_rw:
  fixes s :: "'z dsk_scheme"
  assumes ok: "fs_ok p s" and p: "p < NUM_IDS" and b: "b < NBUF" and x: "x = bufs s b" "busy x" "\<not> (valid x \<and> \<not> dirty x)" "b_dev x = 1"
      "b_sector x < 2 ^ 28"
    and g: "g (disk s True)" "g (done_disk (disk s True) x)"
    and Q: "\<And>t. fs_ok p t \<Longrightarrow> dsk.more t = dsk.more s \<Longrightarrow> bufs t = (bufs s)(b := done_buf (disk s True) x) \<Longrightarrow>
      disk t True = done_disk (disk s True) x \<Longrightarrow> Q () t"
  shows "completes (disk_env p g) (ide_rw b) s Q"
proof -
  let ?body = "kbind (get_buf b b_flags) (\<lambda>f.
        if f AND (B_VALID OR B_DIRTY) \<noteq> B_VALID
        then kthen (thread_sleep (ChanBuf b) (Some IdeLk)) (kret None)
        else kret (Some ())) :: ('z dsk_scheme, unit option) kmon"
  define y where "y = x\<lparr>b_qnext := None\<rparr>"
  define s2 where "s2 = issued y ((taken s IdeLk)\<lparr>bufs := (bufs s)(b := y), idequeue := Some b\<rparr>)"
  have y: "busy y" "\<not> (valid y \<and> \<not> dirty y)" "b_dev y = 1" "b_sector y < 2 ^ 28" "b_qnext y = None"
    using x by (simp_all add: y_def)
  from ok obtain q qs where s: "cpu_ok s" "\<And>l. lock_free s l" "curid s = p" "sched_ok s (q # qs)" "ide_ready s" "havedisk1 s"
      "idequeue s = None" "\<And>r. r < NUM_IDS \<Longrightarrow> \<not> fs_chan (tcb_channel (TCBPool s r))"
    by (auto simp: fs_ok_def)
  have start: "ide_rw b s = obind (kloop ?body s2) (\<lambda>_. spinlock_release IdeLk)"
    using s b x(2-4) unfolding x(1)
    by (simp add: ide_rw_def ide_append_def kexec flag_tests flag_done s2_def y_def x(1) [symmetric])
  have body: "?body t = (if valid (bufs t b) \<and> \<not> dirty (bufs t b) then Ret (Some ()) t
      else kthen (thread_sleep (ChanBuf b) (Some IdeLk)) (kret None) t)" for t :: "'z dsk_scheme"
    using b by (simp add: kexec flag_done)
  have s2: "bufs s2 = (bufs s)(b := y)" "dsk.more s2 = dsk.more s" "disk s2 = disk s" "curid s2 = p" "TCBPool s2 = TCBPool s"
    "\<forall>l. l \<noteq> IdeLk \<longrightarrow> locks s2 l = unlocked" "idequeue s2 = Some b" "ide_ready s2" "havedisk1 s2" "ks_cpu_idx s2 = ks_cpu_idx s"
    "sched_ok s2 (q # qs)"
    using s by (simp_all add: s2_def issued_def taken_def sched_ok_lock ide_ready_def lock_free_def)
  have "ide_drive s2" unfolding s2_def using issued_address(2) [OF y(4)] y(3) by simp
  moreover have "ide_lba s2 = b_sector x" unfolding s2_def issued_address(1) [OF y(4)] by (simp add: y_def)
  moreover have "ide_req s2 = Some (if dirty x then IdeWrite (b_data x) else IdeRead)" by (simp add: s2_def issued_def y_def)
  ultimately have serve: "ide_drive s2" "ide_lba s2 = b_sector x"
    "ide_req s2 = Some (if dirty x then IdeWrite (b_data x) else IdeRead)" by simp_all
  obtain t where t: "thread_sleep (ChanBuf b) (Some IdeLk) s2 = Sleep (ChanBuf b) t (sleep_tail p IdeLk)" "sched_ok t qs"
      "locks t = (locks s2)(IdeLk := unlocked)" "switched p (\<lambda>c. c\<lparr>tcb_state := TSTATE_SLEEP, tcb_channel := ChanBuf b\<rparr>) q s2 t"
    using thread_sleep_switch [OF s2(11), of IdeLk "ChanBuf b"] s2(4) by (auto elim: sleepsE)
  from t(4) have fr: "t = s2\<lparr>locks := locks t, CURID := CURID t, TCBPool := TCBPool t,
     TQueuePool := TQueuePool t, kctx_pool := kctx_pool t, cpu_regs := cpu_regs t\<rparr>" "curid t = q"
    unfolding switched_def sched_frame_def by blast+
  have td: "bufs t = bufs s2" "idequeue t = idequeue s2" "dsk.more t = dsk.more s2" "disk t = disk s2" "ide_req t = ide_req s2"
    "ide_status t = ide_status s2" "havedisk1 t = havedisk1 s2" "ports t = ports s2"
    by (subst fr(1), simp)+
  have chan: "tcb_channel (TCBPool t r) = tcb_channel (TCBPool s r)" if "r \<noteq> p" for r
    using switched_channel [OF t(4) that] by (simp add: s2(5))
  have w: "waiting p b t"
    using t(2,3) s p chan y(5) b s2 fr(2)
    by (auto simp: waiting_def td lock_free_def sched_ok_def ide_ready_def)
  have D: "disk (ide_serve t) True = done_disk (disk s True) x"
    using serve s2(3) by (auto simp: ide_serve_def td done_disk_def ide_drive_def ide_lba_def)
  let ?Q = "\<lambda>_ t. completes (disk_env p g) (spinlock_release IdeLk) t Q"
  have rest: "completes (disk_env p g) (kthen (sleep_tail p IdeLk) (kret None)) u
      (\<lambda>x t. case x of Some y \<Rightarrow> ?Q y t | None \<Rightarrow> completes (disk_env p g) (kloop ?body) t ?Q)" if r: "resumed p t u" for u
  proof -
    note e = waiting_effect [OF w r]
    define v where "v = u\<lparr>TCBPool := (TCBPool u)(p := (TCBPool u p)\<lparr>tcb_channel := ChanNull\<rparr>)\<rparr>"
    have u: "bufs u = (bufs s)(b := done_buf (disk s True) x)" "disk u True = done_disk (disk s True) x"
      "dsk.more u = dsk.more s" "idequeue u = None" "havedisk1 u" "ide_ready u"
      using e(1) serve s2 D
      by (auto simp: same_fs_def intr_done_def ide_serve_def td ide_drive_def ide_lba_def done_buf_def done_disk_def y_def served_def
          ide_ready_def split: if_splits)
    have tail: "sleep_tail p IdeLk u = Ret () (taken v IdeLk)"
      using exec_sleep_tail [OF e(2) e(3) e(3) p, of IdeLk] by (simp add: v_def)
    have "lock_free v IdeLk" using e(3) by (simp add: v_def)
    moreover have "kloop ?body (taken v IdeLk) = Ret () (taken v IdeLk)"
      by (rule kloop_leave, subst body) (simp add: v_def u done_buf_def flag_updates)
    moreover have "Q () v"
    proof (rule Q)
      obtain r rs where "sched_ok u (r # rs)" using e(5) by blast
      then have "sched_ok v (r # rs)" by (simp add: v_def sched_ok_def tq_repr_rep)
      moreover have "\<not> fs_chan (tcb_channel (TCBPool v r))" if "r < NUM_IDS" for r
        using e(6) that by (simp add: v_def)
      ultimately show "fs_ok p v" using e u by (auto simp: fs_ok_def v_def ide_ready_def)
      show "dsk.more v = dsk.more s" "bufs v = (bufs s)(b := done_buf (disk s True) x)" "disk v True = done_disk (disk s True) x"
        using u by (simp_all add: v_def)
    qed
    ultimately show ?thesis using tail by (simp add: completes_def kexec)
  qed
  have bs: "?body s2 = Sleep (ChanBuf b) t (kthen (sleep_tail p IdeLk) (kret None))"
    using y(2) t(1) by (subst body) (simp add: s2(1) kexec kthen_def kbind_def)
  have "completes (disk_env p g) (kloop ?body) s2 ?Q"
    using bs rest g D waiting_resumed [OF w] s2(3) td(4)
    by (subst completes_kloop) (auto simp: completes_def disk_env_def)
  then show ?thesis using start by (simp add: completes_def finishes_obind)
qed

section \<open>A state of the system\<close>

definition buf0 :: buf where
  "buf0 = \<lparr>b_flags = 0, b_dev = 0, b_sector = 0, b_prev = 0, b_next = 0, b_qnext = None, b_data = (\<lambda>_. 0)\<rparr>"

text \<open>Thread 0 runs, threads 1 and 2 are ready, and the disk is all zero.\<close>

definition dsk_ex :: dsk where
  "dsk_ex = flk.extend flk_ex (dsk.fields (\<lambda>_. buf0) None True 1 0 0 (\<lambda>_. 0) None (\<lambda>_. IDE_DRDY) (\<lambda>_ _ _. 0))"

lemma dsk_ex_flk: "locks dsk_ex = locks flk_ex" "pcpus dsk_ex = pcpus flk_ex" "CURID dsk_ex = CURID flk_ex"
  "ks_magic dsk_ex = ks_magic flk_ex" "ks_cpu_idx dsk_ex = ks_cpu_idx flk_ex" "TCBPool dsk_ex = TCBPool flk_ex"
  "TQueuePool dsk_ex = TQueuePool flk_ex" "bufs dsk_ex = (\<lambda>_. buf0)" "idequeue dsk_ex = None" "havedisk1 dsk_ex"
  "ide_status dsk_ex = (\<lambda>_. IDE_DRDY)" "disk dsk_ex = (\<lambda>_ _ _. 0)"
  by (simp_all add: dsk_ex_def flk.defs dsk.defs)

lemma dsk_ex_ok: "fs_ok 0 dsk_ex"
proof -
  have "sched_ok dsk_ex [1, 2]" "cpu_ok dsk_ex" "\<And>l. lock_free dsk_ex l" "curid dsk_ex = 0"
    using flk_ex_idle by (simp_all add: sched_ok_def idle_def cpu_ok_def kstack_ok_def lock_free_def tq_repr_def dsk_ex_flk)
  moreover have "tcb_channel (TCBPool dsk_ex q) = ChanNull" for q
    by (simp add: dsk_ex_flk flk_ex_sched sched_ex_defs)
  moreover have "ide_ready dsk_ex" by (simp add: ide_ready_def dsk_ex_flk kconst)
  ultimately show ?thesis by (auto simp: fs_ok_def dsk_ex_flk)
qed

end
