(* ===== verification/Log.thy ===== *)
theory Log
  imports Disk
begin

text \<open>
  The block layer \<^verbatim>\<open>kern/fs/block.c\<close> and the redo log \<^verbatim>\<open>kern/fs/log.c\<close>, with the on-disk format of
  \<^verbatim>\<open>kern/fs/dinode.h\<close>.
\<close>

section \<open>Integers in blocks\<close>

definition get16 :: "block \<Rightarrow> nat \<Rightarrow> 16 word" where
  "get16 d a = ucast (d a) OR push_bit 8 (ucast (d (a + 1)))"

definition put16 :: "nat \<Rightarrow> 16 word \<Rightarrow> block \<Rightarrow> block" where
  "put16 a v d = d(a := ucast v, a + 1 := ucast (drop_bit 8 v))"

definition get32 :: "block \<Rightarrow> nat \<Rightarrow> u32" where
  "get32 d a = ucast (d a) OR push_bit 8 (ucast (d (a + 1))) OR push_bit 16 (ucast (d (a + 2))) OR
     push_bit 24 (ucast (d (a + 3)))"

definition put32 :: "nat \<Rightarrow> u32 \<Rightarrow> block \<Rightarrow> block" where
  "put32 a v d = d(a := ucast v, a + 1 := ucast (drop_bit 8 v), a + 2 := ucast (drop_bit 16 v),
     a + 3 := ucast (drop_bit 24 v))"

section \<open>On-disk format\<close>

definition NDIRECT :: nat where [kconst]: "NDIRECT = 12"
definition NINDIRECT :: nat where [kconst]: "NINDIRECT = 128"
definition MAXFILE :: nat where [kconst]: "MAXFILE = 140"
definition IPB :: nat where [kconst]: "IPB = 8"
definition BPB :: nat where [kconst]: "BPB = 4096"
definition ROOTDEV :: u32 where [kconst]: "ROOTDEV = 1"
definition ROOTINO :: u32 where [kconst]: "ROOTINO = 1"
definition LOGSIZE :: nat where [kconst]: "LOGSIZE = 10"

definition IBLOCK :: "u32 \<Rightarrow> u32" where
  "IBLOCK i = i div of_nat IPB + 2"

definition BBLOCK :: "u32 \<Rightarrow> u32 \<Rightarrow> u32" where
  "BBLOCK b ninodes = b div of_nat BPB + ninodes div of_nat IPB + 3"

record superblock =
  sb_size :: u32
  sb_nblocks :: u32
  sb_ninodes :: u32
  sb_nlog :: u32

record lg = dsk +
  log_start :: u32
  log_size :: int
  log_busy :: bool
  log_dev :: u32
  lh_n :: int
  lh_sector :: "nat \<Rightarrow> u32"

definition superblock_of :: "block \<Rightarrow> superblock" where
  "superblock_of d = \<lparr>sb_size = get32 d 0, sb_nblocks = get32 d 4, sb_ninodes = get32 d 8, sb_nlog = get32 d 12\<rparr>"

definition read_superblock :: "u32 \<Rightarrow> ('z dsk_scheme, superblock) kmon" where
  "read_superblock dev =
     kbind (bufcache_read dev 1) (\<lambda>bp.
     kbind (get_buf bp b_data) (\<lambda>d.
     kthen (bufcache_release bp)
           (kret (superblock_of d))))"

section \<open>The log\<close>

text \<open>
  The body of the loop of \<^verbatim>\<open>install_trans\<close>. The loop reads \<^verbatim>\<open>log.lh.n\<close> in every round; it has at most
  \<open>LOGSIZE + 1\<close> rounds, since in the last of them the access to \<^verbatim>\<open>log.lh.sector\<close> is outside the array.
\<close>

definition install_block :: "nat \<Rightarrow> ('z lg_scheme, unit) kmon" where
  "install_block tail =
     kbind (kget log_dev) (\<lambda>dev.
     kbind (kget log_start) (\<lambda>start.
     kbind (bufcache_read dev (start + of_nat tail + 1)) (\<lambda>lbuf.
     kthen (kindex tail LOGSIZE)
    (kbind (kget (\<lambda>s. lh_sector s tail)) (\<lambda>sector.
     kbind (bufcache_read dev sector) (\<lambda>dbuf.
     kbind (get_buf lbuf b_data) (\<lambda>d.
     kthen (upd_buf dbuf (\<lambda>x. x\<lparr>b_data := d\<rparr>))
    (kthen (bufcache_write dbuf)
    (kthen (bufcache_release lbuf)
           (bufcache_release dbuf))))))))))"

definition install_trans :: "('z lg_scheme, unit) kmon" where
  "install_trans =
     kbind (kscan 0 (LOGSIZE + 1) (\<lambda>tail.
        kbind (kget lh_n) (\<lambda>n.
          if int tail < n then kthen (install_block tail) (kret None) else kret (Some ())))) (\<lambda>_. kret ())"

definition read_head :: "('z lg_scheme, unit) kmon" where
  "read_head =
     kbind (kget log_dev) (\<lambda>dev.
     kbind (kget log_start) (\<lambda>start.
     kbind (bufcache_read dev start) (\<lambda>buf.
     kbind (get_buf buf b_data) (\<lambda>d.
     kthen (kmodify (\<lambda>s. s\<lparr>lh_n := sint (get32 d 0)\<rparr>))
    (kthen (kfor 0 (nat (sint (get32 d 0))) (\<lambda>i.
        kthen (kindex i LOGSIZE)
              (kmodify (\<lambda>s. s\<lparr>lh_sector := (lh_sector s)(i := get32 d (4 + 4 * i))\<rparr>))))
           (bufcache_release buf))))))"

definition write_head :: "('z lg_scheme, unit) kmon" where
  "write_head =
     kbind (kget log_dev) (\<lambda>dev.
     kbind (kget log_start) (\<lambda>start.
     kbind (bufcache_read dev start) (\<lambda>buf.
     kbind (kget lh_n) (\<lambda>n.
     kthen (upd_buf buf (\<lambda>x. x\<lparr>b_data := put32 0 (word_of_int n) (b_data x)\<rparr>))
    (kthen (kfor 0 (nat n) (\<lambda>i.
        kthen (kindex i LOGSIZE)
       (kbind (kget (\<lambda>s. lh_sector s i)) (\<lambda>sector.
          upd_buf buf (\<lambda>x. x\<lparr>b_data := put32 (4 + 4 * i) sector (b_data x)\<rparr>)))))
    (kthen (bufcache_write buf)
           (bufcache_release buf)))))))"

definition recover_from_log :: "('z lg_scheme, unit) kmon" where
  "recover_from_log =
     kthen read_head
    (kthen install_trans
    (kthen (kmodify (\<lambda>s. s\<lparr>lh_n := 0\<rparr>))
           write_head))"

definition log_init :: "('z lg_scheme, unit) kmon" where
  "log_init =
     kthen (spinlock_init LogLk)
    (kbind (read_superblock ROOTDEV) (\<lambda>sb.
     kthen (kmodify (\<lambda>s. s\<lparr>log_start := sb_size sb - sb_nlog sb\<rparr>))
    (kthen (kmodify (\<lambda>s. s\<lparr>log_size := sint (sb_nlog sb)\<rparr>))
    (kthen (kmodify (\<lambda>s. s\<lparr>log_dev := ROOTDEV\<rparr>))
           recover_from_log))))"

definition begin_trans :: "('z lg_scheme, unit) kmon" where
  "begin_trans =
     kthen (spinlock_acquire LogLk)
    (kthen (kloop (kbind (kget log_busy) (\<lambda>b.
        if b then kthen (thread_sleep ChanLog (Some LogLk)) (kret None) else kret (Some ()))))
    (kthen (kmodify (\<lambda>s. s\<lparr>log_busy := True\<rparr>))
           (spinlock_release LogLk)))"

definition commit_trans :: "('z lg_scheme, unit) kmon" where
  "commit_trans =
     kbind (kget lh_n) (\<lambda>n.
     kthen (kwhen (n > 0)
        (kthen write_head
        (kthen install_trans
        (kthen (kmodify (\<lambda>s. s\<lparr>lh_n := 0\<rparr>))
               write_head))))
    (kthen (spinlock_acquire LogLk)
    (kthen (kmodify (\<lambda>s. s\<lparr>log_busy := False\<rparr>))
    (kthen (thread_wakeup ChanLog)
           (spinlock_release LogLk)))))"

text \<open>The entry of the header that has the sector, or the first free one.\<close>

definition log_slot :: "(nat \<Rightarrow> u32) \<Rightarrow> int \<Rightarrow> u32 \<Rightarrow> nat" where
  "log_slot sectors n sector =
     (case find (\<lambda>i. sectors i = sector) [0..<nat n] of Some i \<Rightarrow> i | None \<Rightarrow> nat n)"

definition log_write :: "nat \<Rightarrow> ('z lg_scheme, unit) kmon" where
  "log_write b =
     kbind (kget lh_n) (\<lambda>n.
     kbind (kget log_size) (\<lambda>size.
     kthen (kassert (\<not> (n \<ge> int LOGSIZE \<or> n \<ge> size - 1)) ''too big a transaction'')
    (kbind (kget log_busy) (\<lambda>busy.
     kthen (kassert busy ''write outside of trans'')
    (kbind (get_buf b b_sector) (\<lambda>sector.
     kbind (kget (\<lambda>s. log_slot (lh_sector s) n sector)) (\<lambda>i.
     kthen (kindex i LOGSIZE)
    (kthen (kmodify (\<lambda>s. s\<lparr>lh_sector := (lh_sector s)(i := sector)\<rparr>))
    (kbind (get_buf b b_dev) (\<lambda>dev.
     kbind (kget log_start) (\<lambda>start.
     kbind (bufcache_read dev (start + of_nat i + 1)) (\<lambda>lbuf.
     kbind (get_buf b b_data) (\<lambda>d.
     kthen (upd_buf lbuf (\<lambda>x. x\<lparr>b_data := d\<rparr>))
    (kthen (bufcache_write lbuf)
    (kthen (bufcache_release lbuf)
    (kthen (kbind (kget lh_n) (\<lambda>n. kwhen (int i = n) (kmodify (\<lambda>s. s\<lparr>lh_n := n + 1\<rparr>))))
           (upd_buf b (\<lambda>x. x\<lparr>b_flags := b_flags x OR B_DIRTY\<rparr>))))))))))))))))))"

section \<open>Blocks\<close>

definition block_zero :: "u32 \<Rightarrow> u32 \<Rightarrow> ('z lg_scheme, unit) kmon" where
  "block_zero dev bno =
     kbind (bufcache_read dev bno) (\<lambda>bp.
     kthen (upd_buf bp (\<lambda>x. x\<lparr>b_data := (\<lambda>_. 0)\<rparr>))
    (kthen (log_write bp)
           (bufcache_release bp)))"

text \<open>
  The outer loop of \<^verbatim>\<open>block_alloc\<close> is counted in blocks of the bitmap; its variable \<^verbatim>\<open>b\<close> is \<open>k * BPB\<close>, an
  \<^verbatim>\<open>int\<close> that does not overflow for disks of fewer than \<open>2 ^ 31\<close> blocks.
\<close>

definition block_alloc :: "u32 \<Rightarrow> ('z lg_scheme, u32) kmon" where
  "block_alloc dev =
     kbind (read_superblock dev) (\<lambda>sb.
     kbind (kscan 0 ((unat (sb_size sb) + BPB - 1) div BPB) (\<lambda>k.
        kbind (bufcache_read dev (BBLOCK (of_nat (k * BPB)) (sb_ninodes sb))) (\<lambda>bp.
        kbind (kscan 0 (min BPB (unat (sb_size sb) - k * BPB)) (\<lambda>bi.
          kthen (kindex (bi div 8) BSIZE)
         (kbind (get_buf bp b_data) (\<lambda>d.
            if d (bi div 8) AND push_bit (bi mod 8) 1 = 0 then
              kthen (upd_buf bp (\<lambda>x. x\<lparr>b_data := (b_data x)(bi div 8 := b_data x (bi div 8) OR push_bit (bi mod 8) 1)\<rparr>))
             (kthen (log_write bp)
             (kthen (bufcache_release bp)
             (kthen (block_zero dev (of_nat (k * BPB + bi)))
                    (kret (Some (of_nat (k * BPB + bi) :: u32))))))
            else kret None)))) (\<lambda>r. case r of
          Some b \<Rightarrow> kret (Some b)
        | None \<Rightarrow> kthen (bufcache_release bp) (kret None))))) (\<lambda>r. case r of
       Some b \<Rightarrow> kret b
     | None \<Rightarrow> kpanic ''balloc: out of blocks''))"

definition block_free :: "u32 \<Rightarrow> u32 \<Rightarrow> ('z lg_scheme, unit) kmon" where
  "block_free dev b =
     kbind (read_superblock dev) (\<lambda>sb.
     kbind (bufcache_read dev (BBLOCK b (sb_ninodes sb))) (\<lambda>bp.
     let bi = unat b mod BPB in
     kthen (kindex (bi div 8) BSIZE)
    (kbind (get_buf bp b_data) (\<lambda>d.
     kthen (kassert (d (bi div 8) AND push_bit (bi mod 8) 1 \<noteq> 0) ''freeing free block'')
    (kthen (upd_buf bp (\<lambda>x. x\<lparr>b_data := (b_data x)(bi div 8 := b_data x (bi div 8) AND NOT (push_bit (bi mod 8) 1))\<rparr>))
    (kthen (log_write bp)
           (bufcache_release bp)))))))"

end
