(* ===== verification/Cache.thy ===== *)
theory Cache
  imports Driver Log
begin

text \<open>
  The buffer cache as a cached array of blocks: what its operations do when the thread that uses
  the file system is the only one that does.
\<close>

section \<open>The ring of buffers\<close>

text \<open>\<open>linked B l\<close>: every element of \<open>l\<close> points to the next one and back.\<close>

fun linked :: "(nat \<Rightarrow> buf) \<Rightarrow> nat list \<Rightarrow> bool" where
  "linked B (x # y # l) = (b_next (B x) = y \<and> b_prev (B y) = x \<and> linked B (y # l))"
| "linked B _ = True"

definition ring :: "(nat \<Rightarrow> buf) \<Rightarrow> nat list \<Rightarrow> bool" where
  "ring B xs = (linked B (NBUF # xs @ [NBUF]) \<and> distinct xs \<and> set xs = {..<NBUF})"

lemma linked_append: "linked B (l @ x # m) \<longleftrightarrow> linked B (l @ [x]) \<and> linked B (x # m)"
proof (induction l)
  case (Cons y l)
  then show ?case by (cases l) auto
qed simp

lemma linked_cong:
  assumes "linked B l"
    and "\<And>x. x \<in> set (butlast l) \<Longrightarrow> b_next (B' x) = b_next (B x)"
    and "\<And>x. x \<in> set (tl l) \<Longrightarrow> b_prev (B' x) = b_prev (B x)"
  shows "linked B' l"
  using assms by (induction B l rule: linked.induct) auto

lemma find_next_list:
  assumes "linked B (b # l @ [NBUF])" and "NBUF \<notin> set l"
  shows "find_next P B (b_next (B b)) = Some (find (\<lambda>b. P (B b)) l)"
  using assms
proof (induction l arbitrary: b)
  case Nil
  then show ?case by (simp add: find_next.simps [of P B NBUF])
next
  case (Cons x l)
  then have "b_next (B b) = x" "x \<noteq> NBUF" by auto
  moreover have "find_next P B (b_next (B x)) = Some (find (\<lambda>b. P (B b)) l)" using Cons by (intro Cons.IH) auto
  ultimately show ?case by (simp add: find_next.simps [of P B x])
qed

lemma find_prev_list:
  assumes "linked B ([NBUF] @ l @ [b])" and "NBUF \<notin> set l"
  shows "find_prev P B (b_prev (B b)) = Some (find (\<lambda>b. P (B b)) (rev l))"
  using assms
proof (induction l arbitrary: b rule: rev_induct)
  case Nil
  then show ?case by (simp add: find_prev.simps [of P B NBUF])
next
  case (snoc x l)
  from snoc(2) have l: "linked B ([NBUF] @ l @ [x])" and x: "b_prev (B b) = x"
    using linked_append [of B "NBUF # l" x "[b]"] by auto
  have "find_prev P B (b_prev (B x)) = Some (find (\<lambda>b. P (B b)) (rev l))" using l snoc(3) by (intro snoc.IH) auto
  with x snoc(3) show ?case by (simp add: find_prev.simps [of P B x])
qed

lemma ring_finds:
  assumes "ring B xs"
  shows "find_next P B (b_next (B NBUF)) = Some (find (\<lambda>b. P (B b)) xs)"
    and "find_prev P B (b_prev (B NBUF)) = Some (find (\<lambda>b. P (B b)) (rev xs))"
  using assms find_next_list [of B NBUF xs P] find_prev_list [of B xs NBUF P] by (auto simp: ring_def)

text \<open>Moving a buffer to the front: it is unlinked and linked again behind the header.\<close>

definition set_next :: "nat \<Rightarrow> nat \<Rightarrow> (nat \<Rightarrow> buf) \<Rightarrow> nat \<Rightarrow> buf" where
  "set_next x y B = B(x := (B x)\<lparr>b_next := y\<rparr>)"

definition set_prev :: "nat \<Rightarrow> nat \<Rightarrow> (nat \<Rightarrow> buf) \<Rightarrow> nat \<Rightarrow> buf" where
  "set_prev x y B = B(x := (B x)\<lparr>b_prev := y\<rparr>)"

lemma link_fields [simp]:
  "b_next (set_next x y B z) = (if z = x then y else b_next (B z))" "b_prev (set_next x y B z) = b_prev (B z)"
  "b_prev (set_prev x y B z) = (if z = x then y else b_prev (B z))" "b_next (set_prev x y B z) = b_next (B z)"
  by (simp_all add: set_next_def set_prev_def)

lemma linked_join:
  assumes "linked B (l @ [p])" and "linked B (n # m)"
    and "p \<notin> set l" "p \<notin> set (butlast (n # m))" "n \<notin> set (tl (l @ [p]))" "n \<notin> set m"
  shows "linked (set_next p n (set_prev n p B)) (l @ p # n # m)"
proof -
  let ?B = "set_next p n (set_prev n p B)"
  have "linked ?B (l @ [p])"
    by (rule linked_cong [OF assms(1)]) (use assms(3,5) in \<open>auto simp del: butlast.simps\<close>)
  moreover have "linked ?B (n # m)"
    by (rule linked_cong [OF assms(2)]) (use assms(4,6) in \<open>auto simp del: butlast.simps\<close>)
  ultimately show ?thesis using linked_append [of ?B l p "n # m"] by simp
qed

definition unlink :: "nat \<Rightarrow> (nat \<Rightarrow> buf) \<Rightarrow> nat \<Rightarrow> buf" where
  "unlink b B = set_next (b_prev (B b)) (b_next (B b)) (set_prev (b_next (B b)) (b_prev (B b)) B)"

definition link_front :: "nat \<Rightarrow> (nat \<Rightarrow> buf) \<Rightarrow> nat \<Rightarrow> buf" where
  "link_front b B = set_next NBUF b (set_prev (b_next (B NBUF)) b (set_prev b NBUF (set_next b (b_next (B NBUF)) B)))"

lemma linked_unlink:
  assumes lk: "linked B (NBUF # as @ b # bs @ [NBUF])" and d: "distinct (as @ b # bs)" and nb: "NBUF \<notin> set (as @ b # bs)"
  shows "linked (unlink b B) (NBUF # as @ bs @ [NBUF])"
proof -
  have unlink: "linked (unlink b B) (l @ p # n # m)"
    if "NBUF # as @ b # bs @ [NBUF] = l @ p # b # n # m" "p \<notin> set l" "p \<notin> set (butlast (n # m))"
      "n \<notin> set (tl (l @ [p]))" "n \<notin> set m" for l p n m
  proof -
    have "linked B ((l @ [p]) @ b # n # m)" using lk that(1) by simp
    then have "linked B (l @ [p])" "b_prev (B b) = p" "b_next (B b) = n" "linked B (n # m)"
      using linked_append [of B "l @ [p]" b "n # m"] linked_append [of B l p "[b]"] by auto
    then show ?thesis using that linked_join [of B l p n m] by (simp add: unlink_def)
  qed
  show ?thesis
  proof (cases as rule: rev_cases)
    case Nil
    with d nb show ?thesis using unlink [of "[]" NBUF] by (cases bs) auto
  next
    case (snoc as' p)
    with d nb show ?thesis using unlink [of "NBUF # as'" p] by (cases bs) auto
  qed
qed

lemma linked_front:
  assumes lk: "linked B (NBUF # xs @ [NBUF])" and d: "distinct xs" and nb: "NBUF \<notin> set xs" "b \<notin> set xs" "b \<noteq> NBUF"
  shows "linked (link_front b B) (NBUF # b # xs @ [NBUF])"
proof (cases xs)
  case Nil
  with lk nb show ?thesis by (simp add: link_front_def)
next
  case (Cons x ys)
  with lk have x: "b_next (B NBUF) = x" and r: "linked B (x # ys @ [NBUF])" by auto
  have "linked (link_front b B) (x # ys @ [NBUF])"
    by (rule linked_cong [OF r]) (use d nb Cons x in \<open>auto simp: link_front_def butlast_append\<close>)
  with Cons x nb show ?thesis by (auto simp: link_front_def)
qed

lemma remove1_split: "b \<notin> set as \<Longrightarrow> remove1 b (as @ b # bs) = as @ bs"
  by (simp add: remove1_append)

lemma ring_move:
  assumes r: "ring B xs" and b: "b < NBUF"
  shows "ring (link_front b (unlink b B)) (b # remove1 b xs)"
proof -
  obtain as bs where xs: "xs = as @ b # bs" using r b by (metis lessThan_iff ring_def split_list)
  have "NBUF \<notin> set xs" using r by (auto simp: ring_def)
  then have "linked (unlink b B) (NBUF # as @ bs @ [NBUF])"
    using r by (intro linked_unlink) (auto simp: xs ring_def)
  then have "linked (link_front b (unlink b B)) (NBUF # b # (as @ bs) @ [NBUF])"
    using r b by (intro linked_front) (auto simp: xs ring_def)
  moreover have "b \<notin> set as" using r by (auto simp: xs ring_def)
  ultimately show ?thesis using r by (auto simp: xs ring_def remove1_append)
qed

lemma ring_neighbours:
  assumes r: "ring B xs" and b: "b < NBUF"
  shows "b_next (B b) \<le> NBUF" "b_prev (B b) \<le> NBUF" "b_next (B b) \<noteq> b" "b_prev (B b) \<noteq> b"
proof -
  obtain as bs where xs: "xs = as @ b # bs" using r b by (metis lessThan_iff ring_def split_list)
  have lk: "linked B ((NBUF # as) @ b # bs @ [NBUF])" using r by (simp add: ring_def xs)
  obtain n m where nm: "bs @ [NBUF] = n # m" by (cases "bs @ [NBUF]") auto
  obtain l p where lp: "NBUF # as = l @ [p]" by (cases "NBUF # as" rule: rev_cases) auto
  have "linked B (b # n # m)" "linked B (l @ p # [b])"
    using lk linked_append [of B "NBUF # as" b "bs @ [NBUF]"] unfolding lp nm by simp_all
  then have "b_next (B b) = n" "b_prev (B b) = p" using linked_append [of B l p "[b]"] by auto
  moreover have "n \<in> set (bs @ [NBUF])" "p \<in> set (NBUF # as)" unfolding nm lp by simp_all
  moreover have "set (as @ b # bs) = {..<NBUF}" "distinct (as @ b # bs)" using r by (simp_all add: ring_def xs)
  then have "b \<notin> set as" "b \<notin> set bs" "\<And>c. c \<in> set as \<Longrightarrow> c < NBUF" "\<And>c. c \<in> set bs \<Longrightarrow> c < NBUF" by auto
  ultimately show "b_next (B b) \<le> NBUF" "b_prev (B b) \<le> NBUF" "b_next (B b) \<noteq> b" "b_prev (B b) \<noteq> b"
    using b by (auto simp: less_imp_le)
qed

lemma ring_first:
  assumes r: "ring B xs"
  shows "b_next (B NBUF) \<le> NBUF"
proof (cases xs)
  case (Cons x ys)
  have "x \<in> set xs" by (simp add: Cons)
  then have "x < NBUF" using r unfolding ring_def by blast
  moreover have "b_next (B NBUF) = x" using r by (simp add: ring_def Cons)
  ultimately show ?thesis by simp
qed (use r in \<open>simp add: ring_def\<close>)

lemma unlink_first:
  assumes r: "ring B xs" and b: "b < NBUF"
  shows "b_next (unlink b B NBUF) \<le> NBUF"
  using ring_neighbours [OF r b] ring_first [OF r] by (simp add: unlink_def)

lemma exec_move_to_front [kexec]:
  assumes r: "ring (bufs s) xs" and b: "b < NBUF"
  shows "move_to_front b s = Ret () (s\<lparr>bufs := link_front b (unlink b (bufs s))\<rparr>)"
  using ring_neighbours [OF r b] unlink_first [OF r b] b
  by (simp add: move_to_front_def kexec link_front_def unlink_def set_next_def set_prev_def)

lemma ring_cong:
  assumes "ring B xs" and "\<And>b. b_next (B' b) = b_next (B b)" and "\<And>b. b_prev (B' b) = b_prev (B b)"
  shows "ring B' xs"
  using assms linked_cong [of B _ B'] by (simp add: ring_def)

lemma ring_upd:
  assumes "\<exists>xs. ring B xs" and "b_next x = b_next (B b)" and "b_prev x = b_prev (B b)"
  shows "\<exists>xs. ring (B(b := x)) xs"
proof -
  obtain xs where "ring B xs" using assms(1) by blast
  then have "ring (B(b := x)) xs" by (rule ring_cong) (use assms(2,3) in auto)
  then show ?thesis by blast
qed

section \<open>What the cache represents\<close>

text \<open>
  \<open>cache_rep B D V Y h\<close>: the buffers \<open>B\<close> above a disk with contents \<open>D\<close> represent the blocks \<open>V\<close>. \<open>Y\<close> are
  the sectors whose buffer is marked dirty, and \<open>h\<close> maps every buffer that is held (returned by
  \<^verbatim>\<open>bufcache_read\<close> and not yet released) to its sector. Only the blocks of \<open>Y\<close> and the held ones may
  differ from the disk.
\<close>

definition cache_rep ::
    "(nat \<Rightarrow> buf) \<Rightarrow> (u32 \<Rightarrow> block) \<Rightarrow> (u32 \<Rightarrow> block) \<Rightarrow> u32 set \<Rightarrow> (nat \<rightharpoonup> u32) \<Rightarrow> bool" where
  "cache_rep B D V Y h = ((\<exists>xs. ring B xs) \<and> dom h \<subseteq> {..<NBUF} \<and>
     (\<forall>b < NBUF. (busy (B b) \<longleftrightarrow> h b \<noteq> None) \<and> (b_dev (B b) = -1 \<or> b_dev (B b) = ROOTDEV) \<and>
        (b_dev (B b) = ROOTDEV \<longrightarrow> valid (B b) \<and> b_data (B b) = V (b_sector (B b))) \<and>
        (dirty (B b) \<longrightarrow> b_dev (B b) = ROOTDEV)) \<and>
     (\<forall>b c. b < NBUF \<longrightarrow> c < NBUF \<longrightarrow> b_dev (B b) = ROOTDEV \<longrightarrow> b_dev (B c) = ROOTDEV \<longrightarrow>
        b_sector (B b) = b_sector (B c) \<longrightarrow> b = c) \<and>
     (\<forall>b sec. h b = Some sec \<longrightarrow> b_dev (B b) = ROOTDEV \<and> b_sector (B b) = sec) \<and>
     Y = {b_sector (B b) | b. b < NBUF \<and> dirty (B b)} \<and>
     (\<forall>sec. sec \<notin> Y \<longrightarrow> sec \<notin> ran h \<longrightarrow> V sec = D sec))"

lemma repD:
  assumes "cache_rep B D V Y h"
  shows "\<exists>xs. ring B xs"
    and "h b = Some sec \<Longrightarrow> b < NBUF"
    and "b < NBUF \<Longrightarrow> busy (B b) \<longleftrightarrow> h b \<noteq> None"
    and "b < NBUF \<Longrightarrow> b_dev (B b) = -1 \<or> b_dev (B b) = ROOTDEV"
    and "b < NBUF \<Longrightarrow> b_dev (B b) = ROOTDEV \<Longrightarrow> valid (B b)"
    and "b < NBUF \<Longrightarrow> b_dev (B b) = ROOTDEV \<Longrightarrow> b_data (B b) = V (b_sector (B b))"
    and "b < NBUF \<Longrightarrow> dirty (B b) \<Longrightarrow> b_dev (B b) = ROOTDEV"
    and "b < NBUF \<Longrightarrow> c < NBUF \<Longrightarrow> b_dev (B b) = ROOTDEV \<Longrightarrow> b_dev (B c) = ROOTDEV \<Longrightarrow>
        b_sector (B b) = b_sector (B c) \<Longrightarrow> b = c"
    and "h b = Some sec \<Longrightarrow> b_dev (B b) = ROOTDEV \<and> b_sector (B b) = sec"
    and "sec \<in> Y \<longleftrightarrow> (\<exists>b < NBUF. dirty (B b) \<and> b_sector (B b) = sec)"
    and "sec \<notin> Y \<Longrightarrow> sec \<notin> ran h \<Longrightarrow> V sec = D sec"
proof -
  note r = assms [unfolded cache_rep_def]
  show "\<exists>xs. ring B xs" using r by (elim conjE)
  show "h b = Some sec \<Longrightarrow> b < NBUF" using r by auto
  show "b < NBUF \<Longrightarrow> busy (B b) \<longleftrightarrow> h b \<noteq> None" "b < NBUF \<Longrightarrow> b_dev (B b) = -1 \<or> b_dev (B b) = ROOTDEV"
    "b < NBUF \<Longrightarrow> b_dev (B b) = ROOTDEV \<Longrightarrow> valid (B b)"
    "b < NBUF \<Longrightarrow> b_dev (B b) = ROOTDEV \<Longrightarrow> b_data (B b) = V (b_sector (B b))"
    "b < NBUF \<Longrightarrow> dirty (B b) \<Longrightarrow> b_dev (B b) = ROOTDEV" using r by simp_all
  show "b < NBUF \<Longrightarrow> c < NBUF \<Longrightarrow> b_dev (B b) = ROOTDEV \<Longrightarrow> b_dev (B c) = ROOTDEV \<Longrightarrow>
        b_sector (B b) = b_sector (B c) \<Longrightarrow> b = c" using r by simp
  show "h b = Some sec \<Longrightarrow> b_dev (B b) = ROOTDEV \<and> b_sector (B b) = sec" using r by simp
  show "sec \<in> Y \<longleftrightarrow> (\<exists>b < NBUF. dirty (B b) \<and> b_sector (B b) = sec)" using r by blast
  show "sec \<notin> Y \<Longrightarrow> sec \<notin> ran h \<Longrightarrow> V sec = D sec" using r by simp
qed

lemma repI:
  assumes "\<exists>xs. ring B xs" and "\<And>b sec. h b = Some sec \<Longrightarrow> b < NBUF"
    and "\<And>b. b < NBUF \<Longrightarrow> busy (B b) \<longleftrightarrow> h b \<noteq> None"
    and "\<And>b. b < NBUF \<Longrightarrow> b_dev (B b) = -1 \<or> b_dev (B b) = ROOTDEV"
    and "\<And>b. b < NBUF \<Longrightarrow> b_dev (B b) = ROOTDEV \<Longrightarrow> valid (B b)"
    and "\<And>b. b < NBUF \<Longrightarrow> b_dev (B b) = ROOTDEV \<Longrightarrow> b_data (B b) = V (b_sector (B b))"
    and "\<And>b. b < NBUF \<Longrightarrow> dirty (B b) \<Longrightarrow> b_dev (B b) = ROOTDEV"
    and "\<And>b c. b < NBUF \<Longrightarrow> c < NBUF \<Longrightarrow> b_dev (B b) = ROOTDEV \<Longrightarrow> b_dev (B c) = ROOTDEV \<Longrightarrow>
        b_sector (B b) = b_sector (B c) \<Longrightarrow> b = c"
    and "\<And>b sec. h b = Some sec \<Longrightarrow> b_dev (B b) = ROOTDEV \<and> b_sector (B b) = sec"
    and "\<And>sec. sec \<in> Y \<longleftrightarrow> (\<exists>b < NBUF. dirty (B b) \<and> b_sector (B b) = sec)"
    and "\<And>sec. sec \<notin> Y \<Longrightarrow> sec \<notin> ran h \<Longrightarrow> V sec = D sec"
  shows "cache_rep B D V Y h"
proof -
  have "Y = {b_sector (B b) | b. b < NBUF \<and> dirty (B b)}" using assms(10) by (auto simp: set_eq_iff)
  moreover have "dom h \<subseteq> {..<NBUF}" using assms(2) by auto
  ultimately show ?thesis using assms(1,3-9,11) unfolding cache_rep_def by (intro conjI allI impI) simp_all
qed

lemma rep_held:
  assumes "cache_rep B D V Y h" and "h b = Some sec"
  shows "b < NBUF" "busy (B b)" "valid (B b)" "b_dev (B b) = ROOTDEV" "b_sector (B b) = sec" "b_data (B b) = V sec"
  using repD(2,9) [OF assms] repD(3,5,6) [OF assms(1), of b] assms(2) by auto

lemma rep_dirty:
  assumes "cache_rep B D V Y h" and "b < NBUF"
  shows "dirty (B b) \<longleftrightarrow> b_dev (B b) = ROOTDEV \<and> b_sector (B b) \<in> Y"
  using repD(7,8,10) [OF assms(1)] assms(2) by blast

lemma rep_held_unique:
  assumes r: "cache_rep B D V Y h" and "h b = Some sec" and "h c = Some sec"
  shows "b = c"
  using repD(8) [OF r] rep_held [OF r assms(2)] rep_held [OF r assms(3)] by simp

text \<open>The steps of the operations on the buffers.\<close>

lemma rep_upd:
  assumes r: "cache_rep B D V Y h" and b: "b < NBUF"
    and x: "b_next x = b_next (B b)" "b_prev x = b_prev (B b)" "b_dev x = ROOTDEV" "valid x" "b_data x = V' (b_sector x)"
    and uniq: "\<And>c. c < NBUF \<Longrightarrow> c \<noteq> b \<Longrightarrow> b_dev (B c) = ROOTDEV \<Longrightarrow> b_sector (B c) \<noteq> b_sector x"
    and V: "\<And>sec. sec \<noteq> b_sector x \<Longrightarrow> V' sec = V sec"
    and Y: "\<And>sec. sec \<in> Y' \<longleftrightarrow> (\<exists>c < NBUF. c \<noteq> b \<and> dirty (B c) \<and> b_sector (B c) = sec) \<or> dirty x \<and> sec = b_sector x"
    and D: "\<And>sec. sec \<notin> Y' \<Longrightarrow> sec \<notin> ran (h(b := if busy x then Some (b_sector x) else None)) \<Longrightarrow> V' sec = D' sec"
  shows "cache_rep (B(b := x)) D' V' Y' (h(b := if busy x then Some (b_sector x) else None))"
    (is "cache_rep ?B _ _ _ ?h")
proof (rule repI)
  show "\<exists>xs. ring ?B xs" using repD(1) [OF r] x(1,2) by (rule ring_upd)
next
  fix c sec assume "?h c = Some sec"
  then show "c < NBUF" and "b_dev (?B c) = ROOTDEV \<and> b_sector (?B c) = sec"
    using b x(3) repD(2,9) [OF r, of c] by (cases "c = b"; auto split: if_splits)+
next
  fix c assume c: "c < NBUF"
  show "busy (?B c) \<longleftrightarrow> ?h c \<noteq> None" "b_dev (?B c) = -1 \<or> b_dev (?B c) = ROOTDEV"
    using x(3) repD(3,4) [OF r c] by (cases "c = b"; simp)+
  show "b_dev (?B c) = ROOTDEV" if "dirty (?B c)" using x(3) repD(7) [OF r c] that by (cases "c = b") simp_all
  assume d: "b_dev (?B c) = ROOTDEV"
  then show "valid (?B c)" "b_data (?B c) = V' (b_sector (?B c))"
    using x(4,5) repD(5,6) [OF r c] uniq [OF c] V by (cases "c = b"; simp)+
next
  fix c e assume "c < NBUF" "e < NBUF" "b_dev (?B c) = ROOTDEV" "b_dev (?B e) = ROOTDEV" "b_sector (?B c) = b_sector (?B e)"
  then show "c = e" using repD(8) [OF r, of c e] uniq [of c] uniq [of e] by (cases "c = b"; cases "e = b") auto
next
  fix sec
  show "sec \<in> Y' \<longleftrightarrow> (\<exists>c < NBUF. dirty (?B c) \<and> b_sector (?B c) = sec)"
    unfolding Y using b by (metis fun_upd_apply)
  show "V' sec = D' sec" if "sec \<notin> Y'" "sec \<notin> ran ?h" using that by (rule D)
qed

lemma rep_hold:
  assumes r: "cache_rep B D V Y h" and b: "b < NBUF" "b_dev (B b) = ROOTDEV" "b_sector (B b) = sec" "h b = None"
  shows "cache_rep (B(b := (B b)\<lparr>b_flags := b_flags (B b) OR B_BUSY\<rparr>)) D V Y (h(b \<mapsto> sec))"
    (is "cache_rep (B(b := ?x)) _ _ _ _")
proof -
  have "cache_rep (B(b := ?x)) D V Y (h(b := if busy ?x then Some (b_sector ?x) else None))"
  proof (rule rep_upd [OF r b(1)])
    show "b_sector (B c) \<noteq> b_sector ?x" if "c < NBUF" "c \<noteq> b" "b_dev (B c) = ROOTDEV" for c
      using repD(8) [OF r that(1) b(1)] that b by auto
    show "sec \<in> Y \<longleftrightarrow> (\<exists>c < NBUF. c \<noteq> b \<and> dirty (B c) \<and> b_sector (B c) = sec) \<or> dirty ?x \<and> sec = b_sector ?x" for sec
      using repD(10) [OF r, of sec] b(1) by (auto simp: flag_updates)
    show "V sec' = D sec'" if "sec' \<notin> Y" "sec' \<notin> ran (h(b := if busy ?x then Some (b_sector ?x) else None))" for sec'
      using repD(11) [OF r that(1)] that(2) b(4) by (simp add: flag_updates)
  qed (use repD(5,6) [OF r b(1)] b in \<open>simp_all add: flag_updates\<close>)
  then show ?thesis using b by (simp add: flag_updates)
qed

lemma rep_set_data:
  assumes r: "cache_rep B D V Y h" and b: "h b = Some sec"
  shows "cache_rep (B(b := (B b)\<lparr>b_data := d\<rparr>)) D (V(sec := d)) Y h" (is "cache_rep (B(b := ?x)) _ ?V _ _")
proof -
  note hb = rep_held [OF r b]
  have h: "h(b := if busy ?x then Some (b_sector ?x) else None) = h" using b hb by (simp add: fun_upd_idem)
  have "cache_rep (B(b := ?x)) D ?V Y (h(b := if busy ?x then Some (b_sector ?x) else None))"
  proof (rule rep_upd [OF r hb(1)])
    show "b_sector (B c) \<noteq> b_sector ?x" if "c < NBUF" "c \<noteq> b" "b_dev (B c) = ROOTDEV" for c
      using repD(8) [OF r that(1) hb(1)] that hb by auto
    show "sec \<in> Y \<longleftrightarrow> (\<exists>c < NBUF. c \<noteq> b \<and> dirty (B c) \<and> b_sector (B c) = sec) \<or> dirty ?x \<and> sec = b_sector ?x" for sec
      using repD(10) [OF r, of sec] hb(1) by auto
    show "?V sec' = D sec'" if "sec' \<notin> Y" "sec' \<notin> ran (h(b := if busy ?x then Some (b_sector ?x) else None))" for sec'
      using repD(11) [OF r that(1)] that(2) b unfolding h by (auto simp: ran_def)
  qed (use hb in simp_all)
  then show ?thesis unfolding h .
qed

lemma rep_set_dirty:
  assumes r: "cache_rep B D V Y h" and b: "h b = Some sec"
  shows "cache_rep (B(b := (B b)\<lparr>b_flags := b_flags (B b) OR B_DIRTY\<rparr>)) D V (insert sec Y) h"
    (is "cache_rep (B(b := ?x)) _ _ _ _")
proof -
  note hb = rep_held [OF r b]
  have h: "h(b := if busy ?x then Some (b_sector ?x) else None) = h" using b hb by (simp add: fun_upd_idem flag_updates)
  have "cache_rep (B(b := ?x)) D V (insert sec Y) (h(b := if busy ?x then Some (b_sector ?x) else None))"
  proof (rule rep_upd [OF r hb(1)])
    show "b_sector (B c) \<noteq> b_sector ?x" if "c < NBUF" "c \<noteq> b" "b_dev (B c) = ROOTDEV" for c
      using repD(8) [OF r that(1) hb(1)] that hb by auto
    show "sec' \<in> insert sec Y \<longleftrightarrow> (\<exists>c < NBUF. c \<noteq> b \<and> dirty (B c) \<and> b_sector (B c) = sec') \<or> dirty ?x \<and> sec' = b_sector ?x" for sec'
      using repD(10) [OF r, of sec'] hb(1,5) by (auto simp: flag_updates)
    show "V sec' = D sec'" if "sec' \<notin> insert sec Y" "sec' \<notin> ran (h(b := if busy ?x then Some (b_sector ?x) else None))" for sec'
      using repD(11) [OF r, of sec'] that unfolding h by simp
  qed (use hb in \<open>simp_all add: flag_updates\<close>)
  then show ?thesis unfolding h .
qed

lemma rep_written:
  assumes r: "cache_rep B D V Y h" and b: "h b = Some sec"
    and x: "x = done_buf D ((B b)\<lparr>b_flags := b_flags (B b) OR B_DIRTY\<rparr>)"
  shows "cache_rep (B(b := x)) (D(sec := V sec)) V (Y - {sec}) h"
proof -
  note hb = rep_held [OF r b]
  have xf: "b_next x = b_next (B b)" "b_prev x = b_prev (B b)" "b_dev x = b_dev (B b)" "b_sector x = b_sector (B b)"
    "b_data x = b_data (B b)" "valid x" "busy x" "\<not> dirty x"
    using hb(2) by (simp_all add: x done_buf_def flag_updates)
  have h: "h(b := if busy x then Some (b_sector x) else None) = h" using b hb by (simp add: fun_upd_idem xf)
  have uniq: "b_sector (B c) \<noteq> sec" if "c < NBUF" "c \<noteq> b" "b_dev (B c) = ROOTDEV" for c
    using repD(8) [OF r that(1) hb(1)] that hb by auto
  have "cache_rep (B(b := x)) (D(sec := V sec)) V (Y - {sec}) (h(b := if busy x then Some (b_sector x) else None))"
  proof (rule rep_upd [OF r hb(1)])
    show "sec' \<in> Y - {sec} \<longleftrightarrow> (\<exists>c < NBUF. c \<noteq> b \<and> dirty (B c) \<and> b_sector (B c) = sec') \<or> dirty x \<and> sec' = b_sector x" for sec'
      using repD(10) [OF r, of sec'] repD(7) [OF r] hb(5) uniq by (auto simp: xf)
    show "V sec' = (D(sec := V sec)) sec'" if "sec' \<notin> Y - {sec}" "sec' \<notin> ran (h(b := if busy x then Some (b_sector x) else None))" for sec'
      using repD(11) [OF r, of sec'] that unfolding h by auto
  qed (use hb uniq in \<open>simp_all add: xf\<close>)
  then show ?thesis unfolding h .
qed

lemma rep_fetched:
  assumes r: "cache_rep B D V Y h" and b: "b < NBUF" "h b = None" "\<not> dirty (B b)"
    and new: "\<And>c. c < NBUF \<Longrightarrow> b_dev (B c) = ROOTDEV \<Longrightarrow> b_sector (B c) \<noteq> sec"
    and x: "x = done_buf D ((B b)\<lparr>b_dev := ROOTDEV, b_sector := sec, b_flags := B_BUSY\<rparr>)"
  shows "cache_rep (B(b := x)) D V Y (h(b \<mapsto> sec))"
proof -
  have xf: "b_next x = b_next (B b)" "b_prev x = b_prev (B b)" "b_dev x = ROOTDEV" "b_sector x = sec"
    "b_data x = D sec" "valid x" "busy x" "\<not> dirty x"
    by (simp_all add: x done_buf_def flag_updates)
  have ran: "sec \<notin> ran h"
  proof
    assume "sec \<in> ran h"
    then obtain c where c: "h c = Some sec" by (auto simp: ran_def)
    show False using rep_held [OF r c] new [of c] by simp
  qed
  have nY: "sec \<notin> Y" using repD(10) [OF r, of sec] repD(7) [OF r] new by auto
  have h: "h(b := if busy x then Some (b_sector x) else None) = h(b \<mapsto> sec)" by (simp add: xf)
  have "cache_rep (B(b := x)) D V Y (h(b := if busy x then Some (b_sector x) else None))"
  proof (rule rep_upd [OF r b(1)])
    show "sec' \<in> Y \<longleftrightarrow> (\<exists>c < NBUF. c \<noteq> b \<and> dirty (B c) \<and> b_sector (B c) = sec') \<or> dirty x \<and> sec' = b_sector x" for sec'
      using repD(10) [OF r, of sec'] b(3) by (auto simp: xf)
    show "V sec' = D sec'" if "sec' \<notin> Y" "sec' \<notin> ran (h(b := if busy x then Some (b_sector x) else None))" for sec'
      using repD(11) [OF r that(1)] that(2) b(2) unfolding h by simp
  qed (use new repD(11) [OF r nY ran] in \<open>simp_all add: xf\<close>)
  then show ?thesis unfolding h .
qed

lemma rep_relink:
  assumes r: "cache_rep B D V Y h" and "\<exists>xs. ring B' xs"
    and "\<And>b. b_flags (B' b) = b_flags (B b) \<and> b_dev (B' b) = b_dev (B b) \<and> b_sector (B' b) = b_sector (B b) \<and> b_data (B' b) = b_data (B b)"
  shows "cache_rep B' D V Y h"
  using assms by (simp add: cache_rep_def busy_def valid_def dirty_def)

lemma rep_released:
  assumes r: "cache_rep B D V Y h" and b: "h b = Some sec" and clean: "V sec = D sec \<or> sec \<in> Y"
  shows "cache_rep (B(b := (B b)\<lparr>b_flags := b_flags (B b) AND NOT B_BUSY\<rparr>)) D V Y (h(b := None))"
    (is "cache_rep (B(b := ?x)) _ _ _ _")
proof -
  note hb = rep_held [OF r b]
  have h: "h(b := if busy ?x then Some (b_sector ?x) else None) = h(b := None)" by (simp add: flag_updates)
  have "cache_rep (B(b := ?x)) D V Y (h(b := if busy ?x then Some (b_sector ?x) else None))"
  proof (rule rep_upd [OF r hb(1)])
    show "b_sector (B c) \<noteq> b_sector ?x" if "c < NBUF" "c \<noteq> b" "b_dev (B c) = ROOTDEV" for c
      using repD(8) [OF r that(1) hb(1)] that hb by auto
    show "sec \<in> Y \<longleftrightarrow> (\<exists>c < NBUF. c \<noteq> b \<and> dirty (B c) \<and> b_sector (B c) = sec) \<or> dirty ?x \<and> sec = b_sector ?x" for sec
      using repD(10) [OF r, of sec] hb(1) by (auto simp: flag_updates)
    show "V sec' = D sec'" if "sec' \<notin> Y" "sec' \<notin> ran (h(b := if busy ?x then Some (b_sector ?x) else None))" for sec'
    proof (cases "sec' = sec")
      case False
      have n: "(h(b := None)) c \<noteq> Some sec'" for c using that(2) unfolding h ran_def by blast
      have "h c \<noteq> Some sec'" for c using b False n [of c] by (cases "c = b") simp_all
      then have "sec' \<notin> ran h" by (simp add: ran_def)
      then show ?thesis by (rule repD(11) [OF r that(1)])
    qed (use clean that(1) in simp)
  qed (use hb in \<open>simp_all add: flag_updates\<close>)
  then show ?thesis unfolding h .
qed

text \<open>There is a buffer to recycle as long as not all of them are held or dirty.\<close>

lemma rep_available:
  assumes r: "cache_rep B D V Y h" and c: "card (Y \<union> ran h) < NBUF"
  shows "\<exists>b < NBUF. \<not> busy (B b) \<and> \<not> dirty (B b)"
proof (rule ccontr)
  assume "\<not> ?thesis"
  then have all: "\<And>b. b < NBUF \<Longrightarrow> busy (B b) \<or> dirty (B b)" by blast
  have root: "b_dev (B b) = ROOTDEV" "b_sector (B b) \<in> Y \<union> ran h" if b: "b < NBUF" for b
  proof -
    have "dirty (B b) \<or> (\<exists>sec. h b = Some sec)" using all [OF b] repD(3) [OF r b] by auto
    then show "b_dev (B b) = ROOTDEV" "b_sector (B b) \<in> Y \<union> ran h"
      using rep_dirty [OF r b] repD(9) [OF r, of b] by (auto simp: ran_def)
  qed
  have "inj_on (\<lambda>b. b_sector (B b)) {..<NBUF}" using repD(8) [OF r] root(1) by (auto simp: inj_on_def)
  moreover have "finite (Y \<union> ran h)"
  proof -
    have "Y \<union> ran h \<subseteq> (\<lambda>b. b_sector (B b)) ` {..<NBUF}"
    proof
      fix sec assume "sec \<in> Y \<union> ran h"
      then consider "sec \<in> Y" | c where "h c = Some sec" by (auto simp: ran_def)
      then show "sec \<in> (\<lambda>b. b_sector (B b)) ` {..<NBUF}"
      proof cases
        case 1
        then show ?thesis using repD(10) [OF r, of sec] by auto
      next
        case 2
        then show ?thesis using rep_held(1,5) [OF r 2] by (intro image_eqI [of _ _ c]) simp_all
      qed
    qed
    then show ?thesis using finite_subset by blast
  qed
  ultimately have "card {..<NBUF} \<le> card (Y \<union> ran h)" using root(2) by (intro card_inj_on_le) auto
  with c show False by simp
qed

section \<open>The operations\<close>

text \<open>\<open>cached p s D V Y h\<close>: thread \<open>p\<close> uses the file system, whose disk and cache represent \<open>V\<close>.\<close>

definition cached ::
    "nat \<Rightarrow> 'z dsk_scheme \<Rightarrow> (u32 \<Rightarrow> block) \<Rightarrow> (u32 \<Rightarrow> block) \<Rightarrow> u32 set \<Rightarrow> (nat \<rightharpoonup> u32) \<Rightarrow> bool" where
  "cached p s D V Y h = (p < NUM_IDS \<and> fs_ok p s \<and> disk s True = D \<and> cache_rep (bufs s) D V Y h)"

lemma fs_ok_bufs [simp]: "fs_ok p (s\<lparr>bufs := B\<rparr>) = fs_ok p s"
  by (simp add: fs_ok_def)

lemma unlock_bufs:
  "lock_free s l \<Longrightarrow> (taken s l)\<lparr>bufs := B, locks := (locks (taken s l))(l := unlocked)\<rparr> = s\<lparr>bufs := B\<rparr>"
  by (simp add: taken_def lock_free_def fun_upd_idem)

lemma exec_get_hit:
  assumes "cpu_ok s" "lock_free s BcacheLk" and r: "ring (bufs s) xs"
    and b: "find (\<lambda>b. b_dev (bufs s b) = dev \<and> b_sector (bufs s b) = sec) xs = Some b" "b < NBUF" "\<not> busy (bufs s b)"
  shows "bufcache_get dev sec s = Ret b (s\<lparr>bufs := (bufs s)(b := (bufs s b)\<lparr>b_flags := b_flags (bufs s b) OR B_BUSY\<rparr>)\<rparr>)"
  using assms by (simp add: bufcache_get_def kexec kloop_unfold ring_finds [OF r] kfound_def flag_tests taken_def fun_upd_idem lock_free_def)

lemma exec_get_miss:
  assumes "cpu_ok s" "lock_free s BcacheLk" and r: "ring (bufs s) xs"
    and b: "find (\<lambda>b. b_dev (bufs s b) = dev \<and> b_sector (bufs s b) = sec) xs = None"
      "find (\<lambda>b. \<not> busy (bufs s b) \<and> \<not> dirty (bufs s b)) (rev xs) = Some b" "b < NBUF"
  shows "bufcache_get dev sec s =
    Ret b (s\<lparr>bufs := (bufs s)(b := (bufs s b)\<lparr>b_dev := dev, b_sector := sec, b_flags := B_BUSY\<rparr>)\<rparr>)"
  using assms
  by (simp add: bufcache_get_def bufcache_recycle_def kexec kloop_unfold ring_finds [OF r] kfound_def flag_tests
      taken_def fun_upd_idem lock_free_def)

lemma find_SomeD: "find P xs = Some x \<Longrightarrow> x \<in> set xs \<and> P x"
  by (induction xs) (auto split: if_splits)

lemma completes_bufcache_read:
  assumes c: "cached p s D V Y h" and sec: "sec \<notin> ran h" "sec < 2 ^ 28" and room: "sec \<in> Y \<or> card (Y \<union> ran h) < NBUF" and g: "g D"
    and Q: "\<And>b t. h b = None \<Longrightarrow> cached p t D V Y (h(b \<mapsto> sec)) \<Longrightarrow> dsk.more t = dsk.more s \<Longrightarrow> Q b t"
  shows "completes (disk_env p g) (bufcache_read ROOTDEV sec) s Q"
proof -
  let ?B = "bufs s"
  from c have p: "p < NUM_IDS" and ok: "fs_ok p s" "disk s True = D" and r: "cache_rep ?B D V Y h" by (auto simp: cached_def)
  then have s: "cpu_ok s" "lock_free s BcacheLk" by (auto simp: fs_ok_def)
  obtain xs where xs: "ring ?B xs" using repD(1) [OF r] by blast
  then have set: "set xs = {..<NBUF}" by (simp add: ring_def)
  show ?thesis
  proof (cases "find (\<lambda>b. b_dev (?B b) = ROOTDEV \<and> b_sector (?B b) = sec) xs")
    case (Some b)
    then have b: "b < NBUF" "b_dev (?B b) = ROOTDEV" "b_sector (?B b) = sec" using find_SomeD [OF Some] set by auto
    have hb: "h b = None"
    proof (rule ccontr)
      assume "h b \<noteq> None"
      then obtain sec' where "h b = Some sec'" by blast
      with repD(9) [OF r this] b(3) sec(1) show False by (auto simp: ran_def)
    qed
    then have "\<not> busy (?B b)" using repD(3) [OF r b(1)] by simp
    note get = exec_get_hit [OF s xs Some b(1) this]
    have "valid ((?B b)\<lparr>b_flags := b_flags (?B b) OR B_BUSY\<rparr>)" using repD(5) [OF r b(1,2)] by (simp add: flag_updates)
    moreover have "Q b (s\<lparr>bufs := ?B(b := (?B b)\<lparr>b_flags := b_flags (?B b) OR B_BUSY\<rparr>)\<rparr>)"
      using p ok rep_hold [OF r b hb] by (intro Q hb) (simp_all add: cached_def)
    ultimately show ?thesis
      using b(1) by (simp add: bufcache_read_def kwp completes_Ret [where m = "bufcache_get ROOTDEV sec", OF get] flag_tests)
  next
    case None
    have new: "b_sector (?B c) \<noteq> sec" if "c < NBUF" "b_dev (?B c) = ROOTDEV" for c
      using None set that by (auto simp: find_None_iff)
    have "sec \<notin> Y" using repD(10) [OF r, of sec] repD(7) [OF r] new by auto
    then obtain c where "c < NBUF" "\<not> busy (?B c) \<and> \<not> dirty (?B c)" using rep_available [OF r] room by blast
    then obtain b where f: "find (\<lambda>b. \<not> busy (?B b) \<and> \<not> dirty (?B b)) (rev xs) = Some b"
      using set by (cases "find (\<lambda>b. \<not> busy (?B b) \<and> \<not> dirty (?B b)) (rev xs)") (auto simp: find_None_iff)
    have b: "b \<in> set (rev xs)" "\<not> busy (?B b)" "\<not> dirty (?B b)" using find_SomeD [OF f] by auto
    then have "b < NBUF" using set by simp
    then have hb: "h b = None" using repD(3) [OF r] b(2) by simp
    note get = exec_get_miss [OF s xs None f \<open>b < NBUF\<close>]
    define x where "x = (?B b)\<lparr>b_dev := ROOTDEV, b_sector := sec, b_flags := B_BUSY\<rparr>"
    have fx: "busy x" "\<not> valid x" "\<not> dirty x" "b_dev x = 1" "b_sector x = sec" by (simp_all add: x_def flag_updates ROOTDEV_def)
    have "completes (disk_env p g) (ide_rw b) (s\<lparr>bufs := ?B(b := x)\<rparr>) (\<lambda>_. Q b)"
    proof (rule completes_ide_rw [where x = x])
      fix t assume t: "fs_ok p t" "dsk.more t = dsk.more (s\<lparr>bufs := ?B(b := x)\<rparr>)"
        "bufs t = (bufs (s\<lparr>bufs := ?B(b := x)\<rparr>))(b := done_buf (disk (s\<lparr>bufs := ?B(b := x)\<rparr>) True) x)"
        "disk t True = done_disk (disk (s\<lparr>bufs := ?B(b := x)\<rparr>) True) x"
      have "cache_rep (?B(b := done_buf D x)) D V Y (h(b \<mapsto> sec))"
        using rep_fetched [OF r \<open>b < NBUF\<close> hb b(3) new] by (simp add: x_def)
      with t ok p fx show "Q b t" by (intro Q hb) (simp_all add: cached_def done_disk_def)
    qed (use p ok fx sec g \<open>b < NBUF\<close> in \<open>simp_all add: done_disk_def\<close>)
    then show ?thesis
      using fx \<open>b < NBUF\<close> by (simp add: bufcache_read_def kwp completes_Ret [where m = "bufcache_get ROOTDEV sec", OF get] flag_tests flip: x_def)
  qed
qed

lemma completes_bufcache_write:
  assumes c: "cached p s D V Y h" and b: "h b = Some sec" and sec: "sec < 2 ^ 28" and g: "g D" "g (D(sec := V sec))"
    and Q: "\<And>t. cached p t (D(sec := V sec)) V (Y - {sec}) h \<Longrightarrow> dsk.more t = dsk.more s \<Longrightarrow> Q () t"
  shows "completes (disk_env p g) (bufcache_write b) s Q"
proof -
  from c have p: "p < NUM_IDS" and ok: "fs_ok p s" "disk s True = D" and r: "cache_rep (bufs s) D V Y h" by (auto simp: cached_def)
  note hb = rep_held [OF r b]
  define x where "x = (bufs s b)\<lparr>b_flags := b_flags (bufs s b) OR B_DIRTY\<rparr>"
  let ?s = "s\<lparr>bufs := (bufs s)(b := x)\<rparr>"
  have x: "busy x" "dirty x" "b_dev x = 1" "b_sector x = sec" "b_data x = V sec"
    using hb by (simp_all add: x_def flag_updates ROOTDEV_def)
  have "completes (disk_env p g) (ide_rw b) ?s Q"
  proof (rule completes_ide_rw [where x = x])
    fix t assume t: "fs_ok p t" "dsk.more t = dsk.more ?s" "bufs t = (bufs ?s)(b := done_buf (disk ?s True) x)"
      "disk t True = done_disk (disk ?s True) x"
    have "cache_rep ((bufs s)(b := done_buf D x)) (D(sec := V sec)) V (Y - {sec}) h"
      using rep_written [OF r b] by (simp add: x_def)
    with t ok p x show "Q () t" by (intro Q) (simp_all add: cached_def done_disk_def)
  qed (use p ok x sec g hb(1) in \<open>simp_all add: done_disk_def\<close>)
  then show ?thesis using hb(1,2) by (simp add: bufcache_write_def kwp flag_tests x_def)
qed

lemma exec_wakeup_none:
  assumes ok: "cpu_ok s" "lock_free s SchedLk" and none: "\<And>q. q < NUM_IDS \<Longrightarrow> tcb_channel (TCBPool s q) \<noteq> c"
  shows "thread_wakeup c s = Ret () s"
proof -
  let ?body = "\<lambda>pid. kbind (kbind (tcb_get_chan pid) (\<lambda>c'. kret (c = c'))) (\<lambda>b.
          kwhen b (kthen (tcb_set_state pid TSTATE_READY) (tqueue_enqueue NUM_IDS pid)))"
  have "returns (kfor 0 NUM_IDS ?body) (taken s SchedLk) (\<lambda>_ t. t = taken s SchedLk)"
  proof (rule returns_kfor [where I = "\<lambda>_ t. t = taken s SchedLk"])
    fix j t assume "j < NUM_IDS" "t = taken s SchedLk"
    then show "returns (?body j) t (\<lambda>_ u. u = taken s SchedLk)" using none [of j] by (simp add: tcb_simps kwp)
  qed simp_all
  then have "kfor 0 NUM_IDS ?body (taken s SchedLk) = Ret () (taken s SchedLk)" by (auto elim: returnsE)
  then show ?thesis using ok by (simp add: thread_wakeup_def kexec)
qed

lemma link_other_fields [simp]:
  "b_flags (set_next x y B z) = b_flags (B z)" "b_dev (set_next x y B z) = b_dev (B z)"
  "b_sector (set_next x y B z) = b_sector (B z)" "b_data (set_next x y B z) = b_data (B z)"
  "b_flags (set_prev x y B z) = b_flags (B z)" "b_dev (set_prev x y B z) = b_dev (B z)"
  "b_sector (set_prev x y B z) = b_sector (B z)" "b_data (set_prev x y B z) = b_data (B z)"
  by (simp_all add: set_next_def set_prev_def)

lemma relink_fields [simp]:
  "b_flags (link_front b (unlink b B) c) = b_flags (B c)" "b_dev (link_front b (unlink b B) c) = b_dev (B c)"
  "b_sector (link_front b (unlink b B) c) = b_sector (B c)" "b_data (link_front b (unlink b B) c) = b_data (B c)"
  by (simp_all add: link_front_def unlink_def)

lemma completes_bufcache_release:
  assumes c: "cached p s D V Y h" and b: "h b = Some sec" and clean: "V sec = D sec \<or> sec \<in> Y"
    and Q: "\<And>t. cached p t D V Y (h(b := None)) \<Longrightarrow> dsk.more t = dsk.more s \<Longrightarrow> Q () t"
  shows "completes E (bufcache_release b) s Q"
proof -
  from c have p: "p < NUM_IDS" and ok: "fs_ok p s" "disk s True = D" and r: "cache_rep (bufs s) D V Y h" by (auto simp: cached_def)
  note hb = rep_held [OF r b]
  obtain xs where xs: "ring (bufs s) xs" using repD(1) [OF r] by blast
  let ?B = "link_front b (unlink b (bufs s))"
  let ?B' = "?B(b := (?B b)\<lparr>b_flags := b_flags (?B b) AND NOT B_BUSY\<rparr>)"
  have "cache_rep ?B D V Y h" by (rule rep_relink [OF r]) (use ring_move [OF xs hb(1)] in auto)
  then have r': "cache_rep ?B' D V Y (h(b := None))" using b clean by (rule rep_released)
  have s: "cpu_ok s" "\<And>l. lock_free s l" "\<And>q. q < NUM_IDS \<Longrightarrow> tcb_channel (TCBPool s q) \<noteq> ChanBuf b"
    using ok by (fastforce simp: fs_ok_def)+
  have "thread_wakeup (ChanBuf b) ((taken s BcacheLk)\<lparr>bufs := ?B'\<rparr>) = Ret () ((taken s BcacheLk)\<lparr>bufs := ?B'\<rparr>)"
    using s by (intro exec_wakeup_none) simp_all
  then have "bufcache_release b s = Ret () (s\<lparr>bufs := ?B'\<rparr>)"
    using s hb(1,2) xs by (simp add: bufcache_release_def kexec flag_tests exec_move_to_front [where xs = xs] unlock_bufs)
  then show ?thesis using p ok r' by (subst completes_Ret) (auto intro!: Q simp: cached_def)
qed

lemma completes_held:
  assumes c: "cached p s D V Y h" and b: "h b = Some sec"
  shows "completes E (get_buf b b_data) s Q = Q (V sec) s"
    and "completes E (get_buf b b_sector) s Q' = Q' sec s"
    and "completes E (get_buf b b_dev) s Q' = Q' ROOTDEV s"
proof -
  have r: "cache_rep (bufs s) D V Y h" using c by (simp add: cached_def)
  show "completes E (get_buf b b_data) s Q = Q (V sec) s" "completes E (get_buf b b_sector) s Q' = Q' sec s"
    "completes E (get_buf b b_dev) s Q' = Q' ROOTDEV s"
    using rep_held [OF r b] by (simp_all add: kwp)
qed

lemma completes_set_data:
  assumes c: "cached p s D V Y h" and b: "h b = Some sec"
    and Q: "\<And>t. cached p t D (V(sec := f (V sec))) Y h \<Longrightarrow> dsk.more t = dsk.more s \<Longrightarrow> Q () t"
  shows "completes E (upd_buf b (\<lambda>x. x\<lparr>b_data := f (b_data x)\<rparr>)) s Q"
proof -
  have r: "cache_rep (bufs s) D V Y h" using c by (simp add: cached_def)
  show ?thesis
    using rep_held [OF r b] rep_set_data [OF r b, of "f (V sec)"] c by (simp add: kwp) (auto intro!: Q simp: cached_def)
qed

lemma completes_set_dirty:
  assumes c: "cached p s D V Y h" and b: "h b = Some sec"
    and Q: "\<And>t. cached p t D V (insert sec Y) h \<Longrightarrow> dsk.more t = dsk.more s \<Longrightarrow> Q () t"
  shows "completes E (upd_buf b (\<lambda>x. x\<lparr>b_flags := b_flags x OR B_DIRTY\<rparr>)) s Q"
proof -
  have r: "cache_rep (bufs s) D V Y h" using c by (simp add: cached_def)
  show ?thesis
    using rep_held [OF r b] rep_set_dirty [OF r b] c by (simp add: kwp) (auto intro!: Q simp: cached_def)
qed

section \<open>Initialisation\<close>

lemma linked_first: "linked B (NBUF # xs @ [NBUF]) \<Longrightarrow> b_next (B NBUF) = hd (xs @ [NBUF])"
  by (cases xs) auto

text \<open>One round of the loop of \<^verbatim>\<open>bufcache_init\<close>.\<close>

lemma exec_init_step:
  assumes "k < NBUF" and lk: "linked (bufs s) (NBUF # rev [0..<k] @ [NBUF])"
  shows "kbind (get_buf NBUF b_next) (\<lambda>n.
      kthen (upd_buf k (\<lambda>x. x\<lparr>b_next := n, b_prev := NBUF, b_dev := -1\<rparr>))
     (kthen (upd_buf n (\<lambda>x. x\<lparr>b_prev := k\<rparr>))
            (upd_buf NBUF (\<lambda>h. h\<lparr>b_next := k\<rparr>)))) s =
    Ret () (s\<lparr>bufs := link_front k ((bufs s)(k := (bufs s k)\<lparr>b_dev := -1\<rparr>))\<rparr>)"
proof -
  have n: "b_next (bufs s NBUF) \<le> NBUF" "b_next (bufs s NBUF) \<noteq> k"
    using linked_first [OF lk] assms(1) by (cases k; simp)+
  then show ?thesis
    using assms(1) by (simp add: kexec link_front_def set_next_def set_prev_def fun_eq_iff)
qed

definition init_inv :: "nat \<Rightarrow> (nat \<Rightarrow> buf) \<Rightarrow> bool" where
  "init_inv k B = (linked B (NBUF # rev [0..<k] @ [NBUF]) \<and> (\<forall>b < k. b_dev (B b) = -1) \<and> (\<forall>b < NBUF. b_flags (B b) = 0))"

lemma init_inv_step:
  assumes I: "init_inv k B" and k: "k < NBUF"
  shows "init_inv (Suc k) (link_front k (B(k := (B k)\<lparr>b_dev := -1\<rparr>)))"
proof -
  let ?B = "B(k := (B k)\<lparr>b_dev := -1\<rparr>)"
  have lk: "linked ?B (NBUF # rev [0..<k] @ [NBUF])"
    by (rule linked_cong [where B = B]) (use I in \<open>auto simp: init_inv_def\<close>)
  have "linked (link_front k ?B) (NBUF # k # rev [0..<k] @ [NBUF])"
    by (rule linked_front [OF lk]) (use k in auto)
  moreover have "b_dev (link_front k ?B b) = b_dev (?B b)" "b_flags (link_front k ?B b) = b_flags (?B b)" for b
    by (simp_all add: link_front_def)
  ultimately show ?thesis using I by (auto simp: init_inv_def less_Suc_eq)
qed

lemma init_inv_rep:
  assumes "init_inv NBUF B"
  shows "cache_rep B D D {} Map.empty"
proof (rule repI)
  have "set (rev [0..<NBUF]) = {..<NBUF}" by auto
  then show "\<exists>xs. ring B xs" using assms by (intro exI [of _ "rev [0..<NBUF]"]) (simp add: ring_def init_inv_def)
qed (use assms in \<open>auto simp: init_inv_def busy_def dirty_def ROOTDEV_def\<close>)

lemma bufcache_init_cached:
  fixes s :: "'z dsk_scheme"
  assumes p: "p < NUM_IDS" and ok: "fs_ok p s" and zero: "\<And>b. b < NBUF \<Longrightarrow> b_flags (bufs s b) = 0"
  shows "returns bufcache_init s (\<lambda>_ t. cached p t (disk s True) (disk s True) {} Map.empty \<and> dsk.more t = dsk.more s)"
proof -
  let ?I = "\<lambda>k t. \<exists>B. t = s\<lparr>bufs := B\<rparr> \<and> init_inv k B"
  let ?body = "\<lambda>b. kbind (get_buf NBUF b_next) (\<lambda>n.
          kthen (upd_buf b (\<lambda>x. x\<lparr>b_next := n, b_prev := NBUF, b_dev := -1\<rparr>))
         (kthen (upd_buf n (\<lambda>x. x\<lparr>b_prev := b\<rparr>))
                (upd_buf NBUF (\<lambda>h. h\<lparr>b_next := b\<rparr>)))) :: ('z dsk_scheme, unit) kmon"
  let ?s = "s\<lparr>bufs := (bufs s)(NBUF := (bufs s NBUF)\<lparr>b_prev := NBUF, b_next := NBUF\<rparr>)\<rparr>"
  have "returns (kfor 0 NBUF ?body) ?s (\<lambda>_ t. ?I NBUF t)"
  proof (rule returns_kfor [where I = ?I])
    have "init_inv 0 (bufs ?s)" using zero by (simp add: init_inv_def)
    then show "?I 0 ?s" by (intro exI [of _ "bufs ?s"]) simp
  next
    fix k t assume k: "k < NBUF" and "?I k t"
    then obtain B where B: "t = s\<lparr>bufs := B\<rparr>" "init_inv k B" by blast
    then have "?body k t = Ret () (s\<lparr>bufs := link_front k (B(k := (B k)\<lparr>b_dev := -1\<rparr>))\<rparr>)"
      using exec_init_step [OF k, of t] by (simp add: init_inv_def)
    then show "returns (?body k) t (\<lambda>_ u. ?I (Suc k) u)"
      using init_inv_step [OF B(2) k] by (auto simp: returns_def)
  qed simp
  then have "returns (kfor 0 NBUF ?body) ?s (\<lambda>_ t. cached p t (disk s True) (disk s True) {} Map.empty \<and> dsk.more t = dsk.more s)"
    by (rule returns_mono) (use p ok init_inv_rep in \<open>auto simp: cached_def\<close>)
  moreover have "lock_free s BcacheLk" using ok by (simp add: fs_ok_def)
  ultimately show ?thesis
    by (simp add: bufcache_init_def kwp returns_Ret [where m = "upd_buf NBUF _", OF exec_bufs(2)])
qed

section \<open>Sequences of block operations\<close>

text \<open>
  A client of the cache: a read obtains the buffer, copies it and releases it; a write changes the
  contents, writes the buffer and releases it.
\<close>

datatype blk_op = BlkRead u32 | BlkWrite u32 "block \<Rightarrow> block"

fun blk_sector :: "blk_op \<Rightarrow> u32" where
  "blk_sector (BlkRead sec) = sec"
| "blk_sector (BlkWrite sec f) = sec"

fun blk_run :: "blk_op list \<Rightarrow> ('z dsk_scheme, block list) kmon" where
  "blk_run [] = kret []"
| "blk_run (BlkRead sec # ops) =
     kbind (bufcache_read ROOTDEV sec) (\<lambda>b.
     kbind (get_buf b b_data) (\<lambda>d.
     kthen (bufcache_release b)
    (kbind (blk_run ops) (\<lambda>ds. kret (d # ds)))))"
| "blk_run (BlkWrite sec f # ops) =
     kbind (bufcache_read ROOTDEV sec) (\<lambda>b.
     kthen (upd_buf b (\<lambda>x. x\<lparr>b_data := f (b_data x)\<rparr>))
    (kthen (bufcache_write b)
    (kthen (bufcache_release b)
           (blk_run ops))))"

text \<open>The same operations on an array of blocks.\<close>

fun blk_spec :: "blk_op list \<Rightarrow> (u32 \<Rightarrow> block) \<Rightarrow> block list \<times> (u32 \<Rightarrow> block)" where
  "blk_spec [] D = ([], D)"
| "blk_spec (BlkRead sec # ops) D = (D sec # fst (blk_spec ops D), snd (blk_spec ops D))"
| "blk_spec (BlkWrite sec f # ops) D = blk_spec ops (D(sec := f (D sec)))"

lemma completes_blk_run:
  fixes s :: "'z dsk_scheme"
  assumes "cached p s D D {} Map.empty" and "\<And>a. a \<in> set ops \<Longrightarrow> blk_sector a < 2 ^ 28"
  shows "completes (disk_env p (\<lambda>E. True)) (blk_run ops) s
    (\<lambda>r t. r = fst (blk_spec ops D) \<and> cached p t (snd (blk_spec ops D)) (snd (blk_spec ops D)) {} Map.empty)"
  using assms
proof (induction ops arbitrary: s D)
  case Nil
  then show ?case by (simp add: kwp)
next
  case (Cons a ops)
  have sec: "blk_sector a < 2 ^ 28" using Cons.prems(2) by simp
  show ?case
  proof (cases a)
    case (BlkRead sec)
    show ?thesis
      unfolding BlkRead blk_run.simps completes_kbind completes_kthen
    proof (rule completes_bufcache_read [OF Cons.prems(1)], goal_cases)
      case (5 b t)
      show ?case
        unfolding completes_held(1) [OF 5(2) fun_upd_same]
      proof (rule completes_bufcache_release [OF 5(2)], goal_cases)
        case (3 u)
        then have "cached p u D D {} Map.empty" by simp
        from completes_mono [OF Cons.IH [OF this]] Cons.prems(2) show ?case by (auto simp: kwp elim!: completes_mono)
      qed auto
    qed (use sec BlkRead in \<open>auto simp: NBUF_def\<close>)
  next
    case (BlkWrite sec f)
    let ?D = "D(sec := f (D sec))"
    show ?thesis
      unfolding BlkWrite blk_run.simps completes_kbind completes_kthen
    proof (rule completes_bufcache_read [OF Cons.prems(1)], goal_cases)
      case (5 b t)
      show ?case
      proof (rule completes_set_data [OF 5(2), where sec = sec and f = f], goal_cases)
        case (2 u)
        show ?case
        proof (rule completes_bufcache_write [OF 2(1), where sec = sec], goal_cases)
          case (5 v)
          show ?case
          proof (rule completes_bufcache_release [OF 5(1), where sec = sec], goal_cases)
            case (3 w)
            then have "cached p w ?D ?D {} Map.empty" by simp
            then show ?case unfolding blk_spec.simps by (rule Cons.IH) (use Cons.prems(2) in simp)
          qed simp_all
        qed (use sec BlkWrite in auto)
      qed simp
    qed (use sec BlkWrite in \<open>auto simp: NBUF_def\<close>)
  qed
qed

text \<open>
  C8: From the initialisation of the buffer cache on, every sequence of block reads and writes
  returns, without panic and without waiting for ever, the results that the same sequence has on
  an array of blocks, and leaves the disk with the contents of that array. The thread may sleep for
  each request; the interrupt that completes it may come while any other thread runs.
\<close>

theorem bufcache_refines_blocks:
  assumes "p < NUM_IDS" and "fs_ok p s" and "\<forall>b < NBUF. b_flags (bufs s b) = 0" and "\<forall>a \<in> set ops. blk_sector a < 2 ^ 28"
  shows "completes (disk_env p (\<lambda>E. True)) (kthen bufcache_init (blk_run ops)) s
    (\<lambda>r t. r = fst (blk_spec ops (disk s True)) \<and> disk t True = snd (blk_spec ops (disk s True)) \<and> fs_ok p t)"
  unfolding completes_kthen
proof (rule completes_of_returns [OF bufcache_init_cached])
  fix a t assume t: "cached p t (disk s True) (disk s True) {} Map.empty \<and> dsk.more t = dsk.more s"
  show "completes (disk_env p (\<lambda>E. True)) (blk_run ops) t
    (\<lambda>r t. r = fst (blk_spec ops (disk s True)) \<and> disk t True = snd (blk_spec ops (disk s True)) \<and> fs_ok p t)"
    by (rule completes_mono [OF completes_blk_run]) (use t assms(4) in \<open>auto simp: cached_def\<close>)
qed (use assms in auto)

theorem bufcache_refines_blocks_witness:
  "completes (disk_env 0 (\<lambda>E. True)) (kthen bufcache_init (blk_run [BlkWrite 7 (\<lambda>_ _. 5), BlkRead 7, BlkRead 8])) dsk_ex
    (\<lambda>r t. r = [\<lambda>_. 5, \<lambda>_. 0] \<and> disk t True = (\<lambda>_ _. 0)(7 := \<lambda>_. 5) \<and> fs_ok 0 t)"
  using bufcache_refines_blocks [of 0 dsk_ex "[BlkWrite 7 (\<lambda>_ _. 5), BlkRead 7, BlkRead 8]"] dsk_ex_ok
  by (simp add: dsk_ex_flk buf0_def NUM_IDS_def)

end
