(* ===== verification/Journal.thy ===== *)
theory Journal
  imports Cache
begin

text \<open>
  The redo log: transactions are atomic with respect to a crash at any moment, and recovery
  completes the transaction that was committed.
\<close>

section \<open>Integers in blocks\<close>

lemma bit_low_byte: "bit (ucast (ucast (v :: 'a::len word) :: u8) :: 'b::len word) n = (n < LENGTH('b) \<and> n < 8 \<and> bit v n)"
  by (auto simp: bit_unsigned_iff)

lemma bytes32: "ucast (ucast v :: u8) OR push_bit 8 (ucast (ucast (drop_bit 8 v) :: u8)) OR
   push_bit 16 (ucast (ucast (drop_bit 16 v) :: u8)) OR push_bit 24 (ucast (ucast (drop_bit 24 v) :: u8)) = (v :: u32)"
  (is "?a OR push_bit 8 ?b OR push_bit 16 ?c OR push_bit 24 ?d = v")
proof (rule bit_word_eqI)
  fix n assume n: "n < LENGTH(32)"
  have "bit (?a OR push_bit 8 ?b OR push_bit 16 ?c OR push_bit 24 ?d) n \<longleftrightarrow>
     bit ?a n \<or> 8 \<le> n \<and> bit ?b (n - 8) \<or> 16 \<le> n \<and> bit ?c (n - 16) \<or> 24 \<le> n \<and> bit ?d (n - 24)"
    using n by (simp only: bit_or_iff bit_push_bit_iff) (simp add: disj_assoc)
  also have "\<dots> \<longleftrightarrow> n < 8 \<and> bit v n \<or> 8 \<le> n \<and> n - 8 < 8 \<and> bit v (8 + (n - 8)) \<or>
        16 \<le> n \<and> n - 16 < 8 \<and> bit v (16 + (n - 16)) \<or> 24 \<le> n \<and> n - 24 < 8 \<and> bit v (24 + (n - 24))"
    using n by (simp only: bit_low_byte bit_drop_bit_eq o_def) auto
  also have "\<dots> \<longleftrightarrow> bit v n"
  proof -
    consider "n < 8" | "8 \<le> n" "n < 16" | "16 \<le> n" "n < 24" | "24 \<le> n" "n < 32" using n by fastforce
    then show ?thesis by cases auto
  qed
  finally show "bit (?a OR push_bit 8 ?b OR push_bit 16 ?c OR push_bit 24 ?d) n = bit v n" .
qed

lemma get_put32 [simp]: "get32 (put32 a v d) a = v"
  using bytes32 [of v] by (simp add: get32_def put32_def)

lemma get_put32_other: "a + 4 \<le> a' \<or> a' + 4 \<le> a \<Longrightarrow> get32 (put32 a v d) a' = get32 d a'"
  by (auto simp: get32_def put32_def)

section \<open>The log on the disk\<close>

definition hdr_n :: "block \<Rightarrow> nat" where
  "hdr_n d = nat (sint (get32 d 0))"

definition hdr_sector :: "block \<Rightarrow> nat \<Rightarrow> u32" where
  "hdr_sector d i = get32 d (4 + 4 * i)"

text \<open>Block \<open>i\<close> of the log that starts at \<open>st\<close>, and all blocks of the log.\<close>

definition log_block :: "u32 \<Rightarrow> nat \<Rightarrow> u32" where
  "log_block st i = st + of_nat i + 1"

definition log_area :: "u32 \<Rightarrow> u32 set" where
  "log_area st = insert st (log_block st ` {..<LOGSIZE})"

text \<open>Copying \<open>n\<close> blocks to their home sectors.\<close>

definition install :: "nat \<Rightarrow> (nat \<Rightarrow> u32) \<Rightarrow> (nat \<Rightarrow> block) \<Rightarrow> (u32 \<Rightarrow> block) \<Rightarrow> u32 \<Rightarrow> block" where
  "install n sectors blocks D = fold (\<lambda>i E. E(sectors i := blocks i)) [0..<n] D"

text \<open>What a disk holds once the transaction in its log, if there is one, is completed.\<close>

definition replay :: "u32 \<Rightarrow> (u32 \<Rightarrow> block) \<Rightarrow> u32 \<Rightarrow> block" where
  "replay st D = install (hdr_n (D st)) (hdr_sector (D st)) (\<lambda>i. D (log_block st i)) D"

definition hdr_ok :: "u32 \<Rightarrow> block \<Rightarrow> bool" where
  "hdr_ok st d = (0 \<le> sint (get32 d 0) \<and> hdr_n d \<le> LOGSIZE \<and>
     (\<forall>i < hdr_n d. hdr_sector d i \<notin> log_area st \<and> hdr_sector d i < 2 ^ 28))"

definition log_ok :: "u32 \<Rightarrow> bool" where
  "log_ok st = (unat st + LOGSIZE < 2 ^ 28)"

lemma install_Suc: "install (Suc n) h L D = (install n h L D)(h n := L n)"
  by (simp add: install_def)

lemma install_0 [simp]: "install 0 h L D = D"
  by (simp add: install_def)

lemma install_outside: "sec \<notin> h ` {..<n} \<Longrightarrow> install n h L D sec = D sec"
  by (induction n) (auto simp: install_Suc lessThan_Suc)

lemma install_in: "sec \<in> h ` {..<n} \<Longrightarrow> install n h L D' sec = install n h L D sec"
  by (induction n) (auto simp: install_Suc lessThan_Suc)

text \<open>An interrupted installation is completed by installing again.\<close>

lemma install_again:
  assumes "\<And>sec. sec \<notin> h ` {..<n} \<Longrightarrow> D' sec = D sec"
  shows "install n h L D' = install n h L D"
proof
  fix sec
  show "install n h L D' sec = install n h L D sec"
    using assms by (cases "sec \<in> h ` {..<n}") (auto simp: install_outside intro: install_in)
qed

lemma install_cong: "(\<And>i. i < n \<Longrightarrow> h i = h' i \<and> L i = L' i) \<Longrightarrow> install n h L D = install n h' L' D"
  by (induction n) (auto simp: install_Suc)

lemma install_same: "(\<And>i. i < n \<Longrightarrow> V (h i) = L i) \<Longrightarrow> install n h L V = V"
  by (induction n) (auto simp: install_Suc fun_upd_idem)

lemma log_block_less: "log_ok st \<Longrightarrow> i < LOGSIZE \<Longrightarrow> log_block st i < 2 ^ 28"
  by (simp add: log_ok_def log_block_def word_less_nat_alt unat_word_ariths kconst unat_of_nat)

lemma log_start_less: "log_ok st \<Longrightarrow> st < 2 ^ 28"
  by (simp add: log_ok_def word_less_nat_alt)

lemma log_block_inj: "i < LOGSIZE \<Longrightarrow> j < LOGSIZE \<Longrightarrow> log_block st i = log_block st j \<longleftrightarrow> i = j"
  by (auto simp: log_block_def kconst word_of_nat_eq_iff take_bit_eq_mod)

lemma log_block_start: "i < LOGSIZE \<Longrightarrow> log_block st i \<noteq> st"
proof
  assume "i < LOGSIZE" "log_block st i = st"
  then have "of_nat (Suc i) = (0 :: u32)" by (simp add: log_block_def add.commute)
  then have "unat (of_nat (Suc i) :: u32) = 0" by (simp del: of_nat_Suc)
  with \<open>i < LOGSIZE\<close> show False by (simp add: kconst unat_of_nat del: of_nat_Suc)
qed

lemma in_log_area: "st \<in> log_area st" "i < LOGSIZE \<Longrightarrow> log_block st i \<in> log_area st"
  by (auto simp: log_area_def)

section \<open>The fields of the log\<close>

lemma lg_fields:
  assumes "dsk.more t = dsk.more s"
  shows "log_start t = log_start s" "log_size t = log_size s" "log_busy t = log_busy s" "log_dev t = log_dev s"
    "lh_n t = lh_n s" "lh_sector t = lh_sector s" "lg.more t = lg.more s"
  using assms by (cases s; cases t; simp add: dsk.defs)+

lemma cached_lg [simp]:
  "cached p (s\<lparr>lh_n := n\<rparr>) D V Y h = cached p s D V Y h" "cached p (s\<lparr>lh_sector := l\<rparr>) D V Y h = cached p s D V Y h"
  "cached p (s\<lparr>log_busy := b\<rparr>) D V Y h = cached p s D V Y h"
  by (simp_all add: cached_def fs_ok_def lock_free_def cpu_ok_def kstack_ok_def sched_ok_def tq_repr_def ide_ready_def)

section \<open>Installing\<close>

lemma map_upd_Some_other: "b \<noteq> c \<Longrightarrow> (m(b \<mapsto> x, c \<mapsto> y)) b = Some x"
  by simp

lemma completes_install_block:
  fixes t :: "'z lg_scheme"
  assumes c: "cached p t D V Y Map.empty" and lg: "log_dev t = ROOTDEV" "log_start t = st" "log_ok st" "k < LOGSIZE" "lh_sector t k = sec"
    and home: "sec \<notin> log_area st" "sec < 2 ^ 28" and Y: "Y \<inter> log_area st = {}" "card Y < NBUF - 1" "finite Y"
    and d: "d = D (log_block st k)" and g: "g D" "g (D(sec := d))"
    and Q: "\<And>u. cached p u (D(sec := d)) (V(sec := d)) (Y - {sec}) Map.empty \<Longrightarrow> dsk.more u = dsk.more t \<Longrightarrow> Q () u"
  shows "completes (disk_env p g) (install_block k) t Q"
proof -
  let ?lb = "log_block st k"
  have ne: "sec \<noteq> ?lb" and lb: "?lb \<notin> Y" using home(1) Y(1) in_log_area(2) [OF lg(4), of st] by auto
  have Vlb: "V ?lb = d" using repD(11) [of "bufs t" D V Y Map.empty ?lb] c lb d by (simp add: cached_def)
  let ?h = "\<lambda>lbuf dbuf. Map.empty(lbuf \<mapsto> ?lb, dbuf \<mapsto> sec)"
  have rest: "completes (disk_env p g) (get_buf lbuf b_data) v (\<lambda>d v.
         completes (disk_env p g) (upd_buf dbuf (\<lambda>x. x\<lparr>b_data := d\<rparr>)) v (\<lambda>_ v.
         completes (disk_env p g) (bufcache_write dbuf) v (\<lambda>_ v.
         completes (disk_env p g) (bufcache_release lbuf) v (\<lambda>_ v.
         completes (disk_env p g) (bufcache_release dbuf) v Q))))"
    if ld: "lbuf \<noteq> dbuf" and v: "cached p v D V Y (?h lbuf dbuf)" "dsk.more v = dsk.more t" for lbuf dbuf v
    unfolding completes_held(1) [OF v(1) map_upd_Some_other [OF ld]] Vlb
  proof (rule completes_set_data [OF v(1), where sec = sec and f = "\<lambda>_. d"], simp)
    fix w assume w: "cached p w D (V(sec := d)) Y (?h lbuf dbuf)" "dsk.more w = dsk.more v"
    show "completes (disk_env p g) (bufcache_write dbuf) w (\<lambda>_ v.
         completes (disk_env p g) (bufcache_release lbuf) v (\<lambda>_ v.
         completes (disk_env p g) (bufcache_release dbuf) v Q))"
    proof (rule completes_bufcache_write [OF w(1), where sec = sec])
      fix x assume x: "cached p x (D(sec := (V(sec := d)) sec)) (V(sec := d)) (Y - {sec}) (?h lbuf dbuf)" "dsk.more x = dsk.more w"
      show "completes (disk_env p g) (bufcache_release lbuf) x (\<lambda>_ v. completes (disk_env p g) (bufcache_release dbuf) v Q)"
      proof (rule completes_bufcache_release [OF x(1), where sec = ?lb])
        fix y assume y: "cached p y (D(sec := (V(sec := d)) sec)) (V(sec := d)) (Y - {sec}) ((?h lbuf dbuf)(lbuf := None))" "dsk.more y = dsk.more x"
        have "(?h lbuf dbuf)(lbuf := None, dbuf := None) = Map.empty" by auto
        with y v(2) w(2) x(2) show "completes (disk_env p g) (bufcache_release dbuf) y Q"
          using ld by (intro completes_bufcache_release [OF y(1), where sec = sec] Q) simp_all
      qed (use ld ne Vlb d in simp_all)
    qed (use home g in simp_all)
  qed
  show ?thesis
    unfolding install_block_def completes_kbind completes_kget lg(1,2) log_block_def [symmetric]
  proof (rule completes_bufcache_read [OF c])
    fix lbuf u assume u: "cached p u D V Y (Map.empty(lbuf \<mapsto> ?lb))" "dsk.more u = dsk.more t"
    note f = lg_fields [OF u(2)]
    show "completes (disk_env p g) (kthen (kindex k LOGSIZE) (kbind (kget (\<lambda>s. lh_sector s k)) (\<lambda>sector.
       kbind (bufcache_read ROOTDEV sector) (\<lambda>dbuf.
       kbind (get_buf lbuf b_data) (\<lambda>d.
       kthen (upd_buf dbuf (\<lambda>x. x\<lparr>b_data := d\<rparr>))
      (kthen (bufcache_write dbuf)
      (kthen (bufcache_release lbuf)
             (bufcache_release dbuf)))))))) u Q"
      unfolding completes_kthen completes_kbind completes_kget completes_kindex f lg(5)
    proof (intro conjI lg(4), rule completes_bufcache_read [OF u(1)])
      fix dbuf v assume v: "(Map.empty(lbuf \<mapsto> ?lb)) dbuf = None" "cached p v D V Y (?h lbuf dbuf)" "dsk.more v = dsk.more u"
      show "completes (disk_env p g) (get_buf lbuf b_data) v (\<lambda>d v.
         completes (disk_env p g) (upd_buf dbuf (\<lambda>x. x\<lparr>b_data := d\<rparr>)) v (\<lambda>_ v.
         completes (disk_env p g) (bufcache_write dbuf) v (\<lambda>_ v.
         completes (disk_env p g) (bufcache_release lbuf) v (\<lambda>_ v.
         completes (disk_env p g) (bufcache_release dbuf) v Q))))"
        by (rule rest) (use v u(2) in \<open>auto split: if_splits\<close>)
    qed (use ne home Y g(1) lb in \<open>auto simp: card_insert_if\<close>)
  qed (use log_block_less [OF lg(3,4)] Y g(1) in auto)
qed

lemma completes_install:
  fixes s :: "'z lg_scheme"
  assumes c: "cached p s D V Y Map.empty" and lg: "log_dev s = ROOTDEV" "log_ok (log_start s)" "0 \<le> lh_n s" "lh_n s \<le> int LOGSIZE"
    and home: "\<And>i. int i < lh_n s \<Longrightarrow> lh_sector s i \<notin> log_area (log_start s) \<and> lh_sector s i < 2 ^ 28"
    and Y: "Y \<inter> log_area (log_start s) = {}" "card Y < NBUF - 1" "finite Y"
    and L: "L = (\<lambda>i. D (log_block (log_start s) i))"
    and g: "\<And>k. k \<le> nat (lh_n s) \<Longrightarrow> g (install k (lh_sector s) L D)"
    and Q: "\<And>t. cached p t (install (nat (lh_n s)) (lh_sector s) L D) (install (nat (lh_n s)) (lh_sector s) L V)
        (Y - lh_sector s ` {..<nat (lh_n s)}) Map.empty \<Longrightarrow> dsk.more t = dsk.more s \<Longrightarrow> Q () t"
  shows "completes (disk_env p g) install_trans s Q"
proof -
  let ?n = "nat (lh_n s)" and ?h = "lh_sector s" and ?st = "log_start s"
  let ?I = "\<lambda>k t. cached p t (install k ?h L D) (install k ?h L V) (Y - ?h ` {..<k}) Map.empty \<and> dsk.more t = dsk.more s"
  have n: "?n \<le> LOGSIZE" using lg(4) by simp
  have step: "completes (disk_env p g) (install_block k) t (\<lambda>_ u. ?I (Suc k) u)" if k: "k < ?n" and t: "?I k t" for k t
  proof -
    have kn: "k < LOGSIZE" using k n by simp
    have "log_block ?st k \<notin> ?h ` {..<k}" using home in_log_area(2) [OF kn, of ?st] k by fastforce
    then have Lk: "L k = install k ?h L D (log_block ?st k)" by (simp add: install_outside L)
    have "card (Y - ?h ` {..<k}) \<le> card Y" using Y(3) by (intro card_mono) auto
    note f = lg_fields [OF conjunct2 [OF t]]
    show ?thesis
    proof (rule completes_install_block [OF conjunct1 [OF t] _ _ _ kn _ _ _ _ _ _ Lk, where sec = "?h k"], goal_cases)
      case (12 u)
      have "Y - ?h ` {..<k} - {?h k} = Y - ?h ` {..<Suc k}" by (auto simp: lessThan_Suc)
      with 12 t show ?case by (simp add: install_Suc)
    qed (use lg home k Y \<open>card (Y - ?h ` {..<k}) \<le> card Y\<close> g [of k] g [of "Suc k"] in \<open>auto simp: f install_Suc\<close>)
  qed
  have "completes (disk_env p g) install_trans s (\<lambda>_ t. ?I ?n t)"
    unfolding install_trans_def completes_kbind
  proof (rule completes_kscan [where I = "\<lambda>k t. k \<le> ?n \<and> ?I k t"], goal_cases)
    case (3 k t)
    have "lh_n t = lh_n s" by (rule lg_fields(5)) (use 3(3) in simp)
    moreover have "completes (disk_env p g) (install_block k) t (\<lambda>_ u. Suc k \<le> ?n \<and> ?I (Suc k) u)" if "k < ?n"
      using step [OF that] 3(3) that by (auto elim!: completes_mono)
    ultimately show ?case using 3(3) lg(3) by (cases "k < ?n") (auto simp: kwp elim!: completes_mono)
  qed (use c n in \<open>auto simp: kwp\<close>)
  then show ?thesis by (rule completes_mono) (use Q in simp)
qed

section \<open>The header\<close>

definition hdr_block :: "nat \<Rightarrow> (nat \<Rightarrow> u32) \<Rightarrow> nat \<Rightarrow> block \<Rightarrow> block" where
  "hdr_block n h k d = fold (\<lambda>i. put32 (4 + 4 * i) (h i)) [0..<k] (put32 0 (of_nat n) d)"

lemma hdr_block_Suc: "hdr_block n h (Suc k) d = put32 (4 + 4 * k) (h k) (hdr_block n h k d)"
  by (simp add: hdr_block_def)

lemma hdr_block_n: "n \<le> LOGSIZE \<Longrightarrow> sint (get32 (hdr_block n h k d) 0) = int n"
proof (induction k)
  case 0
  have "sint (of_nat n :: u32) = signed_take_bit 31 (int n)" by (simp add: signed_of_nat)
  also have "\<dots> = int n" using 0 by (intro signed_take_bit_int_eq_self) (simp_all add: kconst)
  finally show ?case by (simp add: hdr_block_def)
qed (simp add: hdr_block_Suc get_put32_other)

lemma hdr_block_sector: "i < k \<Longrightarrow> get32 (hdr_block n h k d) (4 + 4 * i) = h i"
  by (induction k) (auto simp: hdr_block_Suc get_put32_other less_Suc_eq)

lemma completes_write_head:
  fixes s :: "'z lg_scheme"
  assumes c: "cached p s D V Y Map.empty" and lg: "log_dev s = ROOTDEV" "log_start s = st" "log_ok st" "lh_n s = int n" "n \<le> LOGSIZE"
    and Y: "st \<notin> Y" "card Y < NBUF" and d: "d = hdr_block n (lh_sector s) n (D st)" and g: "g D" "g (D(st := d))"
    and Q: "\<And>t. cached p t (D(st := d)) (V(st := d)) Y Map.empty \<Longrightarrow> dsk.more t = dsk.more s \<Longrightarrow> Q () t"
  shows "completes (disk_env p g) write_head s Q"
proof -
  let ?b = "\<lambda>k. hdr_block n (lh_sector s) k (D st)"
  let ?I = "\<lambda>buf k t. cached p t D (V(st := ?b k)) Y (Map.empty(buf \<mapsto> st)) \<and> dsk.more t = dsk.more s"
  have V: "V st = D st" using repD(11) [of "bufs s" D V Y Map.empty st] c Y(1) by (simp add: cached_def)
  show ?thesis
    unfolding write_head_def completes_kbind completes_kget lg(1,2)
  proof (rule completes_bufcache_read [OF c], goal_cases)
    case (5 buf t)
    note f = lg_fields [OF 5(3)]
    show ?case
      unfolding completes_kthen completes_kbind completes_kget f lg(4)
    proof (rule completes_set_data [OF 5(2), where sec = st and f = "put32 0 (word_of_int (int n))"], goal_cases)
      case (2 u)
      have "?I buf 0 u" using 2 5(3) V by (simp add: hdr_block_def)
      then have "completes (disk_env p g) (kfor 0 n (\<lambda>i. kthen (kindex i LOGSIZE) (kbind (kget (\<lambda>s. lh_sector s i)) (\<lambda>sector.
          upd_buf buf (\<lambda>x. x\<lparr>b_data := put32 (4 + 4 * i) sector (b_data x)\<rparr>))))) u (\<lambda>_ t. ?I buf n t)"
      proof (rule completes_kfor [where I = "?I buf"], goal_cases)
        case (2 i v)
        note f = lg_fields [OF conjunct2 [OF 2(3)]]
        show ?case
          unfolding completes_kthen completes_kbind completes_kget completes_kindex f
          by (intro conjI, use 2(2) lg(5) in simp, rule completes_set_data [OF conjunct1 [OF 2(3)], where sec = st])
            (use 2(3) in \<open>simp_all add: hdr_block_Suc\<close>)
      qed simp
      then show ?case
        unfolding nat_int
      proof (rule completes_mono)
        fix v assume v: "?I buf n v"
        show "completes (disk_env p g) (bufcache_write buf) v (\<lambda>_ t. completes (disk_env p g) (bufcache_release buf) t Q)"
        proof (rule completes_bufcache_write [OF conjunct1 [OF v], where sec = st], goal_cases)
          case (5 w)
          then have "cached p w (D(st := d)) (V(st := d)) Y (Map.empty(buf \<mapsto> st))" using Y(1) by (simp add: d)
          then show ?case
            by (rule completes_bufcache_release [where sec = st]) (use 5(2) v Q in simp_all)
        qed (use log_start_less [OF lg(3)] g in \<open>simp_all add: d\<close>)
      qed
    qed simp
  qed (use log_start_less [OF lg(3)] Y g in simp_all)
qed

lemma completes_read_head:
  fixes s :: "'z lg_scheme"
  assumes c: "cached p s D V Y Map.empty" and lg: "log_dev s = ROOTDEV" "log_start s = st" "log_ok st" and hdr: "hdr_ok st (D st)"
    and Y: "st \<notin> Y" "card Y < NBUF" and g: "g D"
    and Q: "\<And>t. cached p t D V Y Map.empty \<Longrightarrow> log_dev t = ROOTDEV \<Longrightarrow> log_start t = st \<Longrightarrow> lh_n t = int (hdr_n (D st)) \<Longrightarrow>
        (\<And>i. i < hdr_n (D st) \<Longrightarrow> lh_sector t i = hdr_sector (D st) i) \<Longrightarrow> log_size t = log_size s \<Longrightarrow> log_busy t = log_busy s \<Longrightarrow> Q () t"
  shows "completes (disk_env p g) read_head s Q"
proof -
  let ?n = "hdr_n (D st)" and ?d = "D st"
  let ?I = "\<lambda>buf k t. cached p t D V Y (Map.empty(buf \<mapsto> st)) \<and> log_dev t = ROOTDEV \<and> log_start t = st \<and> lh_n t = int ?n \<and>
      log_size t = log_size s \<and> log_busy t = log_busy s \<and> (\<forall>i < k. lh_sector t i = hdr_sector ?d i)"
  have V: "V st = ?d" using repD(11) [of "bufs s" D V Y Map.empty st] c Y(1) by (simp add: cached_def)
  have n: "sint (get32 ?d 0) = int ?n" "?n \<le> LOGSIZE" using hdr by (simp_all add: hdr_ok_def hdr_n_def)
  show ?thesis
    unfolding read_head_def completes_kbind completes_kget lg(1,2)
  proof (rule completes_bufcache_read [OF c], goal_cases)
    case (5 buf t)
    note f = lg_fields [OF 5(3)]
    have I: "?I buf 0 (t\<lparr>lh_n := int ?n\<rparr>)" using 5(2) lg by (simp add: f)
    have "completes (disk_env p g) (kfor 0 ?n (\<lambda>i. kthen (kindex i LOGSIZE)
        (kmodify (\<lambda>s. s\<lparr>lh_sector := (lh_sector s)(i := get32 ?d (4 + 4 * i))\<rparr>)))) (t\<lparr>lh_n := int ?n\<rparr>) (\<lambda>_ t. ?I buf ?n t)"
      by (rule completes_kfor [where I = "?I buf"]) (use I n(2) in \<open>auto simp: kwp less_Suc_eq hdr_sector_def\<close>)
    then have "completes (disk_env p g) (kfor 0 ?n (\<lambda>i. kthen (kindex i LOGSIZE)
        (kmodify (\<lambda>s. s\<lparr>lh_sector := (lh_sector s)(i := get32 ?d (4 + 4 * i))\<rparr>)))) (t\<lparr>lh_n := int ?n\<rparr>)
        (\<lambda>_ t. completes (disk_env p g) (bufcache_release buf) t Q)"
    proof (rule completes_mono)
      fix u :: "'z lg_scheme" assume u: "?I buf ?n u"
      show "completes (disk_env p g) (bufcache_release buf) u Q"
      proof (rule completes_bufcache_release [OF conjunct1 [OF u], where sec = st], goal_cases)
        case (3 t)
        note f = lg_fields [OF 3(2)]
        show ?case by (rule Q) (use 3 u in \<open>simp_all add: f\<close>)
      qed (use V in simp_all)
    qed
    then show ?case
      by (simp add: completes_held(1) [OF 5(2), of buf st] V n(1) kwp)
  qed (use log_start_less [OF lg(3)] Y g in simp_all)
qed

section \<open>Recovery\<close>

text \<open>Recovery from disk \<open>D\<close> leaves the blocks \<open>F\<close> outside the log.\<close>

definition recovers :: "u32 \<Rightarrow> (u32 \<Rightarrow> block) \<Rightarrow> (u32 \<Rightarrow> block) \<Rightarrow> bool" where
  "recovers st D F = (hdr_ok st (D st) \<and> (\<forall>sec. sec \<notin> log_area st \<longrightarrow> replay st D sec = F sec))"

lemma install_log_block:
  assumes "hdr_ok st d" and "k \<le> hdr_n d" and "sec \<in> log_area st"
  shows "install k (hdr_sector d) L D sec = D sec"
  using assms by (intro install_outside) (fastforce simp: hdr_ok_def)

text \<open>An interrupted recovery can be started again.\<close>

lemma recovers_install:
  assumes h: "hdr_ok st (D st)" and k: "k \<le> hdr_n (D st)" and L: "L = (\<lambda>i. D (log_block st i))"
  shows "recovers st (install k (hdr_sector (D st)) L D) (replay st D)"
proof -
  let ?d = "D st" and ?E = "install k (hdr_sector (D st)) L D"
  have st: "?E st = ?d" using install_log_block [OF h k in_log_area(1)] .
  have n: "hdr_n ?d \<le> LOGSIZE" using h by (simp add: hdr_ok_def)
  have "replay st ?E = install (hdr_n ?d) (hdr_sector ?d) (\<lambda>i. ?E (log_block st i)) ?E" by (simp add: replay_def st)
  also have "\<dots> = install (hdr_n ?d) (hdr_sector ?d) L ?E"
    by (rule install_cong) (use install_log_block [OF h k in_log_area(2)] n in \<open>simp add: L\<close>)
  also have "\<dots> = install (hdr_n ?d) (hdr_sector ?d) L D"
    by (rule install_again) (rule install_outside, use k in auto)
  finally show ?thesis using h st by (simp add: recovers_def replay_def L)
qed

lemma recovers_cleared:
  assumes "hdr_n d = 0" "0 \<le> sint (get32 d 0)" and "\<And>sec. sec \<notin> log_area st \<Longrightarrow> E sec = F sec"
  shows "recovers st (E(st := d)) F"
  using assms in_log_area(1) [of st] by (auto simp: recovers_def hdr_ok_def replay_def)

text \<open>The fields of the log that its operations do not change.\<close>

definition log_same :: "'z lg_scheme \<Rightarrow> 'z lg_scheme \<Rightarrow> bool" where
  "log_same s t = (log_start t = log_start s \<and> log_size t = log_size s \<and> log_dev t = log_dev s \<and> log_busy t = log_busy s)"

lemma cached_clean: "cached p s D V {} Map.empty \<Longrightarrow> V = D"
  using repD(11) [of "bufs s" D V "{}" Map.empty] by (auto simp: cached_def)

lemma completes_recover:
  fixes s :: "'z lg_scheme"
  assumes c: "cached p s D D {} Map.empty" and lg: "log_dev s = ROOTDEV" "log_start s = st" "log_ok st" and hdr: "hdr_ok st (D st)"
    and Q: "\<And>t E. cached p t E E {} Map.empty \<Longrightarrow> (\<And>sec. sec \<notin> log_area st \<Longrightarrow> E sec = replay st D sec) \<Longrightarrow>
      get32 (E st) 0 = 0 \<Longrightarrow> recovers st E (replay st D) \<Longrightarrow> lh_n t = 0 \<Longrightarrow> log_same s t \<Longrightarrow> Q () t"
  shows "completes (disk_env p (\<lambda>E. recovers st E (replay st D))) recover_from_log s Q"
proof -
  have ri: "recovers st (install k (hdr_sector (D st)) (\<lambda>i. D (log_block st i)) D) (replay st D)" if "k \<le> hdr_n (D st)" for k
    by (rule recovers_install [of st D, OF hdr that refl])
  show ?thesis
    unfolding recover_from_log_def completes_kthen completes_kmodify
  proof (rule completes_read_head [OF c lg hdr], goal_cases)
    case (4 t)
    let ?n = "hdr_n (D st)" and ?L = "\<lambda>i. D (log_block st i)"
    have n: "?n \<le> LOGSIZE" using hdr by (simp add: hdr_ok_def)
    have inst: "install k (lh_sector t) ?L D = install k (hdr_sector (D st)) ?L D" if "k \<le> ?n" for k
      by (rule install_cong) (use 4(5) that in simp)
    have full: "install ?n (hdr_sector (D st)) ?L D = replay st D" by (simp add: replay_def)
    show ?case
    proof (rule completes_install [OF 4(1), where L = ?L], goal_cases)
      case (11 u)
      note f = lg_fields [OF 11(2)]
      let ?E = "replay st D"
      have u: "cached p u ?E ?E {} Map.empty" using 11(1) 4(4) inst [of ?n] full by simp
      let ?d = "hdr_block 0 (lh_sector u) 0 (?E st)"
      have d: "get32 ?d 0 = 0" by (simp add: hdr_block_def)
      then have cl: "recovers st (?E(st := ?d)) ?E" by (intro recovers_cleared) (simp_all add: hdr_n_def)
      have "cached p (u\<lparr>lh_n := 0\<rparr>) ?E ?E {} Map.empty" using u by simp
      then show ?case
      proof (rule completes_write_head [where n = 0 and st = st and d = ?d], goal_cases)
        case (11 v)
        note f' = lg_fields [OF 11(2)]
        show ?case
          by (rule Q [OF 11(1)]) (use d cl in_log_area(1) [of st] 4 lg in \<open>auto simp: f' f log_same_def\<close>)
      qed (use 4 lg(3) cl ri [of ?n] in \<open>simp_all add: f full NBUF_def\<close>)
    qed (use 4 lg n hdr inst ri in \<open>auto simp: hdr_ok_def kconst\<close>)
  qed (use ri [of 0] in \<open>simp_all add: kconst\<close>)
qed

section \<open>Writing to the log\<close>

lemma log_slot_cases:
  assumes "i = log_slot h (int n) sec"
  shows "i \<le> n" and "i < n \<Longrightarrow> h i = sec" and "i = n \<Longrightarrow> sec \<notin> h ` {..<n}"
proof -
  have "i \<le> n \<and> (i < n \<longrightarrow> h i = sec) \<and> (i = n \<longrightarrow> sec \<notin> h ` {..<n})"
  proof (cases "find (\<lambda>j. h j = sec) [0..<n]")
    case None
    then have "i = n" using assms by (simp add: log_slot_def)
    with None show ?thesis by (auto simp: find_None_iff)
  next
    case (Some j)
    then show ?thesis using assms find_SomeD [OF Some] by (auto simp: log_slot_def)
  qed
  then show "i \<le> n" and "i < n \<Longrightarrow> h i = sec" and "i = n \<Longrightarrow> sec \<notin> h ` {..<n}" by auto
qed

lemma completes_log_write:
  fixes s :: "'z lg_scheme"
  assumes c: "cached p s D V Y (Map.empty(b \<mapsto> sec))" and lg: "log_start s = st" "log_ok st" "lh_n s = int n" "log_busy s"
      "n < LOGSIZE" "int n < log_size s - 1"
    and i: "i = log_slot (lh_sector s) (int n) sec"
    and sec: "sec \<notin> log_area st" and Y: "Y \<inter> log_area st = {}" "card (insert sec Y) < NBUF"
    and g: "g D" "g (D(log_block st i := V sec))"
    and Q: "\<And>t. cached p t (D(log_block st i := V sec)) (V(log_block st i := V sec)) (insert sec Y) (Map.empty(b \<mapsto> sec)) \<Longrightarrow>
      lh_n t = (if i = n then int n + 1 else int n) \<Longrightarrow> lh_sector t = (lh_sector s)(i := sec) \<Longrightarrow> log_same s t \<Longrightarrow> Q () t"
  shows "completes (disk_env p g) (log_write b) s Q"
proof -
  let ?lb = "log_block st i" and ?s = "s\<lparr>lh_sector := (lh_sector s)(i := sec)\<rparr>"
  have iL: "i < LOGSIZE" using log_slot_cases(1) [OF i] lg(5) by simp
  have lb: "?lb \<noteq> sec" "?lb \<notin> Y" using sec Y(1) in_log_area(2) [OF iL, of st] by auto
  have c': "cached p ?s D V Y (Map.empty(b \<mapsto> sec))" using c by simp
  have hd: "completes E (get_buf b b_sector) s R = R sec s" "completes E (get_buf b b_dev) ?s R' = R' ROOTDEV ?s" for E R R'
    using completes_held(2) [OF c, of b sec] completes_held(3) [OF c', of b sec] by simp_all
  have ok: "\<not> (int n \<ge> int LOGSIZE \<or> int n \<ge> log_size s - 1)" using lg(5,6) by simp
  have st: "log_start ?s = st" using lg(1) by simp
  show ?thesis
    unfolding log_write_def completes_kbind completes_kthen completes_kget completes_kassert completes_kindex completes_kmodify
      lg(3) hd i [symmetric] st log_block_def [symmetric]
  proof (intro conjI ok lg(4) iL, rule completes_bufcache_read [OF c'], goal_cases)
    case (5 lbuf t)
    have ne: "b \<noteq> lbuf" using 5(1) by (auto split: if_splits)
    note f = lg_fields [OF 5(3)]
    show ?case
      unfolding completes_held(1) [OF 5(2) map_upd_Some_other [OF ne]]
    proof (rule completes_set_data [OF 5(2), where sec = ?lb and f = "\<lambda>_. V sec"], goal_cases)
      case (2 u)
      show ?case
      proof (rule completes_bufcache_write [OF 2(1), where sec = ?lb], goal_cases)
        case (5 v)
        then have v: "cached p v (D(?lb := V sec)) (V(?lb := V sec)) Y (Map.empty(b \<mapsto> sec, lbuf \<mapsto> ?lb))" using lb(2) by simp
        note fv = 5(2) 2(2)
        show ?case
        proof (rule completes_bufcache_release [OF v, where sec = ?lb], goal_cases)
          case (3 w)
          let ?w = "if i = n then w\<lparr>lh_n := int n + 1\<rparr> else w"
          have "(Map.empty(b \<mapsto> sec, lbuf \<mapsto> ?lb))(lbuf := None) = Map.empty(b \<mapsto> sec)" using ne by auto
          with 3(1) have w: "cached p ?w (D(?lb := V sec)) (V(?lb := V sec)) Y (Map.empty(b \<mapsto> sec))" by auto
          have "dsk.more w = dsk.more ?s" using 3(2) fv \<open>dsk.more t = dsk.more ?s\<close> by simp
          note fw = lg_fields [OF this]
          have "completes (disk_env p g) (upd_buf b (\<lambda>x. x\<lparr>b_flags := b_flags x OR B_DIRTY\<rparr>)) ?w Q"
          proof (rule completes_set_dirty [OF w, where sec = sec], goal_cases)
            case (2 x)
            note fx = lg_fields [OF 2(2)]
            show ?case by (rule Q [OF 2(1)]) (simp_all add: fx fw lg log_same_def)
          qed simp
          then show ?case by (simp add: kwp fw lg split: if_splits)
        qed (use ne in simp_all)
      qed (use log_block_less [OF lg(2) iL] g in simp_all)
    qed simp
  qed (use lb g log_block_less [OF lg(2) iL] Y(2) in \<open>auto simp: insert_commute\<close>)
qed

end
