(* ===== verification/Transaction.thy ===== *)
theory Transaction
  imports Journal
begin

text \<open>
  Transactions of the file system as its callers write them: \<^verbatim>\<open>begin_trans\<close>, any number of updates of
  blocks in the way the comment on \<^verbatim>\<open>log_write\<close> prescribes, \<^verbatim>\<open>commit_trans\<close>. A crash at any moment
  leaves a disk from which recovery produces either all updates or none.
\<close>

section \<open>Beginning and ending\<close>

lemma cached_ok: "cached p s D V Y h \<Longrightarrow> fs_ok p s"
  by (simp add: cached_def)

lemma exec_begin_trans:
  assumes "fs_ok p s" and "\<not> log_busy s"
  shows "begin_trans s = Ret () (s\<lparr>log_busy := True\<rparr>)"
  using assms
  by (simp add: begin_trans_def kexec kloop_unfold fs_ok_def taken_def lock_free_def fun_upd_idem)

lemma exec_commit_tail:
  assumes "fs_ok p s"
  shows "kthen (spinlock_acquire LogLk) (kthen (kmodify (\<lambda>s. s\<lparr>log_busy := False\<rparr>))
    (kthen (thread_wakeup ChanLog) (spinlock_release LogLk))) s = Ret () (s\<lparr>log_busy := False\<rparr>)"
proof -
  let ?t = "(taken s LogLk)\<lparr>log_busy := False\<rparr>"
  have ok: "cpu_ok s" "\<And>l. lock_free s l" "\<And>q. q < NUM_IDS \<Longrightarrow> tcb_channel (TCBPool s q) \<noteq> ChanLog"
    using assms by (fastforce simp: fs_ok_def)+
  have "thread_wakeup ChanLog ?t = Ret () ?t"
    using ok by (intro exec_wakeup_none) (simp_all add: lock_free_def taken_def cpu_ok_def kstack_ok_def)
  with ok show ?thesis by (simp add: kexec taken_def lock_free_def fun_upd_idem)
qed

text \<open>\<open>log_idle p s st D\<close>: no transaction is active, and the log on the disk is empty.\<close>

definition log_idle :: "nat \<Rightarrow> 'z lg_scheme \<Rightarrow> u32 \<Rightarrow> (u32 \<Rightarrow> block) \<Rightarrow> bool" where
  "log_idle p s st D = (cached p s D D {} Map.empty \<and> log_dev s = ROOTDEV \<and> log_start s = st \<and> log_ok st \<and>
     lh_n s = 0 \<and> \<not> log_busy s \<and> get32 (D st) 0 = 0)"

section \<open>Transactions\<close>

definition tx_update :: "u32 \<Rightarrow> (block \<Rightarrow> block) \<Rightarrow> ('z lg_scheme, unit) kmon" where
  "tx_update sec f =
     kbind (bufcache_read ROOTDEV sec) (\<lambda>b.
     kthen (upd_buf b (\<lambda>x. x\<lparr>b_data := f (b_data x)\<rparr>))
    (kthen (log_write b)
           (bufcache_release b)))"

fun tx_body :: "(u32 \<times> (block \<Rightarrow> block)) list \<Rightarrow> ('z lg_scheme, unit) kmon" where
  "tx_body [] = kret ()"
| "tx_body ((sec, f) # us) = kthen (tx_update sec f) (tx_body us)"

definition transaction :: "(u32 \<times> (block \<Rightarrow> block)) list \<Rightarrow> ('z lg_scheme, unit) kmon" where
  "transaction us = kthen begin_trans (kthen (tx_body us) commit_trans)"

fun apply_updates :: "(u32 \<times> (block \<Rightarrow> block)) list \<Rightarrow> (u32 \<Rightarrow> block) \<Rightarrow> u32 \<Rightarrow> block" where
  "apply_updates [] F = F"
| "apply_updates ((sec, f) # us) F = apply_updates us (F(sec := f (F sec)))"

text \<open>
  Inside a transaction: the log holds the blocks written so far, which are dirty in the cache, and
  the rest of the disk is as at the start.
\<close>

definition tx_inv :: "nat \<Rightarrow> 'z lg_scheme \<Rightarrow> u32 \<Rightarrow> (u32 \<Rightarrow> block) \<Rightarrow> nat \<Rightarrow> (u32 \<Rightarrow> block) \<Rightarrow> (u32 \<Rightarrow> block) \<Rightarrow> bool" where
  "tx_inv p s st D0 n D V = (cached p s D V (lh_sector s ` {..<n}) Map.empty \<and>
     log_dev s = ROOTDEV \<and> log_start s = st \<and> log_ok st \<and> log_busy s \<and> lh_n s = int n \<and> inj_on (lh_sector s) {..<n} \<and>
     (\<forall>i < n. lh_sector s i \<notin> log_area st \<and> lh_sector s i < 2 ^ 28 \<and> D (log_block st i) = V (lh_sector s i)) \<and>
     (\<forall>sec. sec \<notin> log_area st \<longrightarrow> D sec = D0 sec) \<and> D st = D0 st)"

lemma card_sectors: "inj_on h {..<n} \<Longrightarrow> card (h ` {..<n}) = n"
  by (simp add: card_image)

text \<open>The invariant after one more block has been written to slot \<open>i\<close> of the log.\<close>

lemma tx_inv_logged:
  assumes inv: "tx_inv p s st D0 n D V" and sec: "sec \<notin> log_area st" "sec < 2 ^ 28" and i: "i = log_slot (lh_sector s) (int n) sec"
    and n: "n < LOGSIZE" "n' = (if i = n then Suc n else n)"
    and t: "cached p t (D(log_block st i := d)) (V(sec := d, log_block st i := d)) (insert sec (lh_sector s ` {..<n})) Map.empty"
      "lh_n t = int n'" "lh_sector t = (lh_sector s)(i := sec)" "log_same s t"
  shows "tx_inv p t st D0 n' (D(log_block st i := d)) (V(sec := d, log_block st i := d))"
    and "lh_sector t ` {..<n'} = insert sec (lh_sector s ` {..<n})"
proof -
  let ?h = "lh_sector s" and ?lb = "log_block st i"
  have inj: "inj_on ?h {..<n}" and hi: "\<And>j. j < n \<Longrightarrow> ?h j \<notin> log_area st \<and> ?h j < 2 ^ 28 \<and> D (log_block st j) = V (?h j)"
    using inv by (simp_all add: tx_inv_def)
  note slot = log_slot_cases [OF i]
  have iL: "i < LOGSIZE" using slot(1) n(1) by simp
  have lb: "?lb \<in> log_area st" "?lb \<noteq> st" using in_log_area(2) [OF iL] log_block_start [OF iL] by simp_all
  have other: "?h j \<noteq> sec" if "j < n" "j \<noteq> i" for j
  proof (cases "i < n")
    case True
    then show ?thesis using slot(2) inj that by (auto simp: inj_on_def)
  next
    case False
    then show ?thesis using slot(1,3) that by auto
  qed
  have "i < n'" using slot(1) n(2) by simp
  show Y: "lh_sector t ` {..<n'} = insert sec (?h ` {..<n})"
    using slot \<open>i < n'\<close> unfolding t(3) n(2) by (auto simp: lessThan_Suc image_iff split: if_splits)
  have below: "j < n" if "j < n'" "j \<noteq> i" for j using that n(2) by (auto split: if_splits)
  have inj': "inj_on (lh_sector t) {..<n'}"
  proof (rule inj_onI)
    fix x y assume xy: "x \<in> {..<n'}" "y \<in> {..<n'}" "lh_sector t x = lh_sector t y"
    then show "x = y"
      using other [of x] other [of y] below [of x] below [of y] inj_onD [OF inj, of x y]
      by (cases "x = i"; cases "y = i") (auto simp: t(3))
  qed
  have entry: "lh_sector t j \<notin> log_area st \<and> lh_sector t j < 2 ^ 28 \<and>
      (D(?lb := d)) (log_block st j) = (V(sec := d, ?lb := d)) (lh_sector t j)" if j: "j < n'" for j
  proof (cases "j = i")
    case True
    then show ?thesis using sec lb by (simp add: t(3))
  next
    case False
    then have "j < n" using j below by blast
    then show ?thesis using hi [of j] other [of j] False lb log_block_inj [of j i st] iL n(1) by (auto simp: t(3))
  qed
  show "tx_inv p t st D0 n' (D(?lb := d)) (V(sec := d, ?lb := d))"
    unfolding tx_inv_def Y
    using t inj' entry inv lb by (auto simp: tx_inv_def log_same_def)
qed

lemma completes_tx_update:
  fixes s :: "'z lg_scheme"
  assumes inv: "tx_inv p s st D0 n D V" and sec: "sec \<notin> log_area st" "sec < 2 ^ 28"
    and room: "card (insert sec (lh_sector s ` {..<n})) \<le> N" "N < LOGSIZE" "int N < log_size s - 1"
    and g: "\<And>E. (\<And>x. x \<notin> log_area st \<Longrightarrow> E x = D0 x) \<Longrightarrow> E st = D0 st \<Longrightarrow> g E"
    and Q: "\<And>t n' D' V'. tx_inv p t st D0 n' D' V' \<Longrightarrow> (\<And>x. x \<notin> log_area st \<Longrightarrow> V' x = (V(sec := f (V sec))) x) \<Longrightarrow>
      lh_sector t ` {..<n'} = insert sec (lh_sector s ` {..<n}) \<Longrightarrow> log_same s t \<Longrightarrow> Q () t"
  shows "completes (disk_env p g) (tx_update sec f) s Q"
proof -
  let ?h = "lh_sector s" and ?V = "V(sec := f (V sec))"
  let ?Y = "?h ` {..<n}"
  define i where "i = log_slot ?h (int n) sec"
  let ?lb = "log_block st i"
  from inv have c: "cached p s D V ?Y Map.empty" and lg: "log_dev s = ROOTDEV" "log_start s = st" "log_ok st" "log_busy s" "lh_n s = int n"
    and inj: "inj_on ?h {..<n}" and hi: "\<And>i. i < n \<Longrightarrow> ?h i \<notin> log_area st \<and> ?h i < 2 ^ 28 \<and> D (log_block st i) = V (?h i)"
    and home: "\<And>x. x \<notin> log_area st \<Longrightarrow> D x = D0 x" "D st = D0 st" by (simp_all add: tx_inv_def)
  have "n \<le> card (insert sec ?Y)" using card_sectors [OF inj] card_mono [of "insert sec ?Y" ?Y] by auto
  then have n: "n \<le> N" "n < LOGSIZE" "int n < log_size s - 1" using room by simp_all
  note slot = log_slot_cases [OF i_def]
  have iL: "i < LOGSIZE" using slot(1) n(2) by simp
  have lb: "?lb \<in> log_area st" "?lb \<noteq> st" using in_log_area(2) [OF iL] log_block_start [OF iL] by simp_all
  have gE: "g D" "g (D(?lb := d))" for d using home lb by (auto intro!: g)
  show ?thesis
    unfolding tx_update_def completes_kbind completes_kthen
  proof (rule completes_bufcache_read [OF c], goal_cases)
    case (5 b t)
    show ?case
    proof (rule completes_set_data [OF 5(2), where sec = sec and f = f], goal_cases)
      case (2 u)
      have "dsk.more u = dsk.more s" using 2(2) 5(3) by simp
      note f = lg_fields [OF this]
      show ?case
      proof (rule completes_log_write [OF 2(1), where i = i and n = n and st = st], goal_cases)
        case (13 v)
        show ?case
        proof (rule completes_bufcache_release [OF 13(1), where sec = sec], goal_cases)
          case (3 w)
          note f' = lg_fields [OF 3(2)]
          let ?n = "if i = n then Suc n else n"
          have "cached p w (D(?lb := f (V sec))) (V(sec := f (V sec), ?lb := f (V sec))) (insert sec ?Y) Map.empty"
            using 3(1) by simp
          then have w: "tx_inv p w st D0 ?n (D(?lb := f (V sec))) (V(sec := f (V sec), ?lb := f (V sec)))"
            "lh_sector w ` {..<?n} = insert sec ?Y"
            using tx_inv_logged [OF inv sec i_def n(2) refl] 13(2-4) by (simp_all add: f' f log_same_def)
          show ?case by (rule Q [OF w(1) _ w(2)]) (use lb(1) 13(4) in \<open>auto simp: f' f log_same_def\<close>)
        qed (use 13(1) in simp_all)
      qed (use lg n sec hi room gE in \<open>auto simp: f i_def [symmetric] kconst\<close>)
    qed simp
  qed (use sec n(2) card_sectors [OF inj] gE in \<open>simp_all add: kconst\<close>)
qed

lemma apply_updates_cong:
  assumes "\<And>x. x \<notin> A \<Longrightarrow> F x = G x" and "fst ` set us \<inter> A = {}" and "x \<notin> A"
  shows "apply_updates us F x = apply_updates us G x"
  using assms
proof (induction us arbitrary: F G)
  case (Cons u us)
  obtain sec f where u: "u = (sec, f)" by fastforce
  with Cons.prems have "F sec = G sec" by auto
  then show ?case using Cons.prems by (simp add: u) (rule Cons.IH, auto)
qed simp

lemma completes_tx_body:
  fixes s :: "'z lg_scheme"
  assumes "tx_inv p s st D0 n D V" and "\<And>sec f. (sec, f) \<in> set us \<Longrightarrow> sec \<notin> log_area st \<and> sec < 2 ^ 28"
    and "card (lh_sector s ` {..<n} \<union> fst ` set us) \<le> N" and N: "N < LOGSIZE" "int N < log_size s - 1"
    and g: "\<And>E. (\<And>x. x \<notin> log_area st \<Longrightarrow> E x = D0 x) \<Longrightarrow> E st = D0 st \<Longrightarrow> g E"
    and "\<And>t n' D' V'. tx_inv p t st D0 n' D' V' \<Longrightarrow> n' \<le> N \<Longrightarrow> (\<And>x. x \<notin> log_area st \<Longrightarrow> V' x = apply_updates us V x) \<Longrightarrow>
      log_same s t \<Longrightarrow> Q () t"
  shows "completes (disk_env p g) (tx_body us) s Q"
  using assms(1-3,5,7)
proof (induction us arbitrary: s n D V)
  case Nil
  then have "n \<le> N" using card_sectors [of "lh_sector s" n] by (simp add: tx_inv_def)
  with Nil show ?case by (simp add: kwp log_same_def)
next
  case (Cons u us)
  obtain sec f where u: "u = (sec, f)" by fastforce
  let ?Y = "lh_sector s ` {..<n}"
  have sec: "sec \<notin> log_area st" "sec < 2 ^ 28" using Cons.prems(2) u by auto
  have fin: "finite (?Y \<union> fst ` set (u # us))" by simp
  have le: "card (insert sec ?Y) \<le> N"
  proof -
    have "insert sec ?Y \<subseteq> ?Y \<union> fst ` set (u # us)" by (auto simp: u)
    then show ?thesis using card_mono [OF fin] Cons.prems(3) le_trans by blast
  qed
  show ?case
    unfolding u tx_body.simps completes_kthen
  proof (rule completes_tx_update [OF Cons.prems(1) sec le N(1) Cons.prems(4) g], goal_cases)
    case (3 t n' D' V')
    show ?case
    proof (rule Cons.IH [OF 3(1)], goal_cases)
      case 2
      have "insert sec ?Y \<union> fst ` set us = ?Y \<union> fst ` set (u # us)" by (auto simp: u)
      then show ?case using Cons.prems(3) 3(3) by simp
    next
      case (4 t' n'' D'' V'')
      have "V'' x = apply_updates (u # us) V x" if "x \<notin> log_area st" for x
        using 4(3) [OF that] apply_updates_cong [of "log_area st" V' "V(sec := f (V sec))" us x] 3(2) that Cons.prems(2)
        by (fastforce simp: u)
      then show ?case using 4 3(4) by (intro Cons.prems(5) [OF 4(1,2)]) (simp_all add: log_same_def)
    qed (use Cons.prems(2,4) 3(4) in \<open>auto simp: log_same_def\<close>)
  qed simp_all
qed

section \<open>Commit\<close>

lemma recovers_cong: "recovers st D F \<Longrightarrow> (\<And>x. x \<notin> log_area st \<Longrightarrow> F x = G x) \<Longrightarrow> recovers st D G"
  by (simp add: recovers_def)

text \<open>Once the header is written, recovery produces the new blocks.\<close>

lemma recovers_committed:
  assumes inv: "tx_inv p s st D0 n D V" and n: "n \<le> LOGSIZE" and d: "d = hdr_block n (lh_sector s) n (D st)"
  shows "recovers st (D(st := d)) V" and "hdr_ok st d" and "hdr_n d = n"
    and "i < n \<Longrightarrow> hdr_sector d i = lh_sector s i"
proof -
  let ?h = "lh_sector s"
  from inv have c: "cache_rep (bufs s) D V (?h ` {..<n}) Map.empty"
    and hi: "\<And>i. i < n \<Longrightarrow> ?h i \<notin> log_area st \<and> ?h i < 2 ^ 28 \<and> D (log_block st i) = V (?h i)"
    by (simp_all add: tx_inv_def cached_def)
  have sn: "sint (get32 d 0) = int n" using hdr_block_n [OF n] by (simp add: d)
  then show hn: "hdr_n d = n" by (simp add: hdr_n_def)
  have sector: "hdr_sector d i = ?h i" if "i < n" for i using hdr_block_sector [OF that] by (simp add: hdr_sector_def d)
  then show "i < n \<Longrightarrow> hdr_sector d i = ?h i" .
  show ok: "hdr_ok st d" using hi n sn sector by (auto simp: hdr_ok_def hn)
  have L: "(D(st := d)) (log_block st i) = V (?h i)" if "i < n" for i
    using hi [OF that] log_block_start [of i st] that n by simp
  have "replay st (D(st := d)) x = V x" if x: "x \<notin> log_area st" for x
  proof -
    have "replay st (D(st := d)) = install n ?h (\<lambda>i. V (?h i)) (D(st := d))"
      by (simp only: replay_def fun_upd_same hn) (rule install_cong, use sector L in simp)
    moreover have "install n ?h (\<lambda>i. V (?h i)) (D(st := d)) x = V x"
    proof (cases "x \<in> ?h ` {..<n}")
      case True
      then show ?thesis using install_in [of x ?h n "\<lambda>i. V (?h i)" "D(st := d)" V] install_same [of n V ?h "\<lambda>i. V (?h i)"] by simp
    next
      case False
      then have "V x = D x" using repD(11) [OF c False] by simp
      then show ?thesis using False x in_log_area(1) [of st] by (auto simp: install_outside)
    qed
    ultimately show ?thesis by simp
  qed
  with ok show "recovers st (D(st := d)) V" by (simp add: recovers_def)
qed

lemma completes_commit:
  fixes s :: "'z lg_scheme"
  assumes inv: "tx_inv p s st D0 n D V" and n: "n < LOGSIZE - 1" and hdr: "get32 (D0 st) 0 = 0"
    and g: "g D" "\<And>E. recovers st E V \<Longrightarrow> g E"
    and Q: "\<And>t E. log_idle p t st E \<Longrightarrow> (\<And>x. x \<notin> log_area st \<Longrightarrow> E x = V x) \<Longrightarrow> log_size t = log_size s \<Longrightarrow> Q () t"
  shows "completes (disk_env p g) commit_trans s Q"
proof -
  let ?h = "lh_sector s" and ?L = "\<lambda>i. D (log_block st i)"
  let ?Y = "?h ` {..<n}"
  let ?tail = "kthen (spinlock_acquire LogLk) (kthen (kmodify (\<lambda>s. s\<lparr>log_busy := False\<rparr>))
    (kthen (thread_wakeup ChanLog) (spinlock_release LogLk))) :: ('z lg_scheme, unit) kmon"
  from inv have c: "cached p s D V ?Y Map.empty" and lg: "log_dev s = ROOTDEV" "log_start s = st" "log_ok st" "lh_n s = int n"
    and inj: "inj_on ?h {..<n}" and hi: "\<And>i. i < n \<Longrightarrow> ?h i \<notin> log_area st \<and> ?h i < 2 ^ 28 \<and> ?L i = V (?h i)"
    and D0: "D st = D0 st" by (simp_all add: tx_inv_def)
  have tail: "completes (disk_env p g) ?tail t Q"
    if t: "cached p t E E {} Map.empty" "get32 (E st) 0 = 0" "\<And>x. x \<notin> log_area st \<Longrightarrow> E x = V x" "lh_n t = 0" "log_dev t = ROOTDEV"
      "log_start t = st" "log_size t = log_size s" for t E
  proof -
    have "Q () (t\<lparr>log_busy := False\<rparr>)" by (rule Q [of _ E]) (use t lg(3) in \<open>simp_all add: log_idle_def\<close>)
    then show ?thesis using exec_commit_tail [OF cached_ok [OF t(1)]] by (simp add: completes_def)
  qed
  show ?thesis
  proof (cases "n = 0")
    case True
    with c have "cached p s D V {} Map.empty" by simp
    with cached_clean [OF this] have "cached p s D D {} Map.empty" "V = D" by simp_all
    then have "completes (disk_env p g) ?tail s Q" using lg hdr D0 True by (intro tail [of s D]) simp_all
    then show ?thesis using True lg(4) by (simp add: commit_trans_def completes_kbind completes_kthen completes_kget completes_kwhen)
  next
    case False
    define d where "d = hdr_block n ?h n (D st)"
    let ?D = "D(st := d)" and ?V = "V(st := d)"
    have n': "n \<le> LOGSIZE" using n by simp
    note com = recovers_committed [OF inv n' d_def]
    have st: "st \<notin> ?Y" using hi in_log_area(1) [of st] by auto
    have cardY: "card ?Y = n" by (rule card_sectors [OF inj])
    have L: "?D (log_block st i) = V (?h i)" if "i < n" for i
      using hi [OF that] log_block_start [of i st] that n' by simp
    have inst: "recovers st (install k ?h (\<lambda>i. ?D (log_block st i)) ?D) V" if "k \<le> n" for k
    proof -
      have "recovers st (install k (hdr_sector d) (\<lambda>i. ?D (log_block st i)) ?D) (replay st ?D)"
        using recovers_install [of st ?D k] com(2,3) that by simp
      moreover have "install k (hdr_sector d) (\<lambda>i. ?D (log_block st i)) ?D = install k ?h (\<lambda>i. ?D (log_block st i)) ?D"
        by (rule install_cong) (use com(4) that in simp)
      ultimately show ?thesis using com(1) by (auto simp: recovers_def)
    qed
    have "completes (disk_env p g) (kthen write_head (kthen install_trans (kthen (kmodify (\<lambda>s. s\<lparr>lh_n := 0\<rparr>)) write_head))) s
        (\<lambda>_ t. completes (disk_env p g) ?tail t Q)"
      unfolding completes_kthen completes_kmodify
    proof (rule completes_write_head [OF c lg n' st _ d_def], goal_cases)
      case (4 t)
      note f = lg_fields [OF 4(2)]
      show ?case
      proof (rule completes_install [OF 4(1) _ _ _ _ _ _ _ _ refl], goal_cases)
        case (10 u)
        note f' = lg_fields [OF 10(2)]
        let ?E = "install n ?h (\<lambda>i. ?D (log_block st i)) ?D"
        have "install n ?h (\<lambda>i. ?D (log_block st i)) ?V = ?V"
          by (rule install_same) (use L hi in_log_area(1) [of st] in auto)
        with 10(1) have "cached p u ?E ?V {} Map.empty" by (simp add: f lg)
        with cached_clean [OF this] have u: "cached p (u\<lparr>lh_n := 0\<rparr>) ?V ?V {} Map.empty" and E: "?E = ?V" by simp_all
        define e where "e = hdr_block 0 (lh_sector (u\<lparr>lh_n := 0\<rparr>)) 0 (?V st)"
        have e: "get32 e 0 = 0" "hdr_n e = 0" by (simp_all add: e_def hdr_block_def hdr_n_def)
        have cl: "recovers st (?V(st := e)) V"
          by (rule recovers_cleared) (use e in_log_area(1) [of st] in auto)
        show ?case
        proof (rule completes_write_head [OF u _ _ lg(3) _ _ _ _ e_def], goal_cases)
          case (9 v)
          note f'' = lg_fields [OF 9(2)]
          show ?case
            by (rule tail [unfolded completes_kthen completes_kmodify, OF 9(1)]) (use e in_log_area(1) [of st] lg in \<open>auto simp: f'' f' f\<close>)
        qed (use lg cl inst [of n] E g(2) in \<open>simp_all add: f f' kconst del: fun_upd_apply\<close>)
      qed (use lg n' hi inst g(2) cardY n st in \<open>auto simp: f kconst\<close>)
    qed (use cardY n com(1) g in \<open>auto simp: kconst\<close>)
    then show ?thesis using False lg(4) by (simp add: commit_trans_def completes_kbind completes_kthen completes_kget completes_kwhen)
  qed
qed

section \<open>Sequences of transactions\<close>

lemma completes_weaken:
  assumes "completes (disk_env p g) m s P" and "\<And>E. g E \<Longrightarrow> g' E" and "\<And>a t. P a t \<Longrightarrow> Q a t"
  shows "completes (disk_env p g') m s Q"
proof -
  have "finishes (disk_env p g') Q r" if "finishes (disk_env p g) P r" for r
    using that by (induction rule: finishes.induct) (auto intro!: finishes.intros simp: disk_env_def assms(2,3))
  with assms(1) show ?thesis by (simp add: completes_def)
qed

fun transactions :: "(u32 \<times> (block \<Rightarrow> block)) list list \<Rightarrow> ('z lg_scheme, unit) kmon" where
  "transactions [] = kret ()"
| "transactions (us # uss) = kthen (transaction us) (transactions uss)"

text \<open>The updates of a transaction are outside the log and fit in it.\<close>

definition tx_fits :: "u32 \<Rightarrow> int \<Rightarrow> (u32 \<times> (block \<Rightarrow> block)) list \<Rightarrow> bool" where
  "tx_fits st sz us = ((\<forall>u \<in> set us. fst u \<notin> log_area st \<and> fst u < 2 ^ 28) \<and>
     card (fst ` set us) < LOGSIZE - 1 \<and> int (card (fst ` set us)) < sz - 1)"

lemma recovers_empty:
  assumes "get32 (E st) 0 = 0" and "\<And>x. x \<notin> log_area st \<Longrightarrow> E x = F x"
  shows "recovers st E F"
  using recovers_cleared [of "E st" st E F] assms by (simp add: hdr_n_def)

lemma completes_transaction:
  fixes s :: "'z lg_scheme"
  assumes idle: "log_idle p s st D" and fits: "tx_fits st (log_size s) us"
    and g: "\<And>E. recovers st E D \<or> recovers st E (apply_updates us D) \<Longrightarrow> g E"
    and Q: "\<And>t E. log_idle p t st E \<Longrightarrow> (\<And>x. x \<notin> log_area st \<Longrightarrow> E x = apply_updates us D x) \<Longrightarrow> log_size t = log_size s \<Longrightarrow> Q () t"
  shows "completes (disk_env p g) (transaction us) s Q"
proof -
  let ?s = "s\<lparr>log_busy := True\<rparr>" and ?N = "card (fst ` set us)"
  from idle have c: "cached p s D D {} Map.empty" and hdr: "get32 (D st) 0 = 0" by (simp_all add: log_idle_def)
  have inv: "tx_inv p ?s st D 0 D D" using idle by (simp add: log_idle_def tx_inv_def)
  have N: "?N < LOGSIZE" "int ?N < log_size ?s - 1" using fits by (auto simp: tx_fits_def kconst)
  have before: "g E" if "\<And>x. x \<notin> log_area st \<Longrightarrow> E x = D x" "E st = D st" for E
    using recovers_empty [of E st D] that hdr by (intro g) simp
  have "completes (disk_env p g) (tx_body us) ?s (\<lambda>_ t. completes (disk_env p g) commit_trans t Q)"
  proof (rule completes_tx_body [OF inv _ _ N before], goal_cases)
    case (5 t n D' V)
    have "recovers st E (apply_updates us D)" if "recovers st E V" for E by (rule recovers_cong [OF that 5(3)])
    then show ?case
      using 5 before [of D'] fits hdr
      by (intro completes_commit [OF 5(1)]) (auto intro!: g Q simp: tx_fits_def tx_inv_def log_same_def)
  qed (use fits in \<open>auto simp: tx_fits_def\<close>)
  then show ?thesis
    using exec_begin_trans [OF cached_ok [OF c]] idle
    by (simp add: transaction_def completes_kthen log_idle_def) (simp add: completes_def)
qed

lemma apply_updates_append: "apply_updates (us @ vs) D = apply_updates vs (apply_updates us D)"
  by (induction us arbitrary: D) auto

text \<open>
  C6: A sequence of transactions, run to its end, leaves on the disk the result of all its
  updates in order; and if the machine stops at any moment, also in the middle of a commit, the
  recovery from the disk as it is then produces the result of some number of complete transactions,
  never a part of one. A transaction may update at most eight different blocks.
\<close>

theorem transactions_crash_safe:
  fixes s :: "'z lg_scheme"
  assumes "log_idle p s st D" and "\<forall>us \<in> set uss. tx_fits st (log_size s) us"
  shows "completes (disk_env p (\<lambda>E. \<exists>k \<le> length uss. recovers st E (apply_updates (concat (take k uss)) D))) (transactions uss) s
    (\<lambda>_ t. \<exists>E. log_idle p t st E \<and> (\<forall>x. x \<notin> log_area st \<longrightarrow> E x = apply_updates (concat uss) D x))"
  using assms
proof (induction uss arbitrary: s D)
  case Nil
  then show ?case by (auto simp: kwp)
next
  case (Cons us uss)
  let ?g = "\<lambda>E. \<exists>k \<le> length (us # uss). recovers st E (apply_updates (concat (take k (us # uss))) D)"
  have "completes (disk_env p ?g) (transaction us) s (\<lambda>_ t. completes (disk_env p ?g) (transactions uss) t
      (\<lambda>_ t. \<exists>E. log_idle p t st E \<and> (\<forall>x. x \<notin> log_area st \<longrightarrow> E x = apply_updates (concat (us # uss)) D x)))"
  proof (rule completes_transaction [OF Cons.prems(1)], goal_cases)
    case (2 E)
    then show ?case by (elim disjE) (rule exI [of _ 0], simp, rule exI [of _ 1], simp)
  next
    case (3 t E)
    have cong: "apply_updates (concat vss) E x = apply_updates (concat (us # vss)) D x"
      if "x \<notin> log_area st" "set vss \<subseteq> set uss" for x vss
      using apply_updates_cong [of "log_area st" E "apply_updates us D" "concat vss" x] 3(2) that Cons.prems(2)
      by (fastforce simp: apply_updates_append tx_fits_def)
    show ?case
    proof (rule completes_weaken [OF Cons.IH [OF 3(1)]], goal_cases)
      case 1
      then show ?case using Cons.prems(2) 3(3) by simp
    next
      case (2 F)
      then obtain k where k: "k \<le> length uss" "recovers st F (apply_updates (concat (take k uss)) E)" by blast
      then have "recovers st F (apply_updates (concat (take (Suc k) (us # uss))) D)"
        using cong [of _ "take k uss"] set_take_subset [of k uss] by (intro recovers_cong [OF k(2)]) simp
      then show ?case using k(1) by (intro exI [of _ "Suc k"]) simp
    next
      case 3
      then show ?case using cong [of _ uss] by auto
    qed
  qed (use Cons.prems(2) in simp)
  then show ?case by (simp add: completes_kthen)
qed

section \<open>Start of the file system\<close>

lemma completes_read_superblock:
  assumes c: "cached p s D D {} Map.empty" and g: "g D"
    and Q: "\<And>t. cached p t D D {} Map.empty \<Longrightarrow> dsk.more t = dsk.more s \<Longrightarrow> Q (superblock_of (D 1)) t"
  shows "completes (disk_env p g) (read_superblock ROOTDEV) s Q"
  unfolding read_superblock_def completes_kbind completes_kthen
proof (rule completes_bufcache_read [OF c], goal_cases)
  case (5 b t)
  show ?case
    unfolding completes_held(1) [OF 5(2), of b 1, simplified]
    by (rule completes_bufcache_release [OF 5(2), where sec = 1]) (use 5(3) Q in \<open>simp_all add: kwp\<close>)
qed (use g in \<open>simp_all add: kconst\<close>)

lemma cached_log_fields [simp]:
  "cached p (s\<lparr>log_start := a\<rparr>) D V Y h = cached p s D V Y h" "cached p (s\<lparr>log_size := n\<rparr>) D V Y h = cached p s D V Y h"
  "cached p (s\<lparr>log_dev := d\<rparr>) D V Y h = cached p s D V Y h"
  by (simp_all add: cached_def fs_ok_def lock_free_def cpu_ok_def kstack_ok_def sched_ok_def tq_repr_def ide_ready_def)

lemma completes_log_init:
  fixes s :: "'z lg_scheme"
  assumes c: "cached p s D D {} Map.empty" and busy: "\<not> log_busy s" and st: "st = sb_size (superblock_of (D 1)) - sb_nlog (superblock_of (D 1))"
    and ok: "log_ok st" and r: "recovers st D F"
    and Q: "\<And>t E. log_idle p t st E \<Longrightarrow> (\<And>x. x \<notin> log_area st \<Longrightarrow> E x = F x) \<Longrightarrow>
      log_size t = sint (sb_nlog (superblock_of (D 1))) \<Longrightarrow> Q () t"
  shows "completes (disk_env p (\<lambda>E. recovers st E F)) log_init s Q"
proof -
  let ?g = "\<lambda>E. recovers st E F"
  have free: "s\<lparr>locks := (locks s)(LogLk := unlocked)\<rparr> = s"
    using cached_ok [OF c] by (simp add: fs_ok_def lock_free_def fun_upd_idem)
  have init: "returns (spinlock_init LogLk) s (\<lambda>_ t. t = s)" by (simp add: returns_spinlock_init free)
  have hdr: "hdr_ok st (D st)" and F: "\<And>x. x \<notin> log_area st \<Longrightarrow> replay st D x = F x" using r by (simp_all add: recovers_def)
  show ?thesis
    unfolding log_init_def completes_kthen [of _ "spinlock_init LogLk"]
  proof (rule completes_of_returns [OF init], hypsubst, unfold completes_kbind completes_kthen completes_kmodify, rule completes_read_superblock [OF c], rule r)
    fix t :: "'z lg_scheme" assume t: "cached p t D D {} Map.empty" "dsk.more t = dsk.more s"
    note f = lg_fields [OF t(2)]
    let ?sb = "superblock_of (D 1)"
    let ?t = "t\<lparr>log_start := sb_size ?sb - sb_nlog ?sb, log_size := sint (sb_nlog ?sb), log_dev := ROOTDEV\<rparr>"
    have "cached p ?t D D {} Map.empty" using t(1) by simp
    then show "completes (disk_env p ?g) recover_from_log ?t Q"
      by (intro completes_weaken [OF completes_recover [where st = st and D = D]])
        (use hdr ok st F busy in \<open>auto simp: f log_same_def log_idle_def intro!: Q intro: recovers_cong\<close>)
  qed
qed

text \<open>
  C7: When the machine starts with a disk on which a committed transaction may be partly
  installed, the initialisation of the buffer cache and of the log completes the transaction,
  empties the log and leaves the file system ready for the next transaction. If the machine stops
  during the recovery, the disk still recovers to the same blocks.
\<close>

theorem boot_recovers:
  fixes s :: "'z lg_scheme"
  assumes "p < NUM_IDS" and "fs_ok p s" and "\<forall>b < NBUF. b_flags (bufs s b) = 0" and "\<not> log_busy s"
    and "sb = superblock_of (disk s True 1)" and "st = sb_size sb - sb_nlog sb" and "log_ok st" and "recovers st (disk s True) F"
  shows "completes (disk_env p (\<lambda>E. recovers st E F)) (kthen bufcache_init log_init) s
    (\<lambda>_ t. \<exists>E. log_idle p t st E \<and> (\<forall>x. x \<notin> log_area st \<longrightarrow> E x = F x) \<and> log_size t = sint (sb_nlog sb))"
  unfolding completes_kthen
proof (rule completes_of_returns [OF bufcache_init_cached])
  fix t assume t: "cached p t (disk s True) (disk s True) {} Map.empty \<and> dsk.more t = dsk.more s"
  note f = lg_fields [OF conjunct2 [OF t]]
  show "completes (disk_env p (\<lambda>E. recovers st E F)) log_init t
    (\<lambda>_ t. \<exists>E. log_idle p t st E \<and> (\<forall>x. x \<notin> log_area st \<longrightarrow> E x = F x) \<and> log_size t = sint (sb_nlog sb))"
    by (rule completes_log_init [OF conjunct1 [OF t]]) (use assms f in auto)
qed (use assms in auto)

section \<open>Examples\<close>

text \<open>
  A disk with the superblock of \<^verbatim>\<open>mkfs\<close> (1024 blocks, the last ten for the log) and a committed
  transaction that writes block 100, not yet installed.
\<close>

definition disk_ex :: "u32 \<Rightarrow> block" where
  "disk_ex = (\<lambda>_ _. 0)(1 := put32 0 1024 (put32 12 10 (\<lambda>_. 0)), 1014 := put32 0 1 (put32 4 100 (\<lambda>_. 0)), 1015 := (\<lambda>_. 7))"

definition lg_ex :: lg where
  "lg_ex = dsk.extend (dsk_ex\<lparr>disk := \<lambda>_. disk_ex\<rparr>) (lg.fields 0 0 False 0 0 (\<lambda>_. 0))"

lemma lg_ex_dsk: "locks lg_ex = locks dsk_ex" "pcpus lg_ex = pcpus dsk_ex" "CURID lg_ex = CURID dsk_ex"
  "ks_magic lg_ex = ks_magic dsk_ex" "ks_cpu_idx lg_ex = ks_cpu_idx dsk_ex" "TCBPool lg_ex = TCBPool dsk_ex"
  "TQueuePool lg_ex = TQueuePool dsk_ex" "bufs lg_ex = bufs dsk_ex" "idequeue lg_ex = idequeue dsk_ex"
  "havedisk1 lg_ex = havedisk1 dsk_ex" "ide_status lg_ex = ide_status dsk_ex" "disk lg_ex = (\<lambda>_. disk_ex)" "\<not> log_busy lg_ex" "lh_n lg_ex = 0"
  by (simp_all add: lg_ex_def dsk.defs lg.defs)

lemma lg_ex_ok: "fs_ok 0 lg_ex"
  using dsk_ex_ok
  unfolding fs_ok_def cpu_ok_def kstack_ok_def lock_free_def sched_ok_def tq_repr_def ide_ready_def lg_ex_dsk .

lemma disk_ex_log: "superblock_of (disk_ex 1) = \<lparr>sb_size = 1024, sb_nblocks = 0, sb_ninodes = 0, sb_nlog = 10\<rparr>" "log_ok 1014"
  "log_area 1014 = {1014, 1015, 1016, 1017, 1018, 1019, 1020, 1021, 1022, 1023, 1024}"
  "hdr_n (disk_ex 1014) = 1" "hdr_sector (disk_ex 1014) 0 = 100"
proof -
  show "superblock_of (disk_ex 1) = \<lparr>sb_size = 1024, sb_nblocks = 0, sb_ninodes = 0, sb_nlog = 10\<rparr>"
    by (simp add: superblock_of_def disk_ex_def get32_def put32_def)
  show "log_area 1014 = {1014, 1015, 1016, 1017, 1018, 1019, 1020, 1021, 1022, 1023, 1024}"
    by (simp add: log_area_def log_block_def kconst numeral_eq_Suc) code_simp
qed (simp_all add: log_ok_def kconst hdr_n_def hdr_sector_def disk_ex_def get_put32_other)

theorem boot_recovers_witness:
  "completes (disk_env 0 (\<lambda>E. recovers 1014 E (disk_ex(100 := \<lambda>_. 7)))) (kthen bufcache_init log_init) lg_ex
    (\<lambda>_ t. \<exists>E. log_idle 0 t 1014 E \<and> (\<forall>x. x \<notin> log_area 1014 \<longrightarrow> E x = (disk_ex(100 := \<lambda>_. 7)) x) \<and> log_size t = 10)"
proof -
  have "replay 1014 disk_ex = disk_ex(100 := \<lambda>_. 7)"
    by (simp add: replay_def disk_ex_log(4,5) install_Suc) (simp add: log_block_def disk_ex_def)
  moreover have "hdr_ok 1014 (disk_ex 1014)"
    using disk_ex_log(4,5) by (simp add: hdr_ok_def kconst disk_ex_log(3)) (simp add: disk_ex_def)
  ultimately have "recovers 1014 disk_ex (disk_ex(100 := \<lambda>_. 7))" by (simp add: recovers_def)
  then show ?thesis
    using boot_recovers [of 0 lg_ex "superblock_of (disk_ex 1)" 1014 "disk_ex(100 := \<lambda>_. 7)"] lg_ex_ok disk_ex_log(1,2)
    by (simp add: lg_ex_dsk dsk_ex_flk buf0_def NUM_IDS_def)
qed

definition lg_booted :: lg where
  "lg_booted = (case bufcache_init (lg_ex\<lparr>disk := \<lambda>_ _ _. 0\<rparr>) of
     Ret _ t \<Rightarrow> t\<lparr>log_start := 1014, log_size := 10, log_dev := ROOTDEV\<rparr> | _ \<Rightarrow> lg_ex)"

lemma lg_booted_idle: "log_idle 0 lg_booted 1014 (\<lambda>_ _. 0)" "log_size lg_booted = 10"
proof -
  let ?s = "lg_ex\<lparr>disk := \<lambda>_ _ _. 0\<rparr>"
  have "returns bufcache_init ?s (\<lambda>_ t. cached 0 t (\<lambda>_ _. 0) (\<lambda>_ _. 0) {} Map.empty \<and> dsk.more t = dsk.more ?s)"
    using bufcache_init_cached [of 0 ?s] lg_ex_ok by (auto simp: NUM_IDS_def lg_ex_dsk dsk_ex_flk buf0_def fs_ok_def)
  then obtain t where t: "bufcache_init ?s = Ret () t" "cached 0 t (\<lambda>_ _. 0) (\<lambda>_ _. 0) {} Map.empty" "dsk.more t = dsk.more ?s"
    by (auto simp: returns_def split: outcome.splits)
  note f = lg_fields [OF t(3)]
  show "log_idle 0 lg_booted 1014 (\<lambda>_ _. 0)" "log_size lg_booted = 10"
    using t(2) disk_ex_log(2) by (simp_all add: lg_booted_def t(1) log_idle_def f lg_ex_dsk get32_def)
qed

theorem transactions_crash_safe_witness:
  "completes (disk_env 0 (\<lambda>E. \<exists>k \<le> 2. recovers 1014 E (apply_updates (concat (take k
      [[(100, \<lambda>_ _. 1), (101, \<lambda>_ _. 2)], [(100, \<lambda>d i. d i + 1)]])) (\<lambda>_ _. 0))))
    (transactions [[(100, \<lambda>_ _. 1), (101, \<lambda>_ _. 2)], [(100, \<lambda>d i. d i + 1)]]) lg_booted
    (\<lambda>_ t. \<exists>E. log_idle 0 t 1014 E \<and> (\<forall>x. x \<notin> log_area 1014 \<longrightarrow> E x = ((\<lambda>_ _. 0)(101 := \<lambda>_. 2, 100 := \<lambda>_. 2)) x))"
proof -
  let ?us = "[[(100, \<lambda>_ _. 1), (101, \<lambda>_ _. 2)], [(100, \<lambda>d i. d i + 1)]] :: (u32 \<times> (block \<Rightarrow> block)) list list"
  have "apply_updates (concat ?us) (\<lambda>_ _. 0) = (\<lambda>_ _. 0)(101 := \<lambda>_. 2, 100 := \<lambda>_. 2)" by (simp add: fun_eq_iff)
  moreover have "\<forall>us \<in> set ?us. tx_fits 1014 (log_size lg_booted) us"
    by (simp add: lg_booted_idle(2) tx_fits_def disk_ex_log(3) kconst)
  ultimately show ?thesis
    using transactions_crash_safe [of 0 lg_booted 1014 "\<lambda>_ _. 0" ?us] lg_booted_idle(1) by (simp add: numeral_2_eq_2)
qed

end
