(* ===== verification/Inode.thy ===== *)
theory Inode
  imports Log FlockSys
begin

text \<open>
  Inodes: \<^verbatim>\<open>kern/fs/inode.c\<close>. The slots of the inode cache are \<open>0, ..., NINODE - 1\<close>, and a pointer to an
  in-memory inode is the number of its slot; the lock \<^verbatim>\<open>ip->flock\<close> is \<open>flocks s ip\<close>.

  The buffer argument of \<^verbatim>\<open>inode_read\<close> is the list of the bytes it stores, and that of \<^verbatim>\<open>inode_write\<close> is
  the list of the bytes of the caller's array from the pointer on. The arrays \<^verbatim>\<open>ip->addrs\<close> and \<^verbatim>\<open>bp->data\<close>
  are functions from indices to elements; every access is preceded by a test that it is inside the array. The table \<^verbatim>\<open>devsw\<close> is declared but assigned nowhere, so that an
  access to a device inode reads through a null pointer.
\<close>

section \<open>State\<close>

definition I_BUSY :: u32 where [kconst]: "I_BUSY = 1"
definition I_VALID :: u32 where [kconst]: "I_VALID = 2"
definition T_DIR :: "16 word" where [kconst]: "T_DIR = 1"
definition T_FILE :: "16 word" where [kconst]: "T_FILE = 2"
definition T_DEV :: "16 word" where [kconst]: "T_DEV = 3"
definition NDEV :: nat where [kconst]: "NDEV = 10"

record inode =
  i_dev :: u32
  i_inum :: u32
  i_ref :: int
  i_flags :: u32
  i_type :: "16 word"
  i_major :: "16 word"
  i_minor :: "16 word"
  i_nlink :: "16 word"
  i_size :: u32
  i_addrs :: "nat \<Rightarrow> u32"

record dinode =
  d_type :: "16 word"
  d_major :: "16 word"
  d_minor :: "16 word"
  d_nlink :: "16 word"
  d_size :: u32
  d_addrs :: "nat \<Rightarrow> u32"

record ino = lg +
  inodes :: "nat \<Rightarrow> inode"

definition get_ino :: "nat \<Rightarrow> (inode \<Rightarrow> 'a) \<Rightarrow> ('z ino_scheme, 'a) kmon" where
  "get_ino i g = kthen (kindex i NINODE) (kget (\<lambda>s. g (inodes s i)))"

definition upd_ino :: "nat \<Rightarrow> (inode \<Rightarrow> inode) \<Rightarrow> ('z ino_scheme, unit) kmon" where
  "upd_ino i g = kthen (kindex i NINODE) (kmodify (\<lambda>s. s\<lparr>inodes := (inodes s)(i := g (inodes s i))\<rparr>))"

text \<open>The elements of the array \<^verbatim>\<open>addrs[NDIRECT + 1]\<close> of an inode.\<close>

definition get_addr :: "nat \<Rightarrow> nat \<Rightarrow> ('z ino_scheme, u32) kmon" where
  "get_addr i k = kthen (kindex k (NDIRECT + 1)) (get_ino i (\<lambda>ip. i_addrs ip k))"

definition set_addr :: "nat \<Rightarrow> nat \<Rightarrow> u32 \<Rightarrow> ('z ino_scheme, unit) kmon" where
  "set_addr i k addr = kthen (kindex k (NDIRECT + 1)) (upd_ino i (\<lambda>ip. ip\<lparr>i_addrs := (i_addrs ip)(k := addr)\<rparr>))"

text \<open>An inode of a block of inodes.\<close>

definition dinode_off :: "u32 \<Rightarrow> nat" where
  "dinode_off inum = unat inum mod IPB * 64"

definition get_dinode :: "block \<Rightarrow> nat \<Rightarrow> dinode" where
  "get_dinode d a = \<lparr>d_type = get16 d a, d_major = get16 d (a + 2), d_minor = get16 d (a + 4),
     d_nlink = get16 d (a + 6), d_size = get32 d (a + 8), d_addrs = (\<lambda>k. get32 d (a + 12 + 4 * k))\<rparr>"

primrec put_addrs :: "nat \<Rightarrow> (nat \<Rightarrow> u32) \<Rightarrow> nat \<Rightarrow> block \<Rightarrow> block" where
  "put_addrs a f 0 d = d"
| "put_addrs a f (Suc k) d = put32 (a + 4 * k) (f k) (put_addrs a f k d)"

definition put_dinode :: "nat \<Rightarrow> dinode \<Rightarrow> block \<Rightarrow> block" where
  "put_dinode a di d = put_addrs (a + 12) (d_addrs di) (NDIRECT + 1) (put32 (a + 8) (d_size di) (put16 (a + 6) (d_nlink di)
     (put16 (a + 4) (d_minor di) (put16 (a + 2) (d_major di) (put16 a (d_type di) d)))))"

section \<open>The inode cache\<close>

definition inode_init :: "('z ino_scheme, unit) kmon" where
  "inode_init = spinlock_init IcacheLk"

text \<open>
  The scan of \<^verbatim>\<open>inode_get\<close>: \<open>Inl\<close> is the slot of the inode, \<open>Inr\<close> the first empty slot that was seen.
\<close>

fun icache_scan :: "(nat \<Rightarrow> inode) \<Rightarrow> u32 \<Rightarrow> u32 \<Rightarrow> nat list \<Rightarrow> nat option \<Rightarrow> nat + nat option" where
  "icache_scan I dev inum [] e = Inr e"
| "icache_scan I dev inum (i # is) e =
     (if i_ref (I i) > 0 \<and> i_dev (I i) = dev \<and> i_inum (I i) = inum then Inl i
      else icache_scan I dev inum is (if e = None \<and> i_ref (I i) = 0 then Some i else e))"

definition inode_get :: "u32 \<Rightarrow> u32 \<Rightarrow> ('z ino_scheme, nat) kmon" where
  "inode_get dev inum =
     kthen (spinlock_acquire IcacheLk)
    (kbind (kget (\<lambda>s. icache_scan (inodes s) dev inum [0..<NINODE] None)) (\<lambda>r. case r of
       Inl i \<Rightarrow>
         kthen (upd_ino i (\<lambda>ip. ip\<lparr>i_ref := i_ref ip + 1\<rparr>))
        (kthen (spinlock_release IcacheLk)
               (kret i))
     | Inr None \<Rightarrow> kpanic ''inode_get: no inodes''
     | Inr (Some i) \<Rightarrow>
         kthen (upd_ino i (\<lambda>ip. ip\<lparr>i_dev := dev, i_inum := inum, i_ref := 1, i_flags := 0\<rparr>))
        (kthen (flock_init i)
        (kthen (spinlock_release IcacheLk)
               (kret i)))))"

definition inode_dup :: "nat \<Rightarrow> ('z ino_scheme, nat) kmon" where
  "inode_dup i =
     kthen (spinlock_acquire IcacheLk)
    (kthen (upd_ino i (\<lambda>ip. ip\<lparr>i_ref := i_ref ip + 1\<rparr>))
    (kthen (spinlock_release IcacheLk)
           (kret i)))"

text \<open>\<^verbatim>\<open>dip = (struct dinode *) bp->data + inum % IPB\<close>, on the data of the block.\<close>

definition inode_alloc :: "u32 \<Rightarrow> 16 word \<Rightarrow> ('z ino_scheme, nat) kmon" where
  "inode_alloc dev type =
     kbind (read_superblock dev) (\<lambda>sb.
     kbind (kscan 1 (unat (sb_ninodes sb)) (\<lambda>inum.
        kbind (bufcache_read dev (IBLOCK (of_nat inum))) (\<lambda>bp.
        kbind (get_buf bp b_data) (\<lambda>d.
        let a = dinode_off (of_nat inum) in
        kthen (kspan a 64 BSIZE)
         (if get16 d a = 0 then
            kthen (upd_buf bp (\<lambda>x. x\<lparr>b_data := put16 a type (\<lambda>k. if a \<le> k \<and> k < a + 64 then 0 else b_data x k)\<rparr>))
           (kthen (log_write bp)
           (kthen (bufcache_release bp)
           (kbind (inode_get dev (of_nat inum)) (\<lambda>ip.
                   kret (Some ip)))))
          else kthen (bufcache_release bp) (kret None)))))) (\<lambda>r. case r of
       Some ip \<Rightarrow> kret ip
     | None \<Rightarrow> kpanic ''inode_alloc: no inodes''))"

definition inode_update :: "nat \<Rightarrow> ('z ino_scheme, unit) kmon" where
  "inode_update i =
     kbind (get_ino i (\<lambda>ip. ip)) (\<lambda>ip.
     kbind (bufcache_read (i_dev ip) (IBLOCK (i_inum ip))) (\<lambda>bp.
     kbind (get_ino i (\<lambda>ip. ip)) (\<lambda>ip.
     kthen (kspan (dinode_off (i_inum ip)) 64 BSIZE)
    (kthen (upd_buf bp (\<lambda>x. x\<lparr>b_data := put_dinode (dinode_off (i_inum ip))
        \<lparr>d_type = i_type ip, d_major = i_major ip, d_minor = i_minor ip, d_nlink = i_nlink ip,
         d_size = i_size ip, d_addrs = i_addrs ip\<rparr> (b_data x)\<rparr>))
    (kthen (log_write bp)
           (bufcache_release bp))))))"

definition inode_lock :: "nat \<Rightarrow> ('z ino_scheme, unit) kmon" where
  "inode_lock i =
     kbind (get_ino i i_ref) (\<lambda>ref.
     kthen (kassert (\<not> ref < 1) ''inode_lock'')
    (kthen (spinlock_acquire IcacheLk)
    (kthen (kloop (kbind (get_ino i i_flags) (\<lambda>f.
        if f AND I_BUSY \<noteq> 0 then kthen (thread_sleep (ChanInode i) (Some IcacheLk)) (kret None)
        else kret (Some ()))))
    (kthen (upd_ino i (\<lambda>ip. ip\<lparr>i_flags := i_flags ip OR I_BUSY\<rparr>))
    (kthen (spinlock_release IcacheLk)
    (kbind (get_ino i (\<lambda>ip. ip)) (\<lambda>ip.
       kwhen (i_flags ip AND I_VALID = 0)
         (kbind (bufcache_read (i_dev ip) (IBLOCK (i_inum ip))) (\<lambda>bp.
          kbind (get_buf bp b_data) (\<lambda>d.
          kbind (get_ino i i_inum) (\<lambda>inum.
          kthen (kspan (dinode_off inum) 64 BSIZE)
         (kthen (upd_ino i (\<lambda>ip. let di = get_dinode d (dinode_off (i_inum ip)) in
             ip\<lparr>i_type := d_type di, i_major := d_major di, i_minor := d_minor di, i_nlink := d_nlink di,
                i_size := d_size di,
                i_addrs := (\<lambda>k. if k \<le> NDIRECT then d_addrs di k else i_addrs ip k)\<rparr>))
         (kthen (bufcache_release bp)
         (kthen (upd_ino i (\<lambda>ip. ip\<lparr>i_flags := i_flags ip OR I_VALID\<rparr>))
         (kbind (get_ino i i_type) (\<lambda>ty.
            kassert (ty \<noteq> 0) ''inode_lock: no type''))))))))))))))))"

definition inode_unlock :: "nat \<Rightarrow> ('z ino_scheme, unit) kmon" where
  "inode_unlock i =
     kbind (get_ino i (\<lambda>ip. ip)) (\<lambda>ip.
     kthen (kassert (\<not> (i_flags ip AND I_BUSY = 0 \<or> i_ref ip < 1)) ''inode_unlock'')
    (kthen (spinlock_acquire IcacheLk)
    (kthen (upd_ino i (\<lambda>ip. ip\<lparr>i_flags := i_flags ip AND NOT I_BUSY\<rparr>))
    (kthen (thread_wakeup (ChanInode i))
           (spinlock_release IcacheLk)))))"

section \<open>Contents\<close>

definition bmap :: "nat \<Rightarrow> u32 \<Rightarrow> ('z ino_scheme, u32) kmon" where
  "bmap i bn =
     kbind (get_ino i i_dev) (\<lambda>dev.
     if unat bn < NDIRECT then
       kbind (get_addr i (unat bn)) (\<lambda>addr.
         if addr = 0 then
           kbind (block_alloc dev) (\<lambda>addr.
           kthen (set_addr i (unat bn) addr)
                 (kret addr))
         else kret addr)
     else
       let bn' = unat bn - NDIRECT in
       if bn' < NINDIRECT then
         kbind (get_addr i NDIRECT) (\<lambda>addr.
         kbind (if addr = 0 then
             kbind (block_alloc dev) (\<lambda>addr.
             kthen (set_addr i NDIRECT addr)
                   (kret addr))
           else kret addr) (\<lambda>addr.
         kbind (bufcache_read dev addr) (\<lambda>bp.
         kbind (get_buf bp b_data) (\<lambda>a.
         kthen (kspan (4 * bn') 4 BSIZE)
        (kbind (if get32 a (4 * bn') = 0 then
             kbind (block_alloc dev) (\<lambda>addr.
             kthen (upd_buf bp (\<lambda>x. x\<lparr>b_data := put32 (4 * bn') addr (b_data x)\<rparr>))
            (kthen (log_write bp)
                   (kret addr)))
           else kret (get32 a (4 * bn'))) (\<lambda>addr.
         kthen (bufcache_release bp)
               (kret addr)))))))
       else kpanic ''bmap: out of range'')"

definition inode_trunc :: "nat \<Rightarrow> ('z ino_scheme, unit) kmon" where
  "inode_trunc i =
     kbind (get_ino i i_dev) (\<lambda>dev.
     kthen (kfor 0 NDIRECT (\<lambda>k.
        kbind (get_addr i k) (\<lambda>addr.
        kwhen (addr \<noteq> 0)
          (kthen (block_free dev addr)
                 (set_addr i k 0)))))
    (kbind (get_addr i NDIRECT) (\<lambda>addr.
     kthen (kwhen (addr \<noteq> 0)
        (kbind (bufcache_read dev addr) (\<lambda>bp.
         kthen (kfor 0 NINDIRECT (\<lambda>j.
            kthen (kspan (4 * j) 4 BSIZE)
           (kbind (get_buf bp b_data) (\<lambda>a.
            kwhen (get32 a (4 * j) \<noteq> 0) (block_free dev (get32 a (4 * j)))))))
        (kthen (bufcache_release bp)
        (kthen (block_free dev addr)
               (set_addr i NDIRECT 0))))))
    (kthen (upd_ino i (\<lambda>ip. ip\<lparr>i_size := 0\<rparr>))
           (inode_update i)))))"

definition inode_put :: "nat \<Rightarrow> ('z ino_scheme, unit) kmon" where
  "inode_put i =
     kthen (spinlock_acquire IcacheLk)
    (kbind (get_ino i (\<lambda>ip. ip)) (\<lambda>ip.
     kthen (kwhen (i_ref ip = 1 \<and> i_flags ip AND I_VALID \<noteq> 0 \<and> i_nlink ip = 0)
        (kthen (kassert (i_flags ip AND I_BUSY = 0) ''inode_put busy'')
        (kthen (upd_ino i (\<lambda>ip. ip\<lparr>i_flags := i_flags ip OR I_BUSY\<rparr>))
        (kthen (spinlock_release IcacheLk)
        (kthen (inode_trunc i)
        (kthen (upd_ino i (\<lambda>ip. ip\<lparr>i_type := 0\<rparr>))
        (kthen (inode_update i)
        (kthen (spinlock_acquire IcacheLk)
        (kthen (upd_ino i (\<lambda>ip. ip\<lparr>i_flags := 0\<rparr>))
               (thread_wakeup (ChanInode i)))))))))))
    (kthen (upd_ino i (\<lambda>ip. ip\<lparr>i_ref := i_ref ip - 1\<rparr>))
           (spinlock_release IcacheLk))))"

definition inode_unlockput :: "nat \<Rightarrow> ('z ino_scheme, unit) kmon" where
  "inode_unlockput i = kthen (inode_unlock i) (inode_put i)"

record file_stat =
  st_type :: "16 word"
  st_dev :: u32
  st_ino :: u32
  st_nlink :: "16 word"
  st_size :: u32

definition inode_stat :: "nat \<Rightarrow> ('z ino_scheme, file_stat) kmon" where
  "inode_stat i = get_ino i (\<lambda>ip.
     \<lparr>st_type = i_type ip, st_dev = i_dev ip, st_ino = i_inum ip, st_nlink = i_nlink ip, st_size = i_size ip\<rparr>)"

text \<open>The number of bytes of one round of the copy loops, \<^verbatim>\<open>min(n - tot, BSIZE - off % BSIZE)\<close>.\<close>

definition block_chunk :: "nat \<Rightarrow> nat \<Rightarrow> nat" where
  "block_chunk left off = min left (BSIZE - off mod BSIZE)"

lemma block_chunk_pos: "0 < left \<Longrightarrow> 0 < block_chunk left off"
  by (simp add: block_chunk_def BSIZE_def)

function inode_read_loop :: "nat \<Rightarrow> nat \<Rightarrow> nat \<Rightarrow> u8 list \<Rightarrow> ('z ino_scheme, u8 list) kmon" where
  "inode_read_loop i left off dst =
     (if left = 0 then kret dst
      else
        kbind (get_ino i i_dev) (\<lambda>dev.
        kbind (bmap i (of_nat (off div BSIZE))) (\<lambda>addr.
        kbind (bufcache_read dev addr) (\<lambda>bp.
        kthen (kspan (off mod BSIZE) (block_chunk left off) BSIZE)
       (kbind (get_buf bp b_data) (\<lambda>d.
        kthen (bufcache_release bp)
          (inode_read_loop i (left - block_chunk left off) (off + block_chunk left off)
             (dst @ map d [off mod BSIZE..<off mod BSIZE + block_chunk left off]))))))))"
  by pat_completeness auto
termination
  by (relation "measure (\<lambda>(i, left, off, dst). left)") (auto simp: block_chunk_pos)

declare inode_read_loop.simps [simp del]

definition inode_read :: "nat \<Rightarrow> u32 \<Rightarrow> u32 \<Rightarrow> ('z ino_scheme, int \<times> u8 list) kmon" where
  "inode_read i off n =
     kbind (get_ino i (\<lambda>ip. ip)) (\<lambda>ip.
     if i_type ip = T_DEV then
       if sint (i_major ip) < 0 \<or> sint (i_major ip) \<ge> int NDEV then kret (-1, []) else kstop Null
     else if off > i_size ip \<or> off + n < off then kret (-1, [])
     else
       let n = (if off + n > i_size ip then i_size ip - off else n) in
       kbind (inode_read_loop i (unat n) (unat off) []) (\<lambda>dst.
         kret (sint n, dst)))"

function inode_write_loop :: "nat \<Rightarrow> u8 list \<Rightarrow> nat \<Rightarrow> nat \<Rightarrow> nat \<Rightarrow> ('z ino_scheme, unit) kmon" where
  "inode_write_loop i src left off tot =
     (if left = 0 then kret ()
      else
        kbind (get_ino i i_dev) (\<lambda>dev.
        kbind (bmap i (of_nat (off div BSIZE))) (\<lambda>addr.
        kbind (bufcache_read dev addr) (\<lambda>bp.
        kthen (kspan (off mod BSIZE) (block_chunk left off) BSIZE)
       (kthen (kspan tot (block_chunk left off) (length src))
       (kthen (upd_buf bp (\<lambda>x. x\<lparr>b_data := (\<lambda>k.
           if off mod BSIZE \<le> k \<and> k < off mod BSIZE + block_chunk left off then src ! (tot + k - off mod BSIZE)
           else b_data x k)\<rparr>))
       (kthen (log_write bp)
       (kthen (bufcache_release bp)
          (inode_write_loop i src (left - block_chunk left off) (off + block_chunk left off)
             (tot + block_chunk left off))))))))))"
  by pat_completeness auto
termination
  by (relation "measure (\<lambda>(i, src, left, off, tot). left)") (auto simp: block_chunk_pos)

declare inode_write_loop.simps [simp del]

definition inode_write :: "nat \<Rightarrow> u8 list \<Rightarrow> u32 \<Rightarrow> u32 \<Rightarrow> ('z ino_scheme, int) kmon" where
  "inode_write i src off n =
     kbind (get_ino i (\<lambda>ip. ip)) (\<lambda>ip.
     if i_type ip = T_DEV then
       if sint (i_major ip) < 0 \<or> sint (i_major ip) \<ge> int NDEV then kret (-1) else kstop Null
     else if off > i_size ip \<or> off + n < off then kret (-1)
     else if unat (off + n) > MAXFILE * BSIZE then kret (-1)
     else
       kthen (inode_write_loop i src (unat n) (unat off) 0)
      (kbind (get_ino i i_size) (\<lambda>size.
       kthen (kwhen (n > 0 \<and> off + n > size)
          (kthen (upd_ino i (\<lambda>ip. ip\<lparr>i_size := off + n\<rparr>))
                 (inode_update i)))
             (kret (sint n)))))"

end
