(* ===== verification/Dir.thy ===== *)
theory Dir
  imports Inode
begin

text \<open>
  Directories and path names: \<^verbatim>\<open>kern/fs/dir.c\<close> and \<^verbatim>\<open>kern/fs/path.c\<close>. A path is the list of the bytes of the
  array that the pointer \<^verbatim>\<open>path\<close> of a caller points to, and a pointer into it is an offset; a byte read
  past the end of the array is the stop \<open>Unterminated\<close>. A name is a function from offsets to bytes; writing
  outside the array \<^verbatim>\<open>name[DIRSIZ]\<close> is a \<open>Fault\<close>.
\<close>

section \<open>Directories\<close>

definition DIRSIZ :: nat where [kconst]: "DIRSIZ = 14"

record dirent =
  de_inum :: "16 word"
  de_name :: "nat \<Rightarrow> u8"

definition DIRENT_SIZE :: nat where [kconst]: "DIRENT_SIZE = 16"

definition dirent_of :: "u8 list \<Rightarrow> dirent" where
  "dirent_of bs = \<lparr>de_inum = get16 ((!) bs) 0, de_name = (\<lambda>k. bs ! (2 + k))\<rparr>"

definition dirent_bytes :: "dirent \<Rightarrow> u8 list" where
  "dirent_bytes de = map (\<lambda>k. if k < 2 then put16 0 (de_inum de) (\<lambda>_. 0) k else de_name de (k - 2)) [0..<DIRENT_SIZE]"

definition dir_namecmp :: "(nat \<Rightarrow> u8) \<Rightarrow> (nat \<Rightarrow> u8) \<Rightarrow> int" where
  "dir_namecmp s t = strncmp s t DIRSIZ"

definition read_dirent :: "nat \<Rightarrow> nat \<Rightarrow> ('z ino_scheme, dirent) kmon" where
  "read_dirent dp off =
     kbind (inode_read dp (of_nat off) (of_nat DIRENT_SIZE)) (\<lambda>(r, bs).
     kthen (kspan 0 (length bs) DIRENT_SIZE)
    (kthen (kassert (r = int DIRENT_SIZE) ''inode_read'')
           (kret (dirent_of bs))))"

text \<open>The number of rounds of \<^verbatim>\<open>for (off = 0; off < dp->size; off += sizeof(struct dirent))\<close>.\<close>

definition dir_entries :: "u32 \<Rightarrow> nat" where
  "dir_entries sz = (unat sz + DIRENT_SIZE - 1) div DIRENT_SIZE"

definition dir_lookup :: "nat \<Rightarrow> (nat \<Rightarrow> u8) \<Rightarrow> ('z ino_scheme, (nat \<times> nat) option) kmon" where
  "dir_lookup dp name =
     kbind (get_ino dp i_type) (\<lambda>ty.
     kthen (kassert (ty = T_DIR) ''dir_lookup not DIR'')
    (kbind (get_ino dp i_size) (\<lambda>size.
     kscan 0 (dir_entries size) (\<lambda>k.
       kbind (read_dirent dp (DIRENT_SIZE * k)) (\<lambda>de.
         if dir_namecmp (de_name de) name = 0 \<and> de_inum de \<noteq> 0 then
           kbind (get_ino dp i_dev) (\<lambda>dev.
           kbind (inode_get dev (ucast (de_inum de))) (\<lambda>ip.
             kret (Some (ip, DIRENT_SIZE * k))))
         else kret None)))))"

text \<open>
  The entry \<^verbatim>\<open>de\<close> that \<^verbatim>\<open>dir_link\<close> overwrites is the empty one that ended the scan, or else the last one read or
  none; since \<^verbatim>\<open>strncpy\<close> stores all bytes of the name, what it held does not matter, and in the second case it is zero here.
\<close>

definition dir_link :: "nat \<Rightarrow> (nat \<Rightarrow> u8) \<Rightarrow> u32 \<Rightarrow> ('z ino_scheme, int) kmon" where
  "dir_link dp name inum =
     kbind (dir_lookup dp name) (\<lambda>r. case r of
       Some (tmp, _) \<Rightarrow> kthen (inode_put tmp) (kret (-1))
     | None \<Rightarrow>
         kbind (get_ino dp i_size) (\<lambda>size.
         kbind (kscan 0 (dir_entries size) (\<lambda>k.
            kbind (read_dirent dp (DIRENT_SIZE * k)) (\<lambda>de.
              if de_inum de = 0 then kret (Some (k, de_name de)) else kret None))) (\<lambda>r.
         let (k, old) = (case r of Some (k, old) \<Rightarrow> (k, old) | None \<Rightarrow> (dir_entries size, \<lambda>_. 0)) in
         kbind (inode_write dp (dirent_bytes \<lparr>de_inum = ucast inum, de_name = strncpy old name DIRSIZ\<rparr>)
             (of_nat (DIRENT_SIZE * k)) (of_nat DIRENT_SIZE)) (\<lambda>w.
         kthen (kassert (w = int DIRENT_SIZE) ''inode_write'')
               (kret 0)))))"

section \<open>Path names\<close>

definition slash :: u8 where [kconst]: "slash = 47"

function skip_slashes :: "u8 list \<Rightarrow> nat \<Rightarrow> stop + nat" where
  "skip_slashes path p =
     (if length path \<le> p then Inl Unterminated
      else if path ! p = slash then skip_slashes path (Suc p) else Inr p)"
  by pat_completeness auto
termination
  by (relation "measure (\<lambda>(path, p). length path - p)") auto

definition name_put :: "(nat \<Rightarrow> u8) \<Rightarrow> nat \<Rightarrow> u8 \<Rightarrow> stop + (nat \<Rightarrow> u8)" where
  "name_put name k c = (if k < DIRSIZ then Inr (name(k := c)) else Inl Fault)"

function copy_elem :: "u8 list \<Rightarrow> nat \<Rightarrow> nat \<Rightarrow> (nat \<Rightarrow> u8) \<Rightarrow> stop + nat \<times> nat \<times> (nat \<Rightarrow> u8)" where
  "copy_elem path p len name =
     (if length path \<le> p then Inl Unterminated
      else if path ! p \<noteq> slash \<and> path ! p \<noteq> 0 then
        if len < DIRSIZ - 1 then
          (case name_put name len (path ! p) of
             Inl e \<Rightarrow> Inl e
           | Inr name \<Rightarrow> copy_elem path (Suc p) (Suc len) name)
        else copy_elem path (Suc p) len name
      else Inr (p, len, name))"
  by pat_completeness auto
termination
  by (relation "measure (\<lambda>(path, p, len, name). length path - p)") auto

declare skip_slashes.simps [simp del] copy_elem.simps [simp del]

text \<open>The \<open>option\<close> is the null pointer.\<close>

definition skipelem :: "u8 list \<Rightarrow> nat \<Rightarrow> (nat \<Rightarrow> u8) \<Rightarrow> stop + nat option \<times> (nat \<Rightarrow> u8)" where
  "skipelem path p name =
     (case skip_slashes path p of
        Inl e \<Rightarrow> Inl e
      | Inr p \<Rightarrow>
          if path ! p = 0 then Inr (None, name)
          else (case copy_elem path p 0 name of
              Inl e \<Rightarrow> Inl e
            | Inr (p, len, name) \<Rightarrow> (case skip_slashes path p of
                Inl e \<Rightarrow> Inl e
              | Inr p \<Rightarrow> (case name_put name len 0 of
                  Inl e \<Rightarrow> Inl e
                | Inr name \<Rightarrow> Inr (Some p, name)))))"

text \<open>
  The loop of \<^verbatim>\<open>namex\<close>. Every round advances in the path by at least one byte, so that as many rounds as the
  array has bytes, and one more, are enough.
\<close>

fun namex_loop :: "nat \<Rightarrow> u8 list \<Rightarrow> nat \<Rightarrow> bool \<Rightarrow> (nat \<Rightarrow> u8) \<Rightarrow> nat \<Rightarrow>
    ('z ino_scheme, nat option \<times> (nat \<Rightarrow> u8)) kmon" where
  "namex_loop 0 path p nameiparent name ip = kstop Spin"
| "namex_loop (Suc n) path p nameiparent name ip =
     kbind (kres (skipelem path p name)) (\<lambda>(next, name). case next of
       None \<Rightarrow>
         if nameiparent then kthen (inode_put ip) (kret (None, name)) else kret (Some ip, name)
     | Some p \<Rightarrow>
         kthen (inode_lock ip)
        (kbind (get_ino ip i_type) (\<lambda>ty.
           if ty \<noteq> T_DIR then kthen (inode_unlockput ip) (kret (None, name))
           else if nameiparent \<and> path ! p = 0 then kthen (inode_unlock ip) (kret (Some ip, name))
           else
             kbind (dir_lookup ip name) (\<lambda>r.
             kthen (inode_unlockput ip)
               (case r of
                  None \<Rightarrow> kret (None, name)
                | Some (ip', _) \<Rightarrow> namex_loop n path p nameiparent name ip')))))"

definition namex :: "u8 list \<Rightarrow> bool \<Rightarrow> (nat \<Rightarrow> u8) \<Rightarrow> ('z ino_scheme, nat option \<times> (nat \<Rightarrow> u8)) kmon" where
  "namex path nameiparent name =
     kbind (if path = [] then kstop Unterminated
        else if path ! 0 = slash then inode_get ROOTDEV ROOTINO
        else
          kbind get_curid (\<lambda>pid.
          kbind (tcb_get_cwd pid) (\<lambda>cwd. case cwd of
            None \<Rightarrow> kstop Null
          | Some d \<Rightarrow> inode_dup d))) (\<lambda>ip.
     namex_loop (Suc (length path)) path 0 nameiparent name ip)"

definition namei :: "u8 list \<Rightarrow> (nat \<Rightarrow> u8) \<Rightarrow> ('z ino_scheme, nat option) kmon" where
  "namei path name0 = kbind (namex path False name0) (\<lambda>(ip, name). kret ip)"

definition nameiparent :: "u8 list \<Rightarrow> (nat \<Rightarrow> u8) \<Rightarrow> ('z ino_scheme, nat option \<times> (nat \<Rightarrow> u8)) kmon" where
  "nameiparent path name0 = namex path True name0"

end
