(* ===== verification/File.thy ===== *)
theory File
  imports Dir
begin

text \<open>
  Open files: the operations of \<^verbatim>\<open>kern/fs/file.c\<close> that use the inode layer. The file table and the
  locks of files are in \<open>Flock\<close>.
\<close>

definition file_close :: "nat \<Rightarrow> ('z ino_scheme, unit) kmon" where
  "file_close f =
     kbind (file_close_locks f) (\<lambda>ip. case ip of
       None \<Rightarrow> kret ()
     | Some i \<Rightarrow>
         kthen begin_trans
        (kthen (inode_put i)
               commit_trans))"

definition file_stat_op :: "nat \<Rightarrow> ('z ino_scheme, file_stat option) kmon" where
  "file_stat_op f =
     kbind (get_file f (\<lambda>fl. fl)) (\<lambda>fl.
     if f_type fl = FD_INODE then
       kthen (inode_lock (f_ip fl))
      (kbind (inode_stat (f_ip fl)) (\<lambda>st.
       kthen (inode_unlock (f_ip fl))
             (kret (Some st))))
     else kret None)"

definition file_read :: "nat \<Rightarrow> u32 \<Rightarrow> ('z ino_scheme, int \<times> u8 list) kmon" where
  "file_read f n =
     kbind (get_file f (\<lambda>fl. fl)) (\<lambda>fl.
     if \<not> readable fl then kret (-1, [])
     else if f_type fl = FD_INODE then
       kthen (inode_lock (f_ip fl))
      (kbind (get_file f f_off) (\<lambda>off.
       kbind (inode_read (f_ip fl) off n) (\<lambda>(r, bs).
       kthen (kwhen (r > 0) (upd_file f (\<lambda>fl. fl\<lparr>f_off := f_off fl + word_of_int r\<rparr>)))
      (kthen (inode_unlock (f_ip fl))
             (kret (r, bs))))))
     else kpanic ''file_read'')"

definition WRITE_MAX :: nat where [kconst]: "WRITE_MAX = ((LOGSIZE - 1 - 1 - 2) div 2) * 512"

lemma WRITE_MAX_pos: "0 < WRITE_MAX"
  by (simp add: WRITE_MAX_def LOGSIZE_def)

text \<open>One round of the loop of \<^verbatim>\<open>file_write\<close>: a transaction that writes \<open>n1\<close> bytes.\<close>

definition file_write_chunk :: "nat \<Rightarrow> u8 list \<Rightarrow> nat \<Rightarrow> ('z ino_scheme, int) kmon" where
  "file_write_chunk f src n1 =
     kthen begin_trans
    (kbind (get_file f f_ip) (\<lambda>ip.
     kthen (inode_lock ip)
    (kbind (get_file f f_off) (\<lambda>off.
     kbind (inode_write ip src off (of_nat n1)) (\<lambda>r.
     kthen (kwhen (r > 0) (upd_file f (\<lambda>fl. fl\<lparr>f_off := f_off fl + word_of_int r\<rparr>)))
    (kthen (inode_unlock ip)
    (kthen commit_trans
           (kret r))))))))"

function file_write_loop :: "nat \<Rightarrow> u8 list \<Rightarrow> nat \<Rightarrow> nat \<Rightarrow> ('z ino_scheme, nat) kmon" where
  "file_write_loop f addr n i =
     (if i < n then
        kbind (file_write_chunk f (drop i addr) (min (n - i) WRITE_MAX)) (\<lambda>r.
          if r < 0 then kret i
          else
            kthen (kassert (r = int (min (n - i) WRITE_MAX)) ''short file_write'')
                  (file_write_loop f addr n (i + min (n - i) WRITE_MAX)))
      else kret i)"
  by pat_completeness auto
termination
  using WRITE_MAX_pos by (relation "measure (\<lambda>(f, addr, n, i). n - i)") (auto simp: min_def)

declare file_write_loop.simps [simp del]

definition file_write :: "nat \<Rightarrow> u8 list \<Rightarrow> int \<Rightarrow> ('z ino_scheme, int) kmon" where
  "file_write f addr n =
     kbind (get_file f (\<lambda>fl. fl)) (\<lambda>fl.
     if \<not> writable fl then kret (-1)
     else if f_type fl = FD_INODE then
       kbind (file_write_loop f addr (nat n) 0) (\<lambda>i.
         kret (if int i = n then n else -1))
     else kpanic ''file_write'')"

end
