(* ===== verification/SysFile.thy ===== *)
theory SysFile
  imports File UserMem
begin

text \<open>
  The system calls on files: \<^verbatim>\<open>kern/fs/sysfile.c\<close>, with the accessors of the trap frame of
  \<^verbatim>\<open>kern/trap/TSyscallArg/TSyscallArg.c\<close>. The trap frame of the call is the field \<open>tf\<close> of the state.

  The local arrays \<^verbatim>\<open>path\<close>, \<^verbatim>\<open>old\<close> and \<^verbatim>\<open>new\<close> lie in the frame of the call on the kernel stack, at
  \<open>kframe\<close> and \<open>kframe + 128\<close>; the array \<^verbatim>\<open>fsbuf\<close> lies at the address \<open>fsbuf\<close>. A transfer between memory and one
  of these arrays is preceded by a test that it does not leave the array. The local array \<^verbatim>\<open>name\<close>,
  which is only written and compared by the kernel, is a function from offsets to bytes; what it
  holds before it is written is \<open>kjunk\<close>.
\<close>

section \<open>The trap frame\<close>

record tf_t =
  tf_edi :: u32
  tf_esi :: u32
  tf_ebp :: u32
  tf_ebx :: u32
  tf_edx :: u32
  tf_ecx :: u32
  tf_eax :: u32
  tf_es :: "16 word"
  tf_ds :: "16 word"
  tf_trapno :: u32
  tf_err :: u32
  tf_eip :: u32
  tf_cs :: "16 word"
  tf_eflags :: u32
  tf_esp :: u32
  tf_ss :: "16 word"

record sysl = ino +
  tf :: tf_t
  fsbuf :: u32
  kframe :: u32
  kjunk :: "nat \<Rightarrow> u8"

definition syscall_get_arg1 :: "('z sysl_scheme, u32) kmon" where
  "syscall_get_arg1 = kget (\<lambda>s. tf_eax (tf s))"

definition syscall_get_arg2 :: "('z sysl_scheme, u32) kmon" where
  "syscall_get_arg2 = kget (\<lambda>s. tf_ebx (tf s))"

definition syscall_get_arg3 :: "('z sysl_scheme, u32) kmon" where
  "syscall_get_arg3 = kget (\<lambda>s. tf_ecx (tf s))"

definition syscall_get_arg4 :: "('z sysl_scheme, u32) kmon" where
  "syscall_get_arg4 = kget (\<lambda>s. tf_edx (tf s))"

definition syscall_get_arg5 :: "('z sysl_scheme, u32) kmon" where
  "syscall_get_arg5 = kget (\<lambda>s. tf_esi (tf s))"

definition syscall_get_arg6 :: "('z sysl_scheme, u32) kmon" where
  "syscall_get_arg6 = kget (\<lambda>s. tf_edi (tf s))"

definition syscall_set_errno :: "u32 \<Rightarrow> ('z sysl_scheme, unit) kmon" where
  "syscall_set_errno e = kmodify (\<lambda>s. s\<lparr>tf := (tf s)\<lparr>tf_eax := e\<rparr>\<rparr>)"

definition syscall_set_retval1 :: "u32 \<Rightarrow> ('z sysl_scheme, unit) kmon" where
  "syscall_set_retval1 r = kmodify (\<lambda>s. s\<lparr>tf := (tf s)\<lparr>tf_ebx := r\<rparr>\<rparr>)"

definition syscall_set_retval2 :: "u32 \<Rightarrow> ('z sysl_scheme, unit) kmon" where
  "syscall_set_retval2 r = kmodify (\<lambda>s. s\<lparr>tf := (tf s)\<lparr>tf_ecx := r\<rparr>\<rparr>)"

definition syscall_set_retval3 :: "u32 \<Rightarrow> ('z sysl_scheme, unit) kmon" where
  "syscall_set_retval3 r = kmodify (\<lambda>s. s\<lparr>tf := (tf s)\<lparr>tf_edx := r\<rparr>\<rparr>)"

definition syscall_set_retval4 :: "u32 \<Rightarrow> ('z sysl_scheme, unit) kmon" where
  "syscall_set_retval4 r = kmodify (\<lambda>s. s\<lparr>tf := (tf s)\<lparr>tf_esi := r\<rparr>\<rparr>)"

definition syscall_set_retval5 :: "u32 \<Rightarrow> ('z sysl_scheme, unit) kmon" where
  "syscall_set_retval5 r = kmodify (\<lambda>s. s\<lparr>tf := (tf s)\<lparr>tf_edi := r\<rparr>\<rparr>)"

datatype error_nr =
    E_SUCC | E_MEM | E_IPC | E_INVAL_CALLNR | E_INVAL_ADDR | E_INVAL_PID | E_INVAL_REG | E_INVAL_SEG
  | E_INVAL_EVENT | E_INVAL_PORT | E_INVAL_HVM | E_INVAL_CHID | E_INVAL_ID | E_DISK_OP | E_HVM_VMRUN
  | E_HVM_MMAP | E_HVM_REG | E_HVM_SEG | E_HVM_NEIP | E_HVM_INJECT | E_HVM_IOPORT | E_HVM_MSR
  | E_HVM_INTRWIN | E_EXCEEDS_QUOTA | E_MAX_NUM_CHILDEN_REACHED | E_INVAL_CHILD_ID | E_NEXIST | E_CREATE
  | E_FNF | E_BADF

fun errno :: "error_nr \<Rightarrow> u32" where
  "errno E_SUCC = 0" | "errno E_MEM = 1" | "errno E_IPC = 2" | "errno E_INVAL_CALLNR = 3"
| "errno E_INVAL_ADDR = 4" | "errno E_INVAL_PID = 5" | "errno E_INVAL_REG = 6" | "errno E_INVAL_SEG = 7"
| "errno E_INVAL_EVENT = 8" | "errno E_INVAL_PORT = 9" | "errno E_INVAL_HVM = 10" | "errno E_INVAL_CHID = 11"
| "errno E_INVAL_ID = 12" | "errno E_DISK_OP = 13" | "errno E_HVM_VMRUN = 14" | "errno E_HVM_MMAP = 15"
| "errno E_HVM_REG = 16" | "errno E_HVM_SEG = 17" | "errno E_HVM_NEIP = 18" | "errno E_HVM_INJECT = 19"
| "errno E_HVM_IOPORT = 20" | "errno E_HVM_MSR = 21" | "errno E_HVM_INTRWIN = 22"
| "errno E_EXCEEDS_QUOTA = 23" | "errno E_MAX_NUM_CHILDEN_REACHED = 24" | "errno E_INVAL_CHILD_ID = 25"
| "errno E_NEXIST = 26" | "errno E_CREATE = 27" | "errno E_FNF = 28" | "errno E_BADF = 29"

definition sys_fail :: "error_nr \<Rightarrow> ('z sysl_scheme, unit) kmon" where
  "sys_fail e = kthen (syscall_set_errno (errno e)) (syscall_set_retval1 (-1))"

section \<open>Buffers and descriptors\<close>

definition BUFLEN_MAX :: u32 where [kconst]: "BUFLEN_MAX = 10000"
definition PATH_MAX :: u32 where [kconst]: "PATH_MAX = 128"

definition O_RDONLY :: u32 where [kconst]: "O_RDONLY = 0"
definition O_WRONLY :: u32 where [kconst]: "O_WRONLY = 1"
definition O_RDWR :: u32 where [kconst]: "O_RDWR = 2"
definition O_CREATE :: u32 where [kconst]: "O_CREATE = 0x200"

definition check_buf :: "u32 \<Rightarrow> u32 \<Rightarrow> u32 \<Rightarrow> ('z sysl_scheme, bool) kmon" where
  "check_buf buf len maxlen =
     (if \<not> (VM_USERLO \<le> buf \<and> buf + len \<le> VM_USERHI) \<or> (0 < maxlen \<and> maxlen \<le> len)
      then kthen (sys_fail E_INVAL_ADDR) (kret False)
      else kret True)"

definition fdalloc :: "nat \<Rightarrow> ('z sysl_scheme, int) kmon" where
  "fdalloc f =
     kbind get_curid (\<lambda>pid.
     kbind (tcb_get_openfiles pid) (\<lambda>openfiles.
     kbind (kscan 0 NOFILE (\<lambda>fd.
        if openfiles fd = None then kthen (tcb_set_openfiles pid fd (Some f)) (kret (Some (int fd)))
        else kret None)) (\<lambda>r.
     kret (case r of Some fd \<Rightarrow> fd | None \<Rightarrow> -1))))"

text \<open>The file of a descriptor: \<^verbatim>\<open>0 <= fd && fd < NOFILE\<close> and \<^verbatim>\<open>tcb_get_openfiles(pid)[fd]\<close>.\<close>

definition fd_file :: "nat \<Rightarrow> u32 \<Rightarrow> ('z sysl_scheme, nat option) kmon" where
  "fd_file pid fd =
     (if \<not> (0 \<le> sint fd \<and> sint fd < int NOFILE) then kret None
      else kbind (tcb_get_openfiles pid) (\<lambda>openfiles. kthen (kindex (unat fd) NOFILE) (kret (openfiles (unat fd)))))"

text \<open>The contents of an array of \<open>n\<close> bytes at an address of the kernel, and the storing of bytes at its beginning.\<close>

definition kbytes :: "u32 \<Rightarrow> nat \<Rightarrow> ('z sysl_scheme, u8 list) kmon" where
  "kbytes a n = kget (\<lambda>s. map (\<lambda>k. phys_mem s (a + of_nat k)) [0..<n])"

definition store_bytes :: "u32 \<Rightarrow> nat \<Rightarrow> u8 list \<Rightarrow> ('z sysl_scheme, unit) kmon" where
  "store_bytes a n bs =
     kthen (kspan 0 (length bs) n)
    (kmodify (\<lambda>s. s\<lparr>phys_mem := (\<lambda>b.
       if unat (b - a) < length bs then bs ! unat (b - a) else phys_mem s b)\<rparr>))"

definition fsbuf_of :: "nat \<Rightarrow> ('z sysl_scheme, u32) kmon" where
  "fsbuf_of pid = kthen (kindex pid NUM_IDS) (kget (\<lambda>s. fsbuf s + of_nat pid * BUFLEN_MAX))"

definition is_inode_file :: "nat option \<Rightarrow> ('z sysl_scheme, bool) kmon" where
  "is_inode_file fo = (case fo of
       None \<Rightarrow> kret False
     | Some f \<Rightarrow> get_file f (\<lambda>fl. f_type fl = FD_INODE))"

section \<open>Reading, writing, closing\<close>

definition sys_read :: "('z sysl_scheme, unit) kmon" where
  "sys_read =
     kbind get_curid (\<lambda>pid.
     kbind syscall_get_arg2 (\<lambda>fd.
     kbind syscall_get_arg3 (\<lambda>buf.
     kbind syscall_get_arg4 (\<lambda>buflen.
     kbind (check_buf buf buflen BUFLEN_MAX) (\<lambda>ok.
     if \<not> ok then kret ()
     else
       kbind (fd_file pid fd) (\<lambda>fo.
       kbind (is_inode_file fo) (\<lambda>isf.
       if \<not> isf then sys_fail E_BADF
       else
         kbind (file_read (the fo) buflen) (\<lambda>(r, bs).
         kbind (fsbuf_of pid) (\<lambda>a.
         kthen (store_bytes a (unat BUFLEN_MAX) bs)
        (kthen (syscall_set_retval1 (word_of_int r))
           (if 0 \<le> r then
              kthen (kspan 0 (nat r) (unat BUFLEN_MAX))
             (kbind (pt_copyout a pid buf (word_of_int r)) (\<lambda>_. syscall_set_errno (errno E_SUCC)))
            else syscall_set_errno (errno E_BADF))))))))))))"

definition sys_write :: "('z sysl_scheme, unit) kmon" where
  "sys_write =
     kbind get_curid (\<lambda>pid.
     kbind syscall_get_arg2 (\<lambda>fd.
     kbind syscall_get_arg3 (\<lambda>buf.
     kbind syscall_get_arg4 (\<lambda>buflen.
     kbind (check_buf buf buflen BUFLEN_MAX) (\<lambda>ok.
     if \<not> ok then kret ()
     else
       kbind (fd_file pid fd) (\<lambda>fo.
       kbind (is_inode_file fo) (\<lambda>isf.
       if \<not> isf then sys_fail E_BADF
       else
         kbind (fsbuf_of pid) (\<lambda>a.
         kthen (kspan 0 (unat buflen) (unat BUFLEN_MAX))
        (kbind (pt_copyin pid buf a buflen) (\<lambda>_.
         kbind (kbytes a (unat BUFLEN_MAX)) (\<lambda>src.
         kbind (file_write (the fo) src (sint buflen)) (\<lambda>written.
         kthen (syscall_set_retval1 (word_of_int written))
               (syscall_set_errno (errno (if 0 \<le> written then E_SUCC else E_BADF)))))))))))))))"

definition sys_close :: "('z sysl_scheme, unit) kmon" where
  "sys_close =
     kbind get_curid (\<lambda>pid.
     kbind syscall_get_arg2 (\<lambda>fd.
     kbind (fd_file pid fd) (\<lambda>fo.
     kbind (case fo of None \<Rightarrow> kret False | Some f \<Rightarrow> get_file f (\<lambda>fl. \<not> f_ref fl < 1)) (\<lambda>live.
     if \<not> live then sys_fail E_BADF
     else
       kthen (file_close (the fo))
      (kthen (tcb_set_openfiles pid (unat fd) None)
      (kthen (syscall_set_errno (errno E_SUCC))
             (syscall_set_retval1 0)))))))"

text \<open>\<^verbatim>\<open>struct file_stat\<close> in memory: the 16-bit type and two bytes of padding come first.\<close>

definition file_stat_bytes :: "file_stat \<Rightarrow> nat \<Rightarrow> u8" where
  "file_stat_bytes st = put32 16 (st_size st) (put16 12 (st_nlink st) (put32 8 (st_ino st) (put32 4 (st_dev st)
     (put16 0 (st_type st) (\<lambda>_. 0)))))"

definition FILE_STAT_SIZE :: u32 where [kconst]: "FILE_STAT_SIZE = 20"

definition sys_fstat :: "('z sysl_scheme, unit) kmon" where
  "sys_fstat =
     kbind get_curid (\<lambda>pid.
     kbind syscall_get_arg2 (\<lambda>fd.
     kbind syscall_get_arg3 (\<lambda>ustat.
     kbind (check_buf ustat FILE_STAT_SIZE 0) (\<lambda>ok.
     if \<not> ok then kret ()
     else
       kbind (fd_file pid fd) (\<lambda>fo.
       kbind (is_inode_file fo) (\<lambda>isf.
       if \<not> isf then sys_fail E_BADF
       else
         kbind (file_stat_op (the fo)) (\<lambda>st. case st of
           None \<Rightarrow> sys_fail E_BADF
         | Some st \<Rightarrow>
             kbind (kget kframe) (\<lambda>a.
             kthen (store_bytes a (unat FILE_STAT_SIZE) (map (file_stat_bytes st) [0..<20]))
            (kbind (pt_copyout a pid ustat FILE_STAT_SIZE) (\<lambda>_.
             kthen (syscall_set_errno (errno E_SUCC))
                   (syscall_set_retval1 0)))))))))))"

section \<open>Links\<close>

text \<open>
  A path is copied to one of the arrays of \<open>PATH_MAX\<close> bytes. It has no terminator if the user gave none;
  the bytes of the array behind it are what the stack held.
\<close>

definition copy_path :: "u32 \<Rightarrow> u32 \<Rightarrow> u32 \<Rightarrow> ('z sysl_scheme, u8 list) kmon" where
  "copy_path uva a len =
     kbind get_curid (\<lambda>pid.
     kthen (kspan 0 (unat len) (unat PATH_MAX))
    (kbind (pt_copyin pid uva a len) (\<lambda>_. kbytes a (unat PATH_MAX))))"

definition sys_link_bad :: "nat \<Rightarrow> ('z sysl_scheme, unit) kmon" where
  "sys_link_bad ip =
     kthen (inode_lock ip)
    (kthen (upd_ino ip (\<lambda>x. x\<lparr>i_nlink := i_nlink x - 1\<rparr>))
    (kthen (inode_update ip)
    (kthen (inode_unlockput ip)
    (kthen commit_trans
           (syscall_set_errno (errno E_DISK_OP))))))"

definition sys_link :: "('z sysl_scheme, unit) kmon" where
  "sys_link =
     kbind syscall_get_arg2 (\<lambda>uold.
     kbind syscall_get_arg3 (\<lambda>unew.
     kbind syscall_get_arg4 (\<lambda>oldlen.
     kbind syscall_get_arg5 (\<lambda>newlen.
     kbind (check_buf uold oldlen PATH_MAX) (\<lambda>ok1.
     kbind (if ok1 then check_buf unew newlen PATH_MAX else kret False) (\<lambda>ok.
     if \<not> ok then kret ()
     else
       kbind (kget kframe) (\<lambda>a.
       kbind (copy_path uold a oldlen) (\<lambda>_.
       kbind (copy_path unew (a + 128) newlen) (\<lambda>new.
       kbind (kbytes a (unat PATH_MAX)) (\<lambda>old.
       kbind (kget kjunk) (\<lambda>junk.
       kbind (namei old junk) (\<lambda>r. case r of
         None \<Rightarrow> syscall_set_errno (errno E_NEXIST)
       | Some ip \<Rightarrow>
           kthen begin_trans
          (kthen (inode_lock ip)
          (kbind (get_ino ip i_type) (\<lambda>ty.
             if ty = T_DIR then
               kthen (inode_unlockput ip)
              (kthen commit_trans
                     (syscall_set_errno (errno E_DISK_OP)))
             else
               kthen (upd_ino ip (\<lambda>x. x\<lparr>i_nlink := i_nlink x + 1\<rparr>))
              (kthen (inode_update ip)
              (kthen (inode_unlock ip)
              (kbind (nameiparent new junk) (\<lambda>(dpo, name). case dpo of
                 None \<Rightarrow> sys_link_bad ip
               | Some dp \<Rightarrow>
                   kthen (inode_lock dp)
                  (kbind (get_ino dp i_dev) (\<lambda>ddev.
                   kbind (get_ino ip (\<lambda>x. x)) (\<lambda>x.
                   kbind (if ddev \<noteq> i_dev x then kret (-1) else dir_link dp name (i_inum x)) (\<lambda>r.
                     if r < 0 then kthen (inode_unlockput dp) (sys_link_bad ip)
                     else
                       kthen (inode_unlockput dp)
                      (kthen (inode_put ip)
                      (kthen commit_trans
                             (syscall_set_errno (errno E_SUCC)))))))))))))))))))))))))))"

definition isdirempty :: "nat \<Rightarrow> ('z sysl_scheme, bool) kmon" where
  "isdirempty dp =
     kbind (get_ino dp i_size) (\<lambda>sz.
     kbind (kscan 2 (dir_entries sz) (\<lambda>k.
        kbind (inode_read dp (of_nat (DIRENT_SIZE * k)) (of_nat DIRENT_SIZE)) (\<lambda>(r, bs).
        kthen (kspan 0 (length bs) DIRENT_SIZE)
       (kthen (kassert (r = int DIRENT_SIZE) ''isdirempty: readi'')
          (kret (if de_inum (dirent_of bs) \<noteq> 0 then Some () else None)))))) (\<lambda>r.
     kret (r = None)))"

definition sys_unlink_bad :: "nat \<Rightarrow> ('z sysl_scheme, unit) kmon" where
  "sys_unlink_bad dp =
     kthen (inode_unlockput dp)
    (kthen commit_trans
           (syscall_set_errno (errno E_DISK_OP)))"

definition dot :: "nat \<Rightarrow> u8" where
  "dot = (\<lambda>_. 0)(0 := 46)"

definition dotdot :: "nat \<Rightarrow> u8" where
  "dotdot = (\<lambda>_. 0)(0 := 46, 1 := 46)"

definition sys_unlink :: "('z sysl_scheme, unit) kmon" where
  "sys_unlink =
     kbind syscall_get_arg2 (\<lambda>buf.
     kbind syscall_get_arg3 (\<lambda>buflen.
     kbind (check_buf buf buflen PATH_MAX) (\<lambda>ok.
     if \<not> ok then kret ()
     else
       kbind (kget kframe) (\<lambda>a.
       kbind (copy_path buf a buflen) (\<lambda>path.
       kbind (kget kjunk) (\<lambda>junk.
       kbind (nameiparent path junk) (\<lambda>(dpo, name). case dpo of
         None \<Rightarrow> syscall_set_errno (errno E_DISK_OP)
       | Some dp \<Rightarrow>
           kthen begin_trans
          (kthen (inode_lock dp)
            (if dir_namecmp name dot = 0 \<or> dir_namecmp name dotdot = 0 then sys_unlink_bad dp
             else
               kbind (dir_lookup dp name) (\<lambda>r. case r of
                 None \<Rightarrow> sys_unlink_bad dp
               | Some (ip, off) \<Rightarrow>
                   kthen (inode_lock ip)
                  (kbind (get_ino ip (\<lambda>x. x)) (\<lambda>x.
                   kthen (kassert (\<not> sint (i_nlink x) < 1) ''unlink: nlink < 1'')
                  (kbind (if i_type x = T_DIR then isdirempty ip else kret True) (\<lambda>empty.
                     if \<not> empty then kthen (inode_unlockput ip) (sys_unlink_bad dp)
                     else
                       kbind (inode_write dp (replicate DIRENT_SIZE 0) (of_nat off) (of_nat DIRENT_SIZE)) (\<lambda>w.
                       kthen (kassert (w = int DIRENT_SIZE) ''unlink: writei'')
                      (kthen (kwhen (i_type x = T_DIR)
                          (kthen (upd_ino dp (\<lambda>x. x\<lparr>i_nlink := i_nlink x - 1\<rparr>))
                                 (inode_update dp)))
                      (kthen (inode_unlockput dp)
                      (kthen (upd_ino ip (\<lambda>x. x\<lparr>i_nlink := i_nlink x - 1\<rparr>))
                      (kthen (inode_update ip)
                      (kthen (inode_unlockput ip)
                      (kthen commit_trans
                             (syscall_set_errno (errno E_SUCC)))))))))))))))))))))))"

section \<open>Creating and opening\<close>

definition create :: "u8 list \<Rightarrow> 16 word \<Rightarrow> 16 word \<Rightarrow> 16 word \<Rightarrow> ('z sysl_scheme, nat option) kmon" where
  "create path type major minor =
     kbind (kget kjunk) (\<lambda>junk.
     kbind (nameiparent path junk) (\<lambda>(dpo, name). case dpo of
       None \<Rightarrow> kret None
     | Some dp \<Rightarrow>
         kthen (inode_lock dp)
        (kbind (dir_lookup dp name) (\<lambda>r. case r of
           Some (ip, off) \<Rightarrow>
             kthen (inode_unlockput dp)
            (kthen (inode_lock ip)
            (kbind (get_ino ip i_type) (\<lambda>ty.
               if type = T_FILE \<and> ty = T_FILE then kret (Some ip)
               else kthen (inode_unlockput ip) (kret None))))
         | None \<Rightarrow>
             kbind (get_ino dp i_dev) (\<lambda>dev.
             kbind (inode_alloc dev type) (\<lambda>ip.
             kthen (inode_lock ip)
            (kthen (upd_ino ip (\<lambda>x. x\<lparr>i_major := major, i_minor := minor, i_nlink := 1\<rparr>))
            (kthen (inode_update ip)
            (kthen (kwhen (type = T_DIR)
                (kthen (upd_ino dp (\<lambda>x. x\<lparr>i_nlink := i_nlink x + 1\<rparr>))
                (kthen (inode_update dp)
                (kbind (get_ino ip i_inum) (\<lambda>inum.
                 kbind (dir_link ip dot inum) (\<lambda>r1.
                 kthen (kassert (\<not> r1 < 0) ''create dots'')
                (kbind (get_ino dp i_inum) (\<lambda>dinum.
                 kbind (dir_link ip dotdot dinum) (\<lambda>r2.
                       kassert (\<not> r2 < 0) ''create dots'')))))))))
            (kbind (get_ino ip i_inum) (\<lambda>inum.
             kbind (dir_link dp name inum) (\<lambda>r.
             kthen (kassert (\<not> r < 0) ''create: dir_link'')
            (kthen (inode_unlockput dp)
                   (kret (Some ip)))))))))))))))"

text \<open>The second half of \<^verbatim>\<open>sys_open\<close>, with the inode locked.\<close>

definition open_file_of :: "nat \<Rightarrow> u32 \<Rightarrow> ('z sysl_scheme, unit) kmon" where
  "open_file_of ip omode =
     kbind file_alloc (\<lambda>fo.
     kbind (case fo of None \<Rightarrow> kret (-1) | Some f \<Rightarrow> fdalloc f) (\<lambda>fd.
     if fd < 0 then
       kthen (case fo of None \<Rightarrow> kret () | Some f \<Rightarrow> file_close f)
      (kthen (inode_unlockput ip)
      (kthen (syscall_set_retval1 (-1))
             (syscall_set_errno (errno E_DISK_OP))))
     else
       kthen (inode_unlock ip)
      (kthen (file_set_inode (the fo) ip (omode AND O_WRONLY = 0) (omode AND O_WRONLY \<noteq> 0 \<or> omode AND O_RDWR \<noteq> 0))
      (kthen (syscall_set_retval1 (word_of_int fd))
             (syscall_set_errno (errno E_SUCC))))))"

definition sys_open :: "('z sysl_scheme, unit) kmon" where
  "sys_open =
     kbind syscall_get_arg2 (\<lambda>buf.
     kbind syscall_get_arg4 (\<lambda>buflen.
     kbind (check_buf buf buflen PATH_MAX) (\<lambda>ok.
     if \<not> ok then kret ()
     else
       kbind (kget kframe) (\<lambda>a.
       kbind (copy_path buf a buflen) (\<lambda>path.
       kbind syscall_get_arg3 (\<lambda>omode.
       if omode AND O_CREATE \<noteq> 0 then
         kthen begin_trans
        (kbind (create path T_FILE 0 0) (\<lambda>ipo.
         kthen commit_trans
           (case ipo of
              None \<Rightarrow> kthen (syscall_set_retval1 (-1)) (syscall_set_errno (errno E_CREATE))
            | Some ip \<Rightarrow> open_file_of ip omode)))
       else
         kbind (kget kjunk) (\<lambda>junk.
         kbind (namei path junk) (\<lambda>ipo. case ipo of
           None \<Rightarrow> kthen (syscall_set_retval1 (-1)) (syscall_set_errno (errno E_NEXIST))
         | Some ip \<Rightarrow>
             kthen (inode_lock ip)
            (kbind (get_ino ip i_type) (\<lambda>ty.
               if ty = T_DIR \<and> omode \<noteq> O_RDONLY then
                 kthen (inode_unlockput ip)
                (kthen (syscall_set_retval1 (-1))
                       (syscall_set_errno (errno E_DISK_OP)))
               else open_file_of ip omode))))))))))"

definition sys_mkdir :: "('z sysl_scheme, unit) kmon" where
  "sys_mkdir =
     kbind syscall_get_arg2 (\<lambda>buf.
     kbind syscall_get_arg3 (\<lambda>buflen.
     kbind (check_buf buf buflen PATH_MAX) (\<lambda>ok.
     if \<not> ok then kret ()
     else
       kbind (kget kframe) (\<lambda>a.
       kbind (copy_path buf a buflen) (\<lambda>path.
       kthen begin_trans
      (kbind (create path T_DIR 0 0) (\<lambda>ipo. case ipo of
         None \<Rightarrow> kthen commit_trans (syscall_set_errno (errno E_DISK_OP))
       | Some ip \<Rightarrow>
           kthen (inode_unlockput ip)
          (kthen commit_trans
                 (syscall_set_errno (errno E_SUCC))))))))))"

definition sys_chdir :: "('z sysl_scheme, unit) kmon" where
  "sys_chdir =
     kbind get_curid (\<lambda>pid.
     kbind syscall_get_arg2 (\<lambda>buf.
     kbind syscall_get_arg3 (\<lambda>buflen.
     kbind (check_buf buf buflen PATH_MAX) (\<lambda>ok.
     if \<not> ok then kret ()
     else
       kbind (kget kframe) (\<lambda>a.
       kbind (copy_path buf a buflen) (\<lambda>path.
       kbind (kget kjunk) (\<lambda>junk.
       kbind (namei path junk) (\<lambda>ipo. case ipo of
         None \<Rightarrow> syscall_set_errno (errno E_DISK_OP)
       | Some ip \<Rightarrow>
           kthen (inode_lock ip)
          (kbind (get_ino ip i_type) (\<lambda>ty.
             if ty \<noteq> T_DIR then
               kthen (inode_unlockput ip) (syscall_set_errno (errno E_DISK_OP))
             else
               kthen (inode_unlock ip)
              (kbind (tcb_get_cwd pid) (\<lambda>cwd.
               kthen (case cwd of None \<Rightarrow> kstop Null | Some d \<Rightarrow> inode_put d)
              (kthen (tcb_set_cwd pid (Some ip))
                     (syscall_set_errno (errno E_SUCC)))))))))))))))"

definition sys_flock :: "('z sysl_scheme, unit) kmon" where
  "sys_flock =
     kbind get_curid (\<lambda>pid.
     kbind syscall_get_arg2 (\<lambda>fd.
     kbind syscall_get_arg3 (\<lambda>operation.
     kbind (fd_file pid fd) (\<lambda>fo. case fo of
       None \<Rightarrow> sys_fail E_BADF
     | Some f \<Rightarrow>
         kbind (file_flock f operation) (\<lambda>result.
           if result = 0 then
             kthen (syscall_set_errno (errno E_SUCC)) (syscall_set_retval1 0)
           else sys_fail E_INVAL_ADDR)))))"

end
