(* ===== verification/MemSafe.thy ===== *)
theory MemSafe
  imports SysFile Driver
begin

text \<open>
  The file system calls never access an array outside its bounds: neither the tables of the kernel, the
  wait queues and the log header, nor the block of a buffer, the block addresses of an inode, the
  transfer buffers \<^verbatim>\<open>fsbuf\<close>, the local arrays for paths, names and directory entries. The one exception is the search for
  the end of a path that the user gave without a terminator, which is the stop \<open>Unterminated\<close>
  (see theory \<open>Path\<close>). \<open>wt\<close> is a typing of the kernel's
  state: every index or pointer that the state stores designates an element of the array it is
  used for. Every operation keeps the typing and uses only indices that fit, whatever other threads do
  while it sleeps, as long as they keep the typing as well.
\<close>

section \<open>Typed states\<close>

named_theorems typed \<open>operations keep the typing\<close>

definition cpu_wt :: "nat \<Rightarrow> (nat \<Rightarrow> pcpu) \<Rightarrow> (nat \<Rightarrow> nat) \<Rightarrow> bool" where
  "cpu_wt c P I = (c < NUM_CPUS \<and> (\<forall>i < NUM_CPUS. pcpu_cpu_idx (P i) < NUM_CPUS) \<and> (\<forall>i < NUM_CPUS. I i < NUM_IDS))"

definition cont_wt :: "(nat \<Rightarrow> SContainer) \<Rightarrow> bool" where
  "cont_wt C = (\<forall>c < NUM_IDS. sint (usage (C c)) \<le> sint (quota (C c)) \<and> sint (quota (C c)) < 2147483647)"

definition tcb_wt :: "TCB \<Rightarrow> bool" where
  "tcb_wt t = (tcb_prev t \<le> NUM_IDS \<and> tcb_next t \<le> NUM_IDS \<and>
     (\<forall>fd < NOFILE. \<forall>f. tcb_openfiles t fd = Some f \<longrightarrow> f < NFILE) \<and> (\<forall>d. tcb_cwd t = Some d \<longrightarrow> d < NINODE))"

definition thr_wt :: "(nat \<Rightarrow> TCB) \<Rightarrow> (nat \<Rightarrow> TQueue) \<Rightarrow> bool" where
  "thr_wt P Q = ((\<forall>p < NUM_IDS. tcb_wt (P p)) \<and>
     (\<forall>c < NUM_IDS + NUM_CPUS. tq_head (Q c) \<le> NUM_IDS \<and> tq_tail (Q c) \<le> NUM_IDS))"

definition file_wt :: "(nat \<Rightarrow> file_t) \<Rightarrow> bool" where
  "file_wt T = (\<forall>f < NFILE. f_ip (T f) < NINODE)"

definition flk_wt :: "(nat \<Rightarrow> flock_t) \<Rightarrow> bool" where
  "flk_wt F = (\<forall>i < NINODE. wq_len (waitq (F i)) \<le> NUM_IDS)"

definition buf_wt :: "buf \<Rightarrow> bool" where
  "buf_wt x = (b_prev x \<le> NBUF \<and> b_next x \<le> NBUF \<and> (\<forall>q. b_qnext x = Some q \<longrightarrow> q \<le> NBUF))"

definition bufs_wt :: "(nat \<Rightarrow> buf) \<Rightarrow> nat option \<Rightarrow> bool" where
  "bufs_wt B q = ((\<forall>b \<le> NBUF. buf_wt (B b)) \<and> (\<forall>b. q = Some b \<longrightarrow> b \<le> NBUF))"

definition wt :: "'z ino_scheme \<Rightarrow> bool" where
  "wt s = (cpu_wt (ks_cpu_idx s) (pcpus s) (CURID s) \<and>
     VM_USERLO_PI \<le> last_palloc_index s \<and> last_palloc_index s < VM_USERHI_PI \<and> cont_wt (CONTAINER s) \<and>
     thr_wt (TCBPool s) (TQueuePool s) \<and> file_wt (ftable s) \<and> bufs_wt (bufs s) (idequeue s) \<and> lh_n s \<le> int LOGSIZE \<and>
     flk_wt (flocks s))"

text \<open>Updates of elements keep the typing of the arrays.\<close>

lemma cpu_wt_upd: "cpu_wt c P I \<Longrightarrow> p < NUM_IDS \<Longrightarrow> cpu_wt c P (I(i := p))"
  by (simp add: cpu_wt_def)

lemma thr_wt_tcb: "thr_wt P Q \<Longrightarrow> (tcb_wt (P p) \<Longrightarrow> tcb_wt t) \<Longrightarrow> p < NUM_IDS \<Longrightarrow> thr_wt (P(p := t)) Q"
  by (simp add: thr_wt_def)

lemma thr_wt_tq: "thr_wt P Q \<Longrightarrow> tq_head q \<le> NUM_IDS \<Longrightarrow> tq_tail q \<le> NUM_IDS \<Longrightarrow> thr_wt P (Q(c := q))"
  by (simp add: thr_wt_def)

lemma thr_wtD:
  "thr_wt P Q \<Longrightarrow> p < NUM_IDS \<Longrightarrow> tcb_wt (P p)"
  "thr_wt P Q \<Longrightarrow> c < NUM_IDS + NUM_CPUS \<Longrightarrow> tq_head (Q c) \<le> NUM_IDS \<and> tq_tail (Q c) \<le> NUM_IDS"
  by (simp_all add: thr_wt_def)

lemma file_wt_upd: "file_wt T \<Longrightarrow> (f_ip (T f) < NINODE \<Longrightarrow> f_ip x < NINODE) \<Longrightarrow> f < NFILE \<Longrightarrow> file_wt (T(f := x))"
  by (simp add: file_wt_def)

lemma bufs_wt_upd: "bufs_wt B q \<Longrightarrow> (buf_wt (B b) \<Longrightarrow> buf_wt x) \<Longrightarrow> b \<le> NBUF \<Longrightarrow> bufs_wt (B(b := x)) q"
  by (simp add: bufs_wt_def)

lemma bufs_wtD: "bufs_wt B q \<Longrightarrow> b \<le> NBUF \<Longrightarrow> buf_wt (B b)" "bufs_wt B (Some b) \<Longrightarrow> b \<le> NBUF"
  by (simp_all add: bufs_wt_def)

lemma cont_wt_upd: "cont_wt C \<Longrightarrow> sint (usage x) \<le> sint (quota x) \<and> sint (quota x) < 2147483647 \<Longrightarrow> cont_wt (C(c := x))"
  by (simp add: cont_wt_def)

text \<open>Updates of the state.\<close>

lemma wt_frame [simp]:
  "wt (s\<lparr>locks := a\<rparr>) = wt s" "wt (s\<lparr>AT := b\<rparr>) = wt s" "wt (s\<lparr>PDirPool := c\<rparr>) = wt s" "wt (s\<lparr>phys_mem := d\<rparr>) = wt s"
  "wt (s\<lparr>kctx_pool := e\<rparr>) = wt s" "wt (s\<lparr>cpu_regs := f\<rparr>) = wt s" "wt (s\<lparr>ports := h\<rparr>) = wt s"
  "wt (s\<lparr>ide_req := i\<rparr>) = wt s" "wt (s\<lparr>log_busy := j\<rparr>) = wt s" "wt (s\<lparr>lh_sector := k\<rparr>) = wt s" "wt (s\<lparr>inodes := l\<rparr>) = wt s"
  "wt (t\<lparr>tf := m\<rparr>) = wt t"
  by (simp_all add: wt_def)

lemma wt_upd [typed, simp]:
  "wt s \<Longrightarrow> p < NUM_IDS \<Longrightarrow> wt (s\<lparr>CURID := (CURID s)(i := p)\<rparr>)"
  "wt s \<Longrightarrow> p < NUM_IDS \<Longrightarrow> (tcb_wt (TCBPool s p) \<Longrightarrow> tcb_wt x) \<Longrightarrow> wt (s\<lparr>TCBPool := (TCBPool s)(p := x)\<rparr>)"
  "wt s \<Longrightarrow> tq_head q \<le> NUM_IDS \<Longrightarrow> tq_tail q \<le> NUM_IDS \<Longrightarrow> wt (s\<lparr>TQueuePool := (TQueuePool s)(c := q)\<rparr>)"
  "wt s \<Longrightarrow> f < NFILE \<Longrightarrow> (f_ip (ftable s f) < NINODE \<Longrightarrow> f_ip y < NINODE) \<Longrightarrow> wt (s\<lparr>ftable := (ftable s)(f := y)\<rparr>)"
  "wt s \<Longrightarrow> b \<le> NBUF \<Longrightarrow> (buf_wt (bufs s b) \<Longrightarrow> buf_wt z) \<Longrightarrow> wt (s\<lparr>bufs := (bufs s)(b := z)\<rparr>)"
  "wt s \<Longrightarrow> b \<le> NBUF \<Longrightarrow> wt (s\<lparr>idequeue := Some b\<rparr>)"
  "wt s \<Longrightarrow> sint (usage u) \<le> sint (quota u) \<Longrightarrow> sint (quota u) < 2147483647 \<Longrightarrow> wt (s\<lparr>CONTAINER := (CONTAINER s)(k := u)\<rparr>)"
  "wt s \<Longrightarrow> VM_USERLO_PI \<le> n \<Longrightarrow> n < VM_USERHI_PI \<Longrightarrow> wt (s\<lparr>last_palloc_index := n\<rparr>)"
  "wt s \<Longrightarrow> m \<le> int LOGSIZE \<Longrightarrow> wt (s\<lparr>lh_n := m\<rparr>)"
  "wt s \<Longrightarrow> wq_len (waitq v) \<le> NUM_IDS \<Longrightarrow> wt (s\<lparr>flocks := (flocks s)(i := v)\<rparr>)"
  by (simp_all add: wt_def cpu_wt_upd thr_wt_tcb thr_wt_tq file_wt_upd bufs_wt_upd cont_wt_upd) (simp_all add: bufs_wt_def flk_wt_def)

lemma wtD:
  assumes "wt s"
  shows "ks_cpu_idx s < NUM_CPUS" "i < NUM_CPUS \<Longrightarrow> pcpu_cpu_idx (pcpus s i) < NUM_CPUS" "i < NUM_CPUS \<Longrightarrow> CURID s i < NUM_IDS"
    "p < NUM_IDS \<Longrightarrow> tcb_wt (TCBPool s p)" "c < NUM_IDS + NUM_CPUS \<Longrightarrow> tq_head (TQueuePool s c) \<le> NUM_IDS"
    "c < NUM_IDS + NUM_CPUS \<Longrightarrow> tq_tail (TQueuePool s c) \<le> NUM_IDS" "f < NFILE \<Longrightarrow> f_ip (ftable s f) < NINODE"
    "b \<le> NBUF \<Longrightarrow> buf_wt (bufs s b)" "idequeue s = Some b \<Longrightarrow> b \<le> NBUF"
    "k < NUM_IDS \<Longrightarrow> sint (usage (CONTAINER s k)) \<le> sint (quota (CONTAINER s k))"
    "k < NUM_IDS \<Longrightarrow> sint (quota (CONTAINER s k)) < 2147483647"
    "VM_USERLO_PI \<le> last_palloc_index s" "last_palloc_index s < VM_USERHI_PI" "lh_n s \<le> int LOGSIZE"
    "i < NINODE \<Longrightarrow> wq_len (waitq (flocks s i)) \<le> NUM_IDS"
  using assms by (simp_all add: wt_def flk_wt_def cpu_wt_def thr_wt_def file_wt_def bufs_wt_def cont_wt_def)

section \<open>Locks and processors\<close>

lemma guarded_raw [kguard]:
  "guarded I (xchg_lock l v) s Q = Q (lock (locks s l)) (s\<lparr>locks := (locks s)(l := (locks s l)\<lparr>lock := v\<rparr>)\<rparr>)"
  by (simp add: guarded_def xchg_lock_def)

lemma typed_locks [typed]:
  "wt s \<Longrightarrow> (\<And>t. wt t \<Longrightarrow> Q () t) \<Longrightarrow> guarded wt (spinlock_acquire l) s Q"
  "wt s \<Longrightarrow> (\<And>t. wt t \<Longrightarrow> Q () t) \<Longrightarrow> guarded wt (spinlock_release l) s Q"
  "wt s \<Longrightarrow> (\<And>t. wt t \<Longrightarrow> Q () t) \<Longrightarrow> guarded wt (spinlock_init l) s Q"
  by (simp_all add: spinlock_acquire_def spinlock_release_def spinlock_init_def assert_kstack_def set_lock_holder_def kguard)

lemma typed_pcpu_idx [typed]: "wt s \<Longrightarrow> (\<And>c. c < NUM_CPUS \<Longrightarrow> Q c s) \<Longrightarrow> guarded wt get_pcpu_idx s Q"
  by (simp add: get_pcpu_idx_def pcpu_cur_def get_pcpu_def kguard wtD)

lemma typed_curid [typed]: "wt s \<Longrightarrow> (\<And>p. p < NUM_IDS \<Longrightarrow> Q p s) \<Longrightarrow> guarded wt get_curid s Q"
  by (auto simp: get_curid_def kguard wtD intro!: typed)

lemma typed_set_curid [typed]:
  "wt s \<Longrightarrow> p < NUM_IDS \<Longrightarrow> (\<And>t. wt t \<Longrightarrow> Q () t) \<Longrightarrow> guarded wt (set_curid p) s Q"
  unfolding set_curid_def
  by (intro typed guardedI) auto

section \<open>Threads\<close>

lemma NUM_CPUS_pos [simp]: "0 < NUM_CPUS"
  by (simp add: NUM_CPUS_def)

lemma typed_tcb [typed]:
  "wt s \<Longrightarrow> p < NUM_IDS \<Longrightarrow> (tcb_wt (TCBPool s p) \<Longrightarrow> Q (g (TCBPool s p)) s) \<Longrightarrow> guarded wt (get_tcb p g) s Q"
  "wt s \<Longrightarrow> p < NUM_IDS \<Longrightarrow> (tcb_wt (TCBPool s p) \<Longrightarrow> tcb_wt (h (TCBPool s p))) \<Longrightarrow> (\<And>t. wt t \<Longrightarrow> Q' () t) \<Longrightarrow>
     guarded wt (upd_tcb p h) s Q'"
  by (simp_all add: get_tcb_def upd_tcb_def kguard wtD)

lemma typed_tq [typed]:
  "wt s \<Longrightarrow> c < NUM_IDS + NUM_CPUS \<Longrightarrow> (\<And>q. tq_head q \<le> NUM_IDS \<Longrightarrow> tq_tail q \<le> NUM_IDS \<Longrightarrow> Q (g q) s) \<Longrightarrow> guarded wt (get_tq c g) s Q"
  "wt s \<Longrightarrow> c < NUM_IDS + NUM_CPUS \<Longrightarrow>
     (\<And>q. tq_head q \<le> NUM_IDS \<Longrightarrow> tq_head (h q) \<le> NUM_IDS) \<Longrightarrow> (\<And>q. tq_tail q \<le> NUM_IDS \<Longrightarrow> tq_tail (h q) \<le> NUM_IDS) \<Longrightarrow>
     (\<And>t. wt t \<Longrightarrow> Q' () t) \<Longrightarrow> guarded wt (upd_tq c h) s Q'"
  by (simp_all add: get_tq_def upd_tq_def kguard wtD wt_upd)

lemma typed_enqueue [typed]:
  "wt s \<Longrightarrow> c < NUM_IDS + NUM_CPUS \<Longrightarrow> p < NUM_IDS \<Longrightarrow> (\<And>t. wt t \<Longrightarrow> Q () t) \<Longrightarrow> guarded wt (tqueue_enqueue c p) s Q"
  unfolding tqueue_enqueue_def tqueue_get_tail_def tqueue_set_head_def tqueue_set_tail_def tcb_set_prev_def tcb_set_next_def
  by (intro typed guardedI) (auto simp: tcb_wt_def)

lemma typed_dequeue [typed]:
  "wt s \<Longrightarrow> c < NUM_IDS + NUM_CPUS \<Longrightarrow> (\<And>p t. wt t \<Longrightarrow> p \<le> NUM_IDS \<Longrightarrow> Q p t) \<Longrightarrow> guarded wt (tqueue_dequeue c) s Q"
  unfolding tqueue_dequeue_def tqueue_get_head_def tqueue_set_head_def tqueue_set_tail_def tcb_get_next_def tcb_set_prev_def tcb_set_next_def
  by (intro typed guardedI) (auto simp: tcb_wt_def)

lemma typed_switch [typed]:
  "wt s \<Longrightarrow> p < NUM_IDS \<Longrightarrow> q < NUM_IDS \<Longrightarrow> (\<And>t. wt t \<Longrightarrow> Q () t) \<Longrightarrow> guarded wt (kctx_switch p q) s Q"
  by (simp add: kctx_switch_def cswitch_def kguard Let_def)

lemma typed_sleep [typed]:
  "wt s \<Longrightarrow> (\<And>t. wt t \<Longrightarrow> Q () t) \<Longrightarrow> guarded wt (thread_sleep c (Some l)) s Q"
  unfolding thread_sleep_def sleep_tail_def tcb_set_chan_def tcb_set_state_def
  by (intro typed guardedI) (auto simp: tcb_wt_def le_less)

lemma typed_wakeup [typed]:
  "wt s \<Longrightarrow> (\<And>t. wt t \<Longrightarrow> Q () t) \<Longrightarrow> guarded wt (thread_wakeup c) s Q"
  unfolding thread_wakeup_def tcb_get_chan_def tcb_set_state_def
  by (intro typed guardedI guarded_kfor) (auto simp: tcb_wt_def)

section \<open>Memory\<close>

lemma sint_plus_1:
  assumes "sint (u :: u32) < 2147483647"
  shows "sint (u + 1) = sint u + 1"
proof -
  have "- (2 ^ 31) \<le> sint u" using sint_greater_eq [of u] by simp
  with assms have "signed_take_bit 31 (sint u + 1) = sint u + 1" by (intro signed_take_bit_int_eq_self) simp_all
  moreover have "sint (word_of_int (sint u + 1) :: u32) = signed_take_bit 31 (sint u + 1)" by (simp only: signed_of_int) simp
  ultimately show ?thesis by simp
qed

lemma palloc_scan_range:
  assumes "VM_USERLO_PI \<le> start" "start < VM_USERHI_PI" and "palloc_scan tbl nps start = Some r"
  shows "r = nps \<or> VM_USERLO_PI \<le> r \<and> r < VM_USERHI_PI"
proof -
  let ?P = "\<lambda>(i, free, first :: bool). (VM_USERLO_PI \<le> i \<and> i < VM_USERHI_PI) \<and> (free = nps \<or> VM_USERLO_PI \<le> free \<and> free < VM_USERHI_PI)"
  obtain i first where w: "while_option (palloc_cond nps start) (palloc_body tbl) (start, nps, True) = Some (i, r, first)"
    using assms(3) by (auto simp: palloc_scan_def)
  have "?P (i, r, first)"
    by (rule while_option_rule [where P = ?P, OF _ w]) (use assms in \<open>auto simp: palloc_body_def kconst\<close>)
  then show ?thesis by simp
qed

lemma wt_palloc_scan:
  "wt s \<Longrightarrow> palloc_scan (AT s) (NUM_PAGES s) (last_palloc_index s) = Some r \<Longrightarrow> r \<noteq> NUM_PAGES s \<Longrightarrow> VM_USERLO_PI \<le> r \<and> r < VM_USERHI_PI"
  using palloc_scan_range [of "last_palloc_index s" "AT s" "NUM_PAGES s" r] by (simp add: wtD)

lemma user_pages: "i < VM_USERHI_PI \<Longrightarrow> i < AT_SIZE" "VM_USERLO_PI < VM_USERHI_PI"
  by (simp_all add: kconst AT_SIZE_def)

lemma typed_palloc [typed]: "wt s \<Longrightarrow> (\<And>p t. wt t \<Longrightarrow> Q p t) \<Longrightarrow> guarded wt palloc s Q"
  unfolding palloc_def mem_lock_def mem_unlock_def get_nps_def at_set_allocated_def
  by (intro typed guardedI) (auto simp: user_pages wtD dest: wt_palloc_scan)

lemma wt_usage: "wt s \<Longrightarrow> c < NUM_IDS \<Longrightarrow> sint (usage (CONTAINER s c)) < 2147483647"
  by (rule le_less_trans [OF wtD(10) wtD(11)])

lemma typed_container_alloc [typed]:
  "wt s \<Longrightarrow> c < NUM_IDS \<Longrightarrow> (\<And>p t. wt t \<Longrightarrow> Q p t) \<Longrightarrow> guarded wt (container_alloc c) s Q"
  unfolding container_alloc_def get_container_def upd_container_def
  by (intro typed guardedI) (auto simp: sint_plus_1 wt_usage wtD(11))

lemma typed_paging [typed]:
  "wt s \<Longrightarrow> p < NUM_IDS \<Longrightarrow> d < 1024 \<Longrightarrow> (\<And>v. Q v s) \<Longrightarrow> guarded wt (get_pdir_entry p d) s Q"
  "wt s \<Longrightarrow> p < NUM_IDS \<Longrightarrow> d < 1024 \<Longrightarrow> (\<And>t. wt t \<Longrightarrow> Q' () t) \<Longrightarrow> guarded wt (put_pdir_entry p d v) s Q'"
  by (simp_all add: get_pdir_entry_def put_pdir_entry_def kguard)

lemma typed_ptbl [typed]:
  "wt s \<Longrightarrow> p < NUM_IDS \<Longrightarrow> d < 1024 \<Longrightarrow> (\<And>v t. wt t \<Longrightarrow> Q v t) \<Longrightarrow> guarded wt (ptbl_slot p d e) s Q"
  unfolding ptbl_slot_def
  by (intro typed guardedI) auto

lemma typed_alloc_ptbl [typed]:
  "wt s \<Longrightarrow> p < NUM_IDS \<Longrightarrow> (\<And>v t. wt t \<Longrightarrow> Q v t) \<Longrightarrow> guarded wt (alloc_ptbl p va) s Q"
  unfolding alloc_ptbl_def set_pdir_entry_by_va_def set_pdir_entry_def rmv_ptbl_entry_def kstore32_def
  by (intro typed guardedI guarded_kfor) auto

lemma typed_entry_by_va [typed]:
  "wt s \<Longrightarrow> p < NUM_IDS \<Longrightarrow> (\<And>v t. wt t \<Longrightarrow> Q v t) \<Longrightarrow> guarded wt (get_ptbl_entry_by_va p va) s Q"
  unfolding get_ptbl_entry_by_va_def get_ptbl_entry_def kload32_def
  by (intro typed guardedI) auto

lemma typed_alloc_page [typed]:
  "wt s \<Longrightarrow> p < NUM_IDS \<Longrightarrow> (\<And>v t. wt t \<Longrightarrow> Q v t) \<Longrightarrow> guarded wt (alloc_page p va prm) s Q"
  unfolding alloc_page_def map_page_def get_pdir_entry_by_va_def set_ptbl_entry_by_va_def set_ptbl_entry_def kstore32_def
  by (intro typed guardedI) auto

lemma typed_present_entry [typed]:
  "wt s \<Longrightarrow> p < NUM_IDS \<Longrightarrow> (\<And>v t. wt t \<Longrightarrow> Q v t) \<Longrightarrow> guarded wt (present_entry p va) s Q"
  unfolding present_entry_def
  by (intro typed guardedI) auto

lemma typed_copyin [typed]:
  "wt s \<Longrightarrow> p < NUM_IDS \<Longrightarrow> (\<And>v t. wt t \<Longrightarrow> Q v t) \<Longrightarrow> guarded wt (pt_copyin p va kva len) s Q"
proof -
  have "wt s \<Longrightarrow> p < NUM_IDS \<Longrightarrow> (\<And>v t. wt t \<Longrightarrow> Q v t) \<Longrightarrow> guarded wt (pt_copyin_loop p va kva len n) s Q" for n
    by (induction p va kva len n arbitrary: s rule: pt_copyin_loop.induct)
      (subst pt_copyin_loop.simps, auto simp: kguard kmemcpy_def Let_def intro!: typed)
  then show "wt s \<Longrightarrow> p < NUM_IDS \<Longrightarrow> (\<And>v t. wt t \<Longrightarrow> Q v t) \<Longrightarrow> guarded wt (pt_copyin p va kva len) s Q"
    by (simp add: pt_copyin_def kguard)
qed

lemma typed_copyout [typed]:
  "wt s \<Longrightarrow> p < NUM_IDS \<Longrightarrow> (\<And>v t. wt t \<Longrightarrow> Q v t) \<Longrightarrow> guarded wt (pt_copyout kva p va len) s Q"
proof -
  have "wt s \<Longrightarrow> p < NUM_IDS \<Longrightarrow> (\<And>v t. wt t \<Longrightarrow> Q v t) \<Longrightarrow> guarded wt (pt_copyout_loop kva p va len n) s Q" for n
    by (induction kva p va len n arbitrary: s rule: pt_copyout_loop.induct)
      (subst pt_copyout_loop.simps, auto simp: kguard kmemcpy_def Let_def intro!: typed)
  then show "wt s \<Longrightarrow> p < NUM_IDS \<Longrightarrow> (\<And>v t. wt t \<Longrightarrow> Q v t) \<Longrightarrow> guarded wt (pt_copyout kva p va len) s Q"
    by (simp add: pt_copyout_def kguard)
qed

section \<open>File locks and open files\<close>

lemma typed_fl [typed]:
  "wt s \<Longrightarrow> i < NINODE \<Longrightarrow> (wq_len (waitq (flocks s i)) \<le> NUM_IDS \<Longrightarrow> Q (g (flocks s i)) s) \<Longrightarrow> guarded wt (get_fl i g) s Q"
  "wt s \<Longrightarrow> i < NINODE \<Longrightarrow> (wq_len (waitq (flocks s i)) \<le> NUM_IDS \<Longrightarrow> wq_len (waitq (h (flocks s i))) \<le> NUM_IDS) \<Longrightarrow>
     (\<And>t. wt t \<Longrightarrow> Q' () t) \<Longrightarrow> guarded wt (upd_fl i h) s Q'"
  by (simp_all add: get_fl_def upd_fl_def kguard wtD wt_upd)

lemma typed_file [typed]:
  "wt s \<Longrightarrow> f < NFILE \<Longrightarrow> (f_ip (ftable s f) < NINODE \<Longrightarrow> Q (g (ftable s f)) s) \<Longrightarrow> guarded wt (get_file f g) s Q"
  "wt s \<Longrightarrow> f < NFILE \<Longrightarrow> (f_ip (ftable s f) < NINODE \<Longrightarrow> f_ip (h (ftable s f)) < NINODE) \<Longrightarrow> (\<And>t. wt t \<Longrightarrow> Q' () t) \<Longrightarrow>
     guarded wt (upd_file f h) s Q'"
  by (simp_all add: get_file_def upd_file_def kguard wtD wt_upd)

lemma typed_waitq_add [typed]:
  "wt s \<Longrightarrow> i < NINODE \<Longrightarrow> (\<And>t. wt t \<Longrightarrow> Q () t) \<Longrightarrow> guarded wt (waitq_add i p r) s Q"
  unfolding waitq_add_def
  by (intro typed guardedI) auto

lemma waitq_scan_len: "waitq_scan i pids len pid = (pids', len') \<Longrightarrow> len' \<le> len"
  by (induction i pids len pid rule: waitq_scan.induct) (subst (asm) waitq_scan.simps, auto split: if_splits)

lemma typed_waitq_remove [typed]:
  "wt s \<Longrightarrow> i < NINODE \<Longrightarrow> (\<And>t. wt t \<Longrightarrow> Q () t) \<Longrightarrow> guarded wt (waitq_remove i p) s Q"
  unfolding waitq_remove_def
  by (intro typed guardedI) (auto split: prod.split dest: waitq_scan_len)

lemma typed_wait_while [typed]:
  "wt s \<Longrightarrow> i < NINODE \<Longrightarrow> (\<And>t. wt t \<Longrightarrow> Q () t) \<Longrightarrow> guarded wt (wait_while i b) s Q"
  unfolding wait_while_def by (rule guarded_kloop [where P = "\<lambda>_. True"]) (auto simp: kguard intro!: typed)

lemma typed_flock_acquire [typed]:
  "wt s \<Longrightarrow> i < NINODE \<Longrightarrow> (\<And>r t. wt t \<Longrightarrow> Q r t) \<Longrightarrow> guarded wt (flock_acquire i op) s Q"
  unfolding flock_acquire_def try_acquire_shared_def try_acquire_exclusive_def grant_shared_def grant_exclusive_def await_shared_def await_exclusive_def
  by (intro typed guardedI) auto

lemma typed_flock_release [typed]:
  "wt s \<Longrightarrow> i < NINODE \<Longrightarrow> (\<And>r t. wt t \<Longrightarrow> Q r t) \<Longrightarrow> guarded wt (flock_release i op) s Q"
  unfolding flock_release_def
  by (intro typed guardedI) auto

lemma typed_flock_init [typed]:
  "wt s \<Longrightarrow> i < NINODE \<Longrightarrow> (\<And>t. wt t \<Longrightarrow> Q () t) \<Longrightarrow> guarded wt (flock_init i) s Q"
  unfolding flock_init_def
  by (intro typed guardedI) auto

lemma typed_file_flock [typed]:
  "wt s \<Longrightarrow> f < NFILE \<Longrightarrow> (\<And>r t. wt t \<Longrightarrow> Q r t) \<Longrightarrow> guarded wt (file_flock f op) s Q"
  unfolding file_flock_def
  by (intro typed guardedI) auto

lemma typed_file_alloc [typed]:
  "wt s \<Longrightarrow> (\<And>r t. wt t \<Longrightarrow> (\<And>f. r = Some f \<Longrightarrow> f < NFILE) \<Longrightarrow> Q r t) \<Longrightarrow> guarded wt file_alloc s Q"
  unfolding file_alloc_def
  by (intro typed guardedI guarded_kscan [where P = "\<lambda>f. f < NFILE"]) auto

lemma typed_file_close_locks [typed]:
  "wt s \<Longrightarrow> f < NFILE \<Longrightarrow> (\<And>r t. wt t \<Longrightarrow> (\<And>i. r = Some i \<Longrightarrow> i < NINODE) \<Longrightarrow> Q r t) \<Longrightarrow> guarded wt (file_close_locks f) s Q"
  unfolding file_close_locks_def
  by (intro typed guardedI) auto

section \<open>Buffers\<close>


lemma buf_wt_simps [simp]:
  "buf_wt (x\<lparr>b_flags := a\<rparr>) = buf_wt x" "buf_wt (x\<lparr>b_dev := d\<rparr>) = buf_wt x" "buf_wt (x\<lparr>b_sector := e\<rparr>) = buf_wt x"
  "buf_wt (x\<lparr>b_data := y\<rparr>) = buf_wt x" "buf_wt x \<Longrightarrow> p \<le> NBUF \<Longrightarrow> buf_wt (x\<lparr>b_prev := p\<rparr>)"
  "buf_wt x \<Longrightarrow> p \<le> NBUF \<Longrightarrow> buf_wt (x\<lparr>b_next := p\<rparr>)" "buf_wt x \<Longrightarrow> buf_wt (x\<lparr>b_qnext := None\<rparr>)"
  "buf_wt x \<Longrightarrow> p \<le> NBUF \<Longrightarrow> buf_wt (x\<lparr>b_qnext := Some p\<rparr>)" "buf_wt x \<Longrightarrow> b_prev x \<le> NBUF" "buf_wt x \<Longrightarrow> b_next x \<le> NBUF"
  by (simp_all add: buf_wt_def)

lemma typed_buf [typed]:
  "wt s \<Longrightarrow> b \<le> NBUF \<Longrightarrow> (buf_wt (bufs s b) \<Longrightarrow> Q (g (bufs s b)) s) \<Longrightarrow> guarded wt (get_buf b g) s Q"
  "wt s \<Longrightarrow> b \<le> NBUF \<Longrightarrow> (buf_wt (bufs s b) \<Longrightarrow> buf_wt (h (bufs s b))) \<Longrightarrow> (\<And>t. wt t \<Longrightarrow> Q' () t) \<Longrightarrow>
     guarded wt (upd_buf b h) s Q'"
  by (simp_all add: get_buf_def upd_buf_def kguard wtD wt_upd)

lemma typed_found [typed]: "(\<And>x. r = Some x \<Longrightarrow> Q x s) \<Longrightarrow> guarded wt (kfound r) s Q"
  by (simp add: kfound_def kguard split: option.splits)

lemma typed_ide_start [typed]:
  "wt s \<Longrightarrow> (\<And>b. q = Some b \<Longrightarrow> b \<le> NBUF) \<Longrightarrow> (\<And>t. wt t \<Longrightarrow> Q () t) \<Longrightarrow> guarded wt (ide_start q) s Q"
  by (cases q) (auto simp: ide_start_def ide_wait_def ide_inb_def outb_def ide_outsl_def kguard intro!: typed)

lemma ide_last_range:
  assumes "ide_last B b = Some c" and "\<forall>b \<le> NBUF. buf_wt (B b)" and "b \<le> NBUF"
  shows "c \<le> NBUF"
proof -
  let ?Q = "\<lambda>B b c. (\<forall>b \<le> NBUF. buf_wt (B b)) \<longrightarrow> b \<le> NBUF \<longrightarrow> c \<le> NBUF"
  have "?Q B b c"
  proof (rule ide_last.raw_induct [where P = ?Q, OF _ assms(1)])
    fix rec B b c assume ih: "\<And>B b c. rec B b = Some c \<Longrightarrow> ?Q B b c" and eq: "(case b_qnext (B b) of None \<Rightarrow> Some b | Some c \<Rightarrow> rec B c) = Some c"
    show "?Q B b c"
    proof (cases "b_qnext (B b)")
      case (Some d)
      then have "?Q B d c" using ih eq by simp
      then show ?thesis using Some by (meson buf_wt_def)
    qed (use eq in simp)
  qed
  with assms(2,3) show ?thesis by blast
qed

lemma find_range_step:
  assumes "\<And>P B b r. rec P B b = Some r \<Longrightarrow> (\<forall>b \<le> NBUF. buf_wt (B b)) \<longrightarrow> b \<le> NBUF \<longrightarrow> (\<forall>c. r = Some c \<longrightarrow> c \<le> NBUF)"
    and "(if b = NBUF then Some None else if P (B b) then Some (Some b) else rec P B (g (B b))) = Some r"
    and "\<And>x. buf_wt x \<Longrightarrow> g x \<le> NBUF"
  shows "(\<forall>b \<le> NBUF. buf_wt (B b)) \<longrightarrow> b \<le> NBUF \<longrightarrow> (\<forall>c. r = Some c \<longrightarrow> c \<le> NBUF)"
proof (intro impI allI)
  fix c assume wt: "\<forall>b \<le> NBUF. buf_wt (B b)" "b \<le> NBUF" and r: "r = Some c"
  show "c \<le> NBUF"
  proof (cases "b = NBUF \<or> P (B b)")
    case True
    then show ?thesis using assms(2) r wt(2) by (auto split: if_splits)
  next
    case False
    then have "rec P B (g (B b)) = Some r" using assms(2) by simp
    from assms(1) [OF this] wt r assms(3) show ?thesis by blast
  qed
qed

lemma find_next_range:
  assumes "find_next P B b = Some (Some c)" and "\<forall>b \<le> NBUF. buf_wt (B b)" and "b \<le> NBUF"
  shows "c \<le> NBUF"
proof -
  let ?Q = "\<lambda>((P :: buf \<Rightarrow> bool, B), b) r. (\<forall>b \<le> NBUF. buf_wt (B b)) \<longrightarrow> b \<le> NBUF \<longrightarrow> (\<forall>c. r = Some c \<longrightarrow> c \<le> NBUF)"
  have "?Q ((P, B), b) (Some c)"
  proof (rule find_next.raw_induct [where Pa = ?Q, OF _ assms(1)], unfold prod.case)
    fix rec P B b r assume ih: "\<And>P B b r. rec P B b = Some r \<Longrightarrow> (\<forall>b \<le> NBUF. buf_wt (B b)) \<longrightarrow> b \<le> NBUF \<longrightarrow> (\<forall>c. r = Some c \<longrightarrow> c \<le> NBUF)"
      and eq: "(if b = NBUF then Some None else if P (B b) then Some (Some b) else rec P B (b_next (B b))) = Some r"
    show "(\<forall>b \<le> NBUF. buf_wt (B b)) \<longrightarrow> b \<le> NBUF \<longrightarrow> (\<forall>c. r = Some c \<longrightarrow> c \<le> NBUF)"
      by (rule find_range_step [where g = b_next and rec = rec and P = P and B = B and b = b, OF ih eq]) simp_all
  qed
  with assms(2,3) show ?thesis by simp
qed

lemma find_prev_range:
  assumes "find_prev P B b = Some (Some c)" and "\<forall>b \<le> NBUF. buf_wt (B b)" and "b \<le> NBUF"
  shows "c \<le> NBUF"
proof -
  let ?Q = "\<lambda>((P :: buf \<Rightarrow> bool, B), b) r. (\<forall>b \<le> NBUF. buf_wt (B b)) \<longrightarrow> b \<le> NBUF \<longrightarrow> (\<forall>c. r = Some c \<longrightarrow> c \<le> NBUF)"
  have "?Q ((P, B), b) (Some c)"
  proof (rule find_prev.raw_induct [where Pa = ?Q, OF _ assms(1)], unfold prod.case)
    fix rec P B b r assume ih: "\<And>P B b r. rec P B b = Some r \<Longrightarrow> (\<forall>b \<le> NBUF. buf_wt (B b)) \<longrightarrow> b \<le> NBUF \<longrightarrow> (\<forall>c. r = Some c \<longrightarrow> c \<le> NBUF)"
      and eq: "(if b = NBUF then Some None else if P (B b) then Some (Some b) else rec P B (b_prev (B b))) = Some r"
    show "(\<forall>b \<le> NBUF. buf_wt (B b)) \<longrightarrow> b \<le> NBUF \<longrightarrow> (\<forall>c. r = Some c \<longrightarrow> c \<le> NBUF)"
      by (rule find_range_step [where g = b_prev and rec = rec and P = P and B = B and b = b, OF ih eq]) simp_all
  qed
  with assms(2,3) show ?thesis by simp
qed

lemma wt_find:
  assumes "wt s"
  shows "find_next P (bufs s) (b_next (bufs s NBUF)) = Some (Some c) \<Longrightarrow> c \<le> NBUF"
    and "find_prev P (bufs s) (b_prev (bufs s NBUF)) = Some (Some c) \<Longrightarrow> c \<le> NBUF"
    and "ide_last (bufs s) b = Some c \<Longrightarrow> idequeue s = Some b \<Longrightarrow> c \<le> NBUF"
proof -
  have B: "\<forall>b \<le> NBUF. buf_wt (bufs s b)" using wtD(8) [OF assms] by blast
  then have h: "b_next (bufs s NBUF) \<le> NBUF" "b_prev (bufs s NBUF) \<le> NBUF" by simp_all
  show "find_next P (bufs s) (b_next (bufs s NBUF)) = Some (Some c) \<Longrightarrow> c \<le> NBUF" by (rule find_next_range [OF _ B h(1)])
  show "find_prev P (bufs s) (b_prev (bufs s NBUF)) = Some (Some c) \<Longrightarrow> c \<le> NBUF" by (rule find_prev_range [OF _ B h(2)])
  show "ide_last (bufs s) b = Some c \<Longrightarrow> idequeue s = Some b \<Longrightarrow> c \<le> NBUF" by (erule ide_last_range [OF _ B]) (rule wtD(9) [OF assms])
qed

lemma typed_ide_append [typed]:
  "wt s \<Longrightarrow> b \<le> NBUF \<Longrightarrow> (\<And>t. wt t \<Longrightarrow> Q () t) \<Longrightarrow> guarded wt (ide_append b) s Q"
  unfolding ide_append_def
  by (intro typed guardedI) (auto simp: wt_upd dest: wt_find)

lemma typed_ide_rw [typed]:
  "wt s \<Longrightarrow> b \<le> NBUF \<Longrightarrow> (\<And>t. wt t \<Longrightarrow> Q () t) \<Longrightarrow> guarded wt (ide_rw b) s Q"
  unfolding ide_rw_def
  by (intro typed guardedI guarded_kloop [where P = "\<lambda>_. True"]) auto



lemma typed_bufcache_get [typed]:
  "wt s \<Longrightarrow> (\<And>b t. wt t \<Longrightarrow> b \<le> NBUF \<Longrightarrow> Q b t) \<Longrightarrow> guarded wt (bufcache_get dev sec) s Q"
  unfolding bufcache_get_def bufcache_recycle_def
  by (intro typed guardedI guarded_kloop [where P = "\<lambda>b. b \<le> NBUF"]) (auto dest: wt_find)

lemma typed_bufcache_read [typed]:
  "wt s \<Longrightarrow> (\<And>b t. wt t \<Longrightarrow> b \<le> NBUF \<Longrightarrow> Q b t) \<Longrightarrow> guarded wt (bufcache_read dev sec) s Q"
  unfolding bufcache_read_def
  by (intro typed guardedI) auto

lemma typed_bufcache_write [typed]:
  "wt s \<Longrightarrow> b \<le> NBUF \<Longrightarrow> (\<And>t. wt t \<Longrightarrow> Q () t) \<Longrightarrow> guarded wt (bufcache_write b) s Q"
  unfolding bufcache_write_def
  by (intro typed guardedI) auto

lemma typed_move_to_front [typed]:
  "wt s \<Longrightarrow> b \<le> NBUF \<Longrightarrow> (\<And>t. wt t \<Longrightarrow> Q () t) \<Longrightarrow> guarded wt (move_to_front b) s Q"
  unfolding move_to_front_def
  by (intro typed guardedI) auto

lemma typed_bufcache_release [typed]:
  "wt s \<Longrightarrow> b \<le> NBUF \<Longrightarrow> (\<And>t. wt t \<Longrightarrow> Q () t) \<Longrightarrow> guarded wt (bufcache_release b) s Q"
  unfolding bufcache_release_def
  by (intro typed guardedI) auto

section \<open>The log\<close>

lemma typed_superblock [typed]: "wt s \<Longrightarrow> (\<And>b t. wt t \<Longrightarrow> Q b t) \<Longrightarrow> guarded wt (read_superblock dev) s Q"
  unfolding read_superblock_def
  by (intro typed guardedI) auto

lemma typed_install [typed]: "wt s \<Longrightarrow> (\<And>t. wt t \<Longrightarrow> Q () t) \<Longrightarrow> guarded wt install_trans s Q"
  unfolding install_trans_def install_block_def
  by (intro typed guardedI guarded_kscan [where P = "\<lambda>_. True"]) (auto dest: wtD(14))

lemma typed_write_head [typed]: "wt s \<Longrightarrow> (\<And>t. wt t \<Longrightarrow> Q () t) \<Longrightarrow> guarded wt write_head s Q"
  unfolding write_head_def
  by (intro typed guardedI guarded_kfor) (auto dest: wtD(14))

lemma typed_begin_trans [typed]: "wt s \<Longrightarrow> (\<And>t. wt t \<Longrightarrow> Q () t) \<Longrightarrow> guarded wt begin_trans s Q"
  unfolding begin_trans_def
  by (intro typed guardedI guarded_kloop [where P = "\<lambda>_. True"]) auto

lemma typed_commit_trans [typed]: "wt s \<Longrightarrow> (\<And>t. wt t \<Longrightarrow> Q () t) \<Longrightarrow> guarded wt commit_trans s Q"
  unfolding commit_trans_def
  by (intro typed guardedI) auto

lemma log_slot_le:
  assumes "\<not> int LOGSIZE \<le> n"
  shows "log_slot h n sec < LOGSIZE" and "int (log_slot h n sec) = m \<Longrightarrow> m + 1 \<le> int LOGSIZE"
proof -
  have "log_slot h n sec \<le> nat n"
  proof (cases "find (\<lambda>i. h i = sec) [0..<nat n]")
    case (Some i)
    then have "i < nat n" by (auto simp: find_Some_iff)
    with Some show ?thesis by (simp add: log_slot_def)
  qed (simp add: log_slot_def)
  with assms show "log_slot h n sec < LOGSIZE" by (simp add: kconst)
  then show "int (log_slot h n sec) = m \<Longrightarrow> m + 1 \<le> int LOGSIZE" by auto
qed

lemma typed_log_write [typed]: "wt s \<Longrightarrow> b \<le> NBUF \<Longrightarrow> (\<And>t. wt t \<Longrightarrow> Q () t) \<Longrightarrow> guarded wt (log_write b) s Q"
  unfolding log_write_def
  by (intro typed guardedI) (auto simp: log_slot_le(1) intro: log_slot_le(2))

lemma typed_block_zero [typed]: "wt s \<Longrightarrow> (\<And>t. wt t \<Longrightarrow> Q () t) \<Longrightarrow> guarded wt (block_zero dev bno) s Q"
  unfolding block_zero_def
  by (intro typed guardedI) auto

lemma bitmap_byte: "bi < BPB \<Longrightarrow> bi div 8 < BSIZE"
  by (simp add: kconst)

lemma typed_block_free [typed]: "wt s \<Longrightarrow> (\<And>t. wt t \<Longrightarrow> Q () t) \<Longrightarrow> guarded wt (block_free dev bno) s Q"
  unfolding block_free_def
  by (intro typed guardedI bitmap_byte) (auto simp: kconst)

lemma typed_block_alloc [typed]: "wt s \<Longrightarrow> (\<And>a t. wt t \<Longrightarrow> Q a t) \<Longrightarrow> guarded wt (block_alloc dev) s Q"
  unfolding block_alloc_def
  by (intro typed guardedI bitmap_byte guarded_kscan [where P = "\<lambda>_. True"]) auto

section \<open>Inodes\<close>

lemma dinode_off_le: "dinode_off inum + 64 \<le> BSIZE"
proof -
  have "unat inum mod 8 \<le> 7" using mod_less_divisor [of 8 "unat inum"] by linarith
  then show ?thesis by (simp add: dinode_off_def kconst)
qed

lemma typed_ino [typed]:
  "wt s \<Longrightarrow> i < NINODE \<Longrightarrow> Q (g (inodes s i)) s \<Longrightarrow> guarded wt (get_ino i g) s Q"
  "wt s \<Longrightarrow> i < NINODE \<Longrightarrow> (\<And>t. wt t \<Longrightarrow> Q' () t) \<Longrightarrow> guarded wt (upd_ino i h) s Q'"
  by (simp_all add: get_ino_def upd_ino_def kguard)

lemma typed_addr [typed]:
  "wt s \<Longrightarrow> i < NINODE \<Longrightarrow> k < NDIRECT + 1 \<Longrightarrow> (\<And>a. Q a s) \<Longrightarrow> guarded wt (get_addr i k) s Q"
  "wt s \<Longrightarrow> i < NINODE \<Longrightarrow> k < NDIRECT + 1 \<Longrightarrow> (\<And>t. wt t \<Longrightarrow> Q' () t) \<Longrightarrow> guarded wt (set_addr i k a) s Q'"
  by (simp_all add: get_addr_def set_addr_def get_ino_def upd_ino_def kguard)

lemma icache_scan_range:
  "icache_scan I dev inum is e = Inl i \<Longrightarrow> i \<in> set is"
  "icache_scan I dev inum is e = Inr (Some i) \<Longrightarrow> i \<in> set is \<or> e = Some i"
  by (induction "is" arbitrary: e) (auto split: if_splits)

lemma typed_inode_get [typed]: "wt s \<Longrightarrow> (\<And>i t. wt t \<Longrightarrow> i < NINODE \<Longrightarrow> Q i t) \<Longrightarrow> guarded wt (inode_get dev inum) s Q"
  unfolding inode_get_def
  by (intro typed guardedI) (auto split: sum.split option.split intro!: typed guardedI dest: icache_scan_range)

lemma typed_inode_dup [typed]: "wt s \<Longrightarrow> i < NINODE \<Longrightarrow> (\<And>t. wt t \<Longrightarrow> Q i t) \<Longrightarrow> guarded wt (inode_dup i) s Q"
  unfolding inode_dup_def
  by (intro typed guardedI) auto

lemma typed_inode_alloc [typed]: "wt s \<Longrightarrow> (\<And>i t. wt t \<Longrightarrow> i < NINODE \<Longrightarrow> Q i t) \<Longrightarrow> guarded wt (inode_alloc dev ty) s Q"
  unfolding inode_alloc_def
  by (intro typed guardedI dinode_off_le guarded_kscan [where P = "\<lambda>i. i < NINODE"]) auto

lemma typed_inode_update [typed]: "wt s \<Longrightarrow> i < NINODE \<Longrightarrow> (\<And>t. wt t \<Longrightarrow> Q () t) \<Longrightarrow> guarded wt (inode_update i) s Q"
  unfolding inode_update_def
  by (intro typed guardedI dinode_off_le) auto

lemma typed_inode_lock [typed]: "wt s \<Longrightarrow> i < NINODE \<Longrightarrow> (\<And>t. wt t \<Longrightarrow> Q () t) \<Longrightarrow> guarded wt (inode_lock i) s Q"
  unfolding inode_lock_def
  by (intro typed guardedI dinode_off_le guarded_kloop [where P = "\<lambda>_. True"]) auto

lemma typed_inode_unlock [typed]: "wt s \<Longrightarrow> i < NINODE \<Longrightarrow> (\<And>t. wt t \<Longrightarrow> Q () t) \<Longrightarrow> guarded wt (inode_unlock i) s Q"
  unfolding inode_unlock_def
  by (intro typed guardedI) auto

lemma typed_bmap [typed]: "wt s \<Longrightarrow> i < NINODE \<Longrightarrow> (\<And>a t. wt t \<Longrightarrow> Q a t) \<Longrightarrow> guarded wt (bmap i bn) s Q"
  unfolding bmap_def
  by (intro typed guardedI) (auto simp: kconst)

lemma typed_inode_trunc [typed]: "wt s \<Longrightarrow> i < NINODE \<Longrightarrow> (\<And>t. wt t \<Longrightarrow> Q () t) \<Longrightarrow> guarded wt (inode_trunc i) s Q"
  unfolding inode_trunc_def
  by (intro typed guardedI guarded_kfor) (auto simp: kconst)

lemma typed_inode_put [typed]: "wt s \<Longrightarrow> i < NINODE \<Longrightarrow> (\<And>t. wt t \<Longrightarrow> Q () t) \<Longrightarrow> guarded wt (inode_put i) s Q"
  unfolding inode_put_def
  by (intro typed guardedI) auto

lemma typed_inode_unlockput [typed]: "wt s \<Longrightarrow> i < NINODE \<Longrightarrow> (\<And>t. wt t \<Longrightarrow> Q () t) \<Longrightarrow> guarded wt (inode_unlockput i) s Q"
  unfolding inode_unlockput_def
  by (intro typed guardedI) auto

lemma typed_inode_stat [typed]: "wt s \<Longrightarrow> i < NINODE \<Longrightarrow> (\<And>a. Q a s) \<Longrightarrow> guarded wt (inode_stat i) s Q"
  unfolding inode_stat_def
  by (intro typed guardedI) auto

lemma block_chunk_le: "off mod BSIZE + block_chunk n off \<le> BSIZE" "block_chunk n off \<le> n"
  using mod_less_divisor [of BSIZE off] by (simp_all add: block_chunk_def kconst)

text \<open>As many bytes are stored as the loop is asked for.\<close>

lemma typed_inode_read_loop [typed]:
  "wt s \<Longrightarrow> i < NINODE \<Longrightarrow> (\<And>bs t. wt t \<Longrightarrow> length bs = length dst + n \<Longrightarrow> Q bs t) \<Longrightarrow> guarded wt (inode_read_loop i n off dst) s Q"
proof (induction i n off dst arbitrary: s rule: inode_read_loop.induct)
  case (1 i n off dst)
  show ?case
    by (subst inode_read_loop.simps) (intro typed guardedI block_chunk_le 1(1), use 1(2-4) block_chunk_le(2) [of n off] in auto)
qed

lemma sint_le_unat: "sint (w :: u32) \<le> int (unat w)"
proof (cases "0 \<le> sint w")
  case True
  have "uint w = uint (word_of_int (sint w) :: u32)" by simp
  also have "\<dots> = sint w mod 2 ^ 32" by (simp only: uint_word_of_int) simp
  also have "\<dots> = sint w" using True sint_less [of w] by simp
  finally show ?thesis by simp
next
  case False
  then show ?thesis by linarith
qed

text \<open>At most as many bytes are read as the caller asks for.\<close>

lemma read_count_le:
  assumes "\<not> (off > sz \<or> off + n < off)"
  shows "unat (if off + n > sz then sz - off else n :: u32) \<le> unat n"
proof (cases "off + n > sz")
  case True
  have "off \<le> sz" "off \<le> off + n" using assms by (simp_all add: not_less)
  then have "unat (sz - off) = unat sz - unat off" "unat (off + n) = unat off + unat n"
    by (simp_all add: unat_sub unat_plus_simple)
  with True show ?thesis by (simp add: word_less_nat_alt)
qed simp

lemma typed_inode_read [typed]:
  assumes "wt s" and "i < NINODE" and "\<And>r bs t. wt t \<Longrightarrow> length bs \<le> unat n \<Longrightarrow> r \<le> int (unat n) \<Longrightarrow> Q (r, bs) t"
  shows "guarded wt (inode_read i off n) s Q"
proof -
  have "sint (if off + n > sz then sz - off else n) \<le> int (unat n)" if "\<not> (off > sz \<or> off + n < off)" for sz
    using sint_le_unat [of "if off + n > sz then sz - off else n"] read_count_le [OF that] by linarith
  then show ?thesis
    unfolding inode_read_def Let_def
    by (intro typed guardedI assms) (use read_count_le [of "i_size (inodes s i)" off n] in \<open>simp_all add: order.trans [OF _ uint_ge_0]\<close>)
qed

lemma typed_inode_write_loop [typed]:
  "wt s \<Longrightarrow> i < NINODE \<Longrightarrow> tot + n \<le> length src \<Longrightarrow> (\<And>t. wt t \<Longrightarrow> Q () t) \<Longrightarrow> guarded wt (inode_write_loop i src n off tot) s Q"
proof (induction i src n off tot arbitrary: s rule: inode_write_loop.induct)
  case (1 i src n off tot)
  show ?case
    by (subst inode_write_loop.simps) (intro typed guardedI block_chunk_le 1(1), use 1(2-5) block_chunk_le(2) [of n off] in auto)
qed

lemma typed_inode_write [typed]:
  "wt s \<Longrightarrow> i < NINODE \<Longrightarrow> unat n \<le> length src \<Longrightarrow> (\<And>a t. wt t \<Longrightarrow> Q a t) \<Longrightarrow> guarded wt (inode_write i src off n) s Q"
  unfolding inode_write_def
  by (intro typed guardedI) auto

section \<open>Directories and paths\<close>

lemma dirent_bytes_length [simp]: "length (dirent_bytes de) = DIRENT_SIZE"
  by (simp add: dirent_bytes_def)

lemma unat_dirent [simp]: "unat (word_of_nat DIRENT_SIZE :: u32) = DIRENT_SIZE"
  by (simp add: kconst)

lemma typed_read_dirent [typed]: "wt s \<Longrightarrow> i < NINODE \<Longrightarrow> (\<And>a t. wt t \<Longrightarrow> Q a t) \<Longrightarrow> guarded wt (read_dirent i off) s Q"
  unfolding read_dirent_def
  by (intro typed guardedI) auto

lemma typed_dir_lookup [typed]:
  "wt s \<Longrightarrow> i < NINODE \<Longrightarrow> (\<And>r t. wt t \<Longrightarrow> (\<And>j off. r = Some (j, off) \<Longrightarrow> j < NINODE) \<Longrightarrow> Q r t) \<Longrightarrow> guarded wt (dir_lookup i name) s Q"
  unfolding dir_lookup_def
  by (intro typed guardedI guarded_kscan [where P = "\<lambda>(j, off). j < NINODE"]) auto

lemma typed_dir_link [typed]: "wt s \<Longrightarrow> i < NINODE \<Longrightarrow> (\<And>r t. wt t \<Longrightarrow> Q r t) \<Longrightarrow> guarded wt (dir_link i name inum) s Q"
  unfolding dir_link_def
  by (intro typed guardedI guarded_kscan [where P = "\<lambda>_. True"]) auto

text \<open>The parser of paths writes to the array of the name only.\<close>

lemma skip_slashes_bounds: "skip_slashes path p \<noteq> Inl Fault"
  by (induction path p rule: skip_slashes.induct) (subst skip_slashes.simps, simp)

lemma copy_elem_bounds:
  "len < DIRSIZ \<Longrightarrow> copy_elem path p len name \<noteq> Inl Fault \<and> (\<forall>q len' name'. copy_elem path p len name = Inr (q, len', name') \<longrightarrow> len' < DIRSIZ)"
proof (induction path p len name rule: copy_elem.induct)
  case (1 path p len name)
  show ?case
  proof (cases "p < length path \<and> path ! p \<noteq> slash \<and> path ! p \<noteq> 0")
    case True
    show ?thesis
    proof (cases "len < DIRSIZ - 1")
      case l: True
      have "copy_elem path p len name = copy_elem path (Suc p) (Suc len) (name(len := path ! p))"
        using True l 1(3) by (simp add: copy_elem.simps [of path p] name_put_def)
      moreover have "Suc len < DIRSIZ" using l by simp
      then have "copy_elem path (Suc p) (Suc len) (name(len := path ! p)) \<noteq> Inl Fault \<and>
        (\<forall>q len' name'. copy_elem path (Suc p) (Suc len) (name(len := path ! p)) = Inr (q, len', name') \<longrightarrow> len' < DIRSIZ)"
        using True l 1(3) by (intro 1(1)) (auto simp: name_put_def)
      ultimately show ?thesis by simp
    next
      case False
      then show ?thesis using True 1(2,3) by (simp add: copy_elem.simps [of path p])
    qed
  qed (use 1(3) in \<open>auto simp: copy_elem.simps [of path p]\<close>)
qed

lemma skipelem_bounds: "skipelem path p name \<noteq> Inl Fault"
proof -
  have "copy_elem path a 0 name \<noteq> Inl Fault" "copy_elem path a 0 name = Inr (b, len, name') \<Longrightarrow> len < DIRSIZ" for a b len name'
    using copy_elem_bounds [of 0 path a name] by (auto simp: kconst)
  then show ?thesis
    using skip_slashes_bounds by (auto simp: skipelem_def name_put_def split: sum.splits)
qed

lemma typed_res [typed]: "r \<noteq> Inl Fault \<Longrightarrow> (\<And>x. r = Inr x \<Longrightarrow> Q x s) \<Longrightarrow> guarded wt (kres r) s Q"
  by (auto simp: kres_def kguard split: sum.splits)

lemma typed_namex_loop [typed]:
  "wt s \<Longrightarrow> i < NINODE \<Longrightarrow> (\<And>r nm t. wt t \<Longrightarrow> (\<And>j. r = Some j \<Longrightarrow> j < NINODE) \<Longrightarrow> Q (r, nm) t) \<Longrightarrow>
     guarded wt (namex_loop n path p np name i) s Q"
proof (induction n path p np name i arbitrary: s rule: namex_loop.induct)
  case (2 n path p np name i)
  show ?case
    unfolding namex_loop.simps
    by (intro typed guardedI skipelem_bounds 2(1,4)) (use 2(2,3) in simp_all)
qed (simp add: kguard)

lemma typed_namex [typed]:
  "wt s \<Longrightarrow> (\<And>r nm t. wt t \<Longrightarrow> (\<And>j. r = Some j \<Longrightarrow> j < NINODE) \<Longrightarrow> Q (r, nm) t) \<Longrightarrow> guarded wt (namex path np name) s Q"
  unfolding namex_def tcb_get_cwd_def
  by (intro typed guardedI) (auto simp: tcb_wt_def)

lemma typed_namei [typed]:
  "wt s \<Longrightarrow> (\<And>r t. wt t \<Longrightarrow> (\<And>j. r = Some j \<Longrightarrow> j < NINODE) \<Longrightarrow> Q r t) \<Longrightarrow> guarded wt (namei path name) s Q"
  unfolding namei_def
  by (intro typed guardedI) auto

lemma typed_nameiparent [typed]:
  "wt s \<Longrightarrow> (\<And>r nm t. wt t \<Longrightarrow> (\<And>j. r = Some j \<Longrightarrow> j < NINODE) \<Longrightarrow> Q (r, nm) t) \<Longrightarrow> guarded wt (nameiparent path name) s Q"
  unfolding nameiparent_def
  by (intro typed guardedI) auto

section \<open>Open files\<close>

lemma typed_file_close [typed]: "wt s \<Longrightarrow> f < NFILE \<Longrightarrow> (\<And>t. wt t \<Longrightarrow> Q () t) \<Longrightarrow> guarded wt (file_close f) s Q"
  unfolding file_close_def
  by (intro typed guardedI) auto

lemma typed_file_stat [typed]: "wt s \<Longrightarrow> f < NFILE \<Longrightarrow> (\<And>r t. wt t \<Longrightarrow> Q r t) \<Longrightarrow> guarded wt (file_stat_op f) s Q"
  unfolding file_stat_op_def
  by (intro typed guardedI) auto

lemma typed_file_read [typed]:
  "wt s \<Longrightarrow> f < NFILE \<Longrightarrow> (\<And>r bs t. wt t \<Longrightarrow> length bs \<le> unat n \<Longrightarrow> r \<le> int (unat n) \<Longrightarrow> Q (r, bs) t) \<Longrightarrow>
     guarded wt (file_read f n) s Q"
  unfolding file_read_def
  by (intro typed guardedI) (auto simp: order.trans [OF _ uint_ge_0])

lemma typed_file_write_chunk [typed]:
  assumes "wt s" and "f < NFILE" and "n \<le> length src" and "\<And>r t. wt t \<Longrightarrow> Q r t"
  shows "guarded wt (file_write_chunk f src n) s Q"
proof -
  have "unat (word_of_nat n :: u32) \<le> n" by (simp add: unat_of_nat)
  with assms(3) have "unat (word_of_nat n :: u32) \<le> length src" by simp
  then show ?thesis unfolding file_write_chunk_def by (intro typed guardedI assms(4)) (use assms in auto)
qed

lemma typed_file_write_loop [typed]:
  "wt s \<Longrightarrow> f < NFILE \<Longrightarrow> n \<le> length src \<Longrightarrow> (\<And>r t. wt t \<Longrightarrow> Q r t) \<Longrightarrow> guarded wt (file_write_loop f src n i) s Q"
proof (induction f src n i arbitrary: s rule: file_write_loop.induct)
  case (1 f src n i)
  show ?case
    by (subst file_write_loop.simps) (intro typed guardedI 1(1), use 1(2-5) in auto)
qed

lemma typed_file_write [typed]:
  "wt s \<Longrightarrow> f < NFILE \<Longrightarrow> nat n \<le> length src \<Longrightarrow> (\<And>r t. wt t \<Longrightarrow> Q r t) \<Longrightarrow> guarded wt (file_write f src n) s Q"
  unfolding file_write_def
  by (intro typed guardedI) auto

section \<open>System calls\<close>

lemmas trap_defs = syscall_get_arg1_def syscall_get_arg2_def syscall_get_arg3_def syscall_get_arg4_def syscall_get_arg5_def
  syscall_get_arg6_def syscall_set_errno_def syscall_set_retval1_def sys_fail_def

lemma typed_check_buf [typed]:
  "wt s \<Longrightarrow> (\<And>r t. wt t \<Longrightarrow> (r \<Longrightarrow> 0 < maxlen \<Longrightarrow> len < maxlen) \<Longrightarrow> Q r t) \<Longrightarrow> guarded wt (check_buf buf len maxlen) s Q"
  unfolding check_buf_def trap_defs
  by (intro typed guardedI) auto

lemma typed_fdalloc [typed]: "wt s \<Longrightarrow> f < NFILE \<Longrightarrow> (\<And>r t. wt t \<Longrightarrow> Q r t) \<Longrightarrow> guarded wt (fdalloc f) s Q"
  unfolding fdalloc_def tcb_get_openfiles_def tcb_set_openfiles_def
  by (intro typed guardedI guarded_kscan [where P = "\<lambda>_. True"]) (auto simp: tcb_wt_def)

lemma sint_unat: "0 \<le> sint (w :: u32) \<Longrightarrow> sint w < int n \<Longrightarrow> unat w < n"
proof -
  assume w: "0 \<le> sint w" "sint w < int n"
  have "uint w = uint (word_of_int (sint w) :: u32)" by simp
  also have "\<dots> = sint w mod 2 ^ 32" by (simp only: uint_word_of_int) simp
  also have "\<dots> = sint w" using w(1) sint_less [of w] by simp
  finally show "unat w < n" using w by (simp add: unat_eq_nat_uint nat_less_iff)
qed

lemma typed_fd_file [typed]:
  assumes "wt s" and "p < NUM_IDS" and "\<And>r. (\<And>f. r = Some f \<Longrightarrow> f < NFILE \<and> unat fd < NOFILE) \<Longrightarrow> Q r s"
  shows "guarded wt (fd_file p fd) s Q"
  unfolding fd_file_def tcb_get_openfiles_def
  by (intro typed guardedI assms) (use sint_unat [of fd NOFILE] in \<open>auto simp: tcb_wt_def\<close>)

lemma typed_is_inode_file [typed]:
  assumes "wt s" and "\<And>f. fo = Some f \<Longrightarrow> f < NFILE" and "\<And>r. (r \<Longrightarrow> fo \<noteq> None) \<Longrightarrow> Q r s"
  shows "guarded wt (is_inode_file fo) s Q"
  unfolding is_inode_file_def
  by (intro typed guardedI assms) auto

lemma typed_copy_path [typed]: "wt s \<Longrightarrow> len < PATH_MAX \<Longrightarrow> (\<And>r t. wt t \<Longrightarrow> Q r t) \<Longrightarrow> guarded wt (copy_path uva a len) s Q"
  unfolding copy_path_def kbytes_def
  by (intro typed guardedI) (auto simp: word_less_nat_alt)

lemma buf_limits [simp]: "0 < BUFLEN_MAX" "0 < PATH_MAX"
  by (simp_all add: kconst)







lemma typed_isdirempty [typed]: "wt s \<Longrightarrow> i < NINODE \<Longrightarrow> (\<And>r t. wt t \<Longrightarrow> Q r t) \<Longrightarrow> guarded wt (isdirempty i) s Q"
  unfolding isdirempty_def
  by (intro typed guardedI guarded_kscan [where P = "\<lambda>_. True"]) auto


lemma typed_create [typed]:
  "wt s \<Longrightarrow> (\<And>r t. wt t \<Longrightarrow> (\<And>i. r = Some i \<Longrightarrow> i < NINODE) \<Longrightarrow> Q r t) \<Longrightarrow> guarded wt (create path ty ma mi) s Q"
  unfolding create_def
  by (intro typed guardedI) auto

lemma typed_open_file_of [typed]: "wt s \<Longrightarrow> i < NINODE \<Longrightarrow> (\<And>t. wt t \<Longrightarrow> Q () t) \<Longrightarrow> guarded wt (open_file_of i om) s Q"
  unfolding open_file_of_def trap_defs file_set_inode_def
  by (intro typed guardedI) auto





section \<open>Any number of threads\<close>











end
