(* ===== verification/FileRead.thy ===== *)
theory FileRead
  imports Inode Journal
begin

text \<open>
  Reading a file: \<^verbatim>\<open>inode_read\<close> returns the bytes that the inode's direct and indirect blocks hold, and
  changes nothing on the disk.
\<close>

section \<open>The contents of a file\<close>

definition file_blk :: "inode \<Rightarrow> (u32 \<Rightarrow> block) \<Rightarrow> nat \<Rightarrow> u32" where
  "file_blk ip D bn = (if bn < NDIRECT then i_addrs ip bn else get32 (D (i_addrs ip NDIRECT)) (4 * (bn - NDIRECT)))"

definition file_byte :: "inode \<Rightarrow> (u32 \<Rightarrow> block) \<Rightarrow> nat \<Rightarrow> u8" where
  "file_byte ip D k = D (file_blk ip D (k div BSIZE)) (k mod BSIZE)"

text \<open>Every block up to the size of the file has been allocated.\<close>

definition allocated_file :: "inode \<Rightarrow> (u32 \<Rightarrow> block) \<Rightarrow> bool" where
  "allocated_file ip D = (unat (i_size ip) \<le> MAXFILE * BSIZE \<and>
     (\<forall>bn. bn * BSIZE < unat (i_size ip) \<longrightarrow> file_blk ip D bn \<noteq> 0 \<and> file_blk ip D bn < 2 ^ 28 \<and>
        (NDIRECT \<le> bn \<longrightarrow> i_addrs ip NDIRECT \<noteq> 0 \<and> i_addrs ip NDIRECT < 2 ^ 28)))"

section \<open>Block map\<close>

lemma ino_fields: "dsk.more t = dsk.more s \<Longrightarrow> inodes t = inodes s" for s t :: "'z ino_scheme"
  by (cases s; cases t; simp add: dsk.defs)

lemma completes_ino [kwp]:
  "completes E (get_ino i g) s Q = (i < NINODE \<and> Q (g (inodes s i)) s)"
  by (simp add: get_ino_def kwp)

lemma completes_addr [kwp]: "completes E (get_addr i k) s Q = (k < NDIRECT + 1 \<and> i < NINODE \<and> Q (i_addrs (inodes s i) k) s)"
  by (simp add: get_addr_def kwp)

lemma completes_bmap:
  fixes s :: "'z ino_scheme"
  assumes c: "cached p s D D {} Map.empty" and i: "i < NINODE" "i_dev (inodes s i) = ROOTDEV" "bn < MAXFILE"
    and blk: "file_blk (inodes s i) D bn \<noteq> 0" "NDIRECT \<le> bn \<Longrightarrow> i_addrs (inodes s i) NDIRECT \<noteq> 0 \<and> i_addrs (inodes s i) NDIRECT < 2 ^ 28"
    and g: "g D" and Q: "\<And>t. cached p t D D {} Map.empty \<Longrightarrow> dsk.more t = dsk.more s \<Longrightarrow> Q (file_blk (inodes s i) D bn) t"
  shows "completes (disk_env p g) (bmap i (of_nat bn)) s Q"
proof -
  have bn: "unat (of_nat bn :: u32) = bn" using i(3) by (simp add: kconst unat_of_nat)
  show ?thesis
  proof (cases "bn < NDIRECT")
    case True
    then show ?thesis using blk(1) Q [OF c refl] i by (simp add: bmap_def bn kwp file_blk_def)
  next
    case False
    let ?a = "i_addrs (inodes s i) NDIRECT"
    have a: "?a \<noteq> 0" "?a < 2 ^ 28" using blk(2) False by simp_all
    have "completes (disk_env p g) (bufcache_read ROOTDEV ?a) s (\<lambda>bp t. completes (disk_env p g) (get_buf bp b_data) t (\<lambda>d t.
        get32 d (4 * (bn - NDIRECT)) \<noteq> 0 \<and>
        completes (disk_env p g) (bufcache_release bp) t (\<lambda>_ t. Q (get32 d (4 * (bn - NDIRECT))) t)))"
    proof (rule completes_bufcache_read [OF c], goal_cases)
      case (5 b t)
      show ?case
        unfolding completes_held(1) [OF 5(2), of b ?a, simplified]
      proof (intro conjI, goal_cases)
        case 1
        then show ?case using blk(1) False by (simp add: file_blk_def)
      next
        case 2
        show ?case
          by (rule completes_bufcache_release [OF 5(2), where sec = ?a])
            (use Q 5(3) False in \<open>simp_all add: file_blk_def\<close>)
      qed
    qed (use a g in \<open>simp_all add: kconst\<close>)
    then show ?thesis
      using False i a(1) by (auto simp: bmap_def bn kwp Let_def kconst elim!: completes_mono)
  qed
qed

section \<open>Reading\<close>

lemma file_chunk:
  assumes "m = block_chunk left off"
  shows "map (D (file_blk ip D (off div BSIZE))) [off mod BSIZE..<off mod BSIZE + m] = map (file_byte ip D) [off..<off + m]"
proof (rule nth_equalityI)
  fix k assume "k < length (map (D (file_blk ip D (off div BSIZE))) [off mod BSIZE..<off mod BSIZE + m])"
  then have k: "k < m" by simp
  then have lt: "off mod BSIZE + k < BSIZE" using assms by (simp add: block_chunk_def less_diff_conv add.commute)
  define q r where "q = off div BSIZE" and "r = off mod BSIZE"
  have off: "off = BSIZE * q + r" by (simp add: q_def r_def)
  have lt': "r + k < BSIZE" using lt by (simp add: r_def)
  have "(off + k) div BSIZE = off div BSIZE" unfolding q_def [symmetric]
    by (rule div_nat_eqI) (use off lt' in simp_all)
  moreover have "(off + k) mod BSIZE = off mod BSIZE + k"
    using mod_add_left_eq [of off BSIZE k] lt by simp
  ultimately show "map (D (file_blk ip D (off div BSIZE))) [off mod BSIZE..<off mod BSIZE + m] ! k = map (file_byte ip D) [off..<off + m] ! k"
    using k by (simp add: file_byte_def)
qed simp

lemma completes_inode_read_loop:
  fixes s :: "'z ino_scheme"
  assumes "cached p s D D {} Map.empty" and "i < NINODE" "inodes s i = ip" "i_dev ip = ROOTDEV" "allocated_file ip D" "off + left \<le> unat (i_size ip)"
    and "g D" and "\<And>t. cached p t D D {} Map.empty \<Longrightarrow> dsk.more t = dsk.more s \<Longrightarrow> Q (dst @ map (file_byte ip D) [off..<off + left]) t"
  shows "completes (disk_env p g) (inode_read_loop i left off dst) s Q"
  using assms
proof (induction i left off dst arbitrary: s rule: inode_read_loop.induct)
  case (1 i left off dst)
  show ?case
  proof (cases "left = 0")
    case True
    then show ?thesis using 1(2,9) by (simp add: inode_read_loop.simps [of i 0] kwp)
  next
    case False
    let ?m = "block_chunk left off" and ?bn = "off div BSIZE"
    let ?a = "file_blk ip D ?bn"
    have m: "0 < ?m" "?m \<le> left" using False block_chunk_pos [of left off] by (simp_all add: block_chunk_def)
    have "?bn * BSIZE \<le> off" by simp
    then have "?bn * BSIZE < unat (i_size ip)" using 1(7) False by linarith
    then have a: "?a \<noteq> 0" "?a < 2 ^ 28" "NDIRECT \<le> ?bn \<Longrightarrow> i_addrs ip NDIRECT \<noteq> 0 \<and> i_addrs ip NDIRECT < 2 ^ 28" "?bn < MAXFILE"
      using 1(6) by (auto simp: allocated_file_def) (meson less_le_trans mult_less_cancel2)
    have "completes (disk_env p g) (bmap i (of_nat ?bn)) s (\<lambda>addr t. completes (disk_env p g) (bufcache_read ROOTDEV addr) t (\<lambda>bp t.
        completes (disk_env p g) (get_buf bp b_data) t (\<lambda>d t. completes (disk_env p g) (bufcache_release bp) t (\<lambda>_ t.
        completes (disk_env p g) (inode_read_loop i (left - ?m) (off + ?m) (dst @ map d [off mod BSIZE..<off mod BSIZE + ?m])) t Q))))"
    proof (rule completes_bmap [OF 1(2,3)], goal_cases)
      case (6 t)
      have ip: "inodes t i = ip" using ino_fields [OF 6(2)] 1(4) by simp
      show ?case
        unfolding 1(4)
      proof (rule completes_bufcache_read [OF 6(1)], goal_cases)
        case (5 b u)
        show ?case
          unfolding completes_held(1) [OF 5(2), of b ?a, simplified]
        proof (rule completes_bufcache_release [OF 5(2), where sec = ?a], goal_cases)
          case (3 v)
          have "dsk.more v = dsk.more s" using 3(2) 5(3) 6(2) by simp
          moreover have "[off..<off + left] = [off..<off + ?m] @ [off + ?m..<off + ?m + (left - ?m)]"
            using m upt_add_eq_append [of off "off + ?m" "left - ?m"] by simp
          ultimately show ?case
            using 3(1) m 1(3-9) ino_fields [of v s] file_chunk [OF refl, of D ip off left]
            by (intro 1(1) [OF False]) simp_all
        qed simp_all
      qed (use a 1(8) in \<open>simp_all add: kconst\<close>)
    qed (use 1(4,5,8) a in simp_all)
    moreover have "off mod BSIZE + ?m \<le> BSIZE" using mod_less_divisor [of BSIZE off] by (simp add: block_chunk_def kconst)
    ultimately show ?thesis using False 1(3-5) by (simp add: inode_read_loop.simps [of i left] kwp)
  qed
qed

text \<open>
  C10: \<^verbatim>\<open>inode_read\<close> returns exactly the bytes of the file from the offset on, across direct and
  indirect blocks, as many as were asked for and are before the end of the file; it fails for an offset
  behind the end and for a range that wraps around. It always returns, and nothing on the disk changes.
\<close>

theorem inode_read_correct:
  fixes s :: "'z ino_scheme"
  assumes "cached p s D D {} Map.empty" and "i < NINODE" and "ip = inodes s i" and "i_dev ip = ROOTDEV" and "i_type ip \<noteq> T_DEV"
    and "allocated_file ip D"
  shows "completes (disk_env p (\<lambda>E. E = D)) (inode_read i off n) s (\<lambda>(r, bs) t. cached p t D D {} Map.empty \<and> inodes t = inodes s \<and>
    (if unat (i_size ip) < unat off \<or> 2 ^ 32 \<le> unat off + unat n then r = -1 \<and> bs = []
     else bs = map (file_byte ip D) [unat off..<min (unat off + unat n) (unat (i_size ip))] \<and> r = int (length bs)))"
proof (cases "unat (i_size ip) < unat off \<or> 2 ^ 32 \<le> unat off + unat n")
  case True
  have "off > i_size ip \<or> off + n < off"
  proof (cases "unat (i_size ip) < unat off")
    case False
    with True have "\<not> off \<le> off + n" using no_olen_add_nat [of off n] by simp
    then show ?thesis unfolding not_le by (rule disjI2)
  qed (simp add: word_less_nat_alt)
  with True show ?thesis using assms(1-5) by (simp add: inode_read_def kwp)
next
  case False
  have off: "off \<le> i_size ip" using False by (simp add: word_le_nat_alt not_less)
  have wrap: "off \<le> off + n" using False no_olen_add_nat [of off n] by simp
  then have sum: "unat (off + n) = unat off + unat n" using False by (simp add: unat_word_ariths)
  define m where "m = (if off + n > i_size ip then i_size ip - off else n)"
  have m: "unat off + unat m = min (unat off + unat n) (unat (i_size ip))"
  proof (cases "off + n > i_size ip")
    case True
    then show ?thesis using off sum by (simp add: m_def word_less_nat_alt unat_sub word_le_nat_alt)
  next
    case False
    then show ?thesis using sum by (simp add: m_def word_less_nat_alt)
  qed
  have "unat (i_size ip) \<le> MAXFILE * BSIZE" using assms(6) by (simp add: allocated_file_def)
  moreover have "unat m \<le> unat (i_size ip)" using m by linarith
  ultimately have "unat m \<le> MAXFILE * BSIZE" by linarith
  then have sm: "sint m = int (unat m)" by (intro sint_small) (simp add: kconst)
  have "completes (disk_env p (\<lambda>E. E = D)) (inode_read_loop i (unat m) (unat off) []) s (\<lambda>dst t. cached p t D D {} Map.empty \<and> inodes t = inodes s \<and>
      dst = map (file_byte ip D) [unat off..<min (unat off + unat n) (unat (i_size ip))] \<and> sint m = int (length dst))"
  proof (rule completes_inode_read_loop [OF assms(1,2), where ip = ip], goal_cases)
    case (6 t)
    then show ?case unfolding m [symmetric] using ino_fields [of t s] sm by simp
  qed (use assms m in simp_all)
  moreover have "completes E (inode_read i off n) s Q = completes E (inode_read_loop i (unat m) (unat off) []) s (\<lambda>dst. Q (sint m, dst))" for E Q
  proof -
    have "\<not> i_size ip < off" "\<not> off + n < off" using off wrap by (simp_all only: not_less)
    then show ?thesis
      using assms(2,5) unfolding inode_read_def completes_kbind completes_ino assms(3) [symmetric] m_def
      by (simp add: Let_def completes_kbind completes_kret)
  qed
  ultimately show ?thesis using False by (simp only: if_False) (auto elim!: completes_mono)
qed

text \<open>A file of 520 bytes in blocks 100 and 101.\<close>

definition inode_ex :: inode where
  "inode_ex = \<lparr>i_dev = ROOTDEV, i_inum = 2, i_ref = 1, i_flags = I_BUSY OR I_VALID, i_type = T_FILE, i_major = 0, i_minor = 0, i_nlink = 1,
     i_size = 520, i_addrs = (\<lambda>_. 0)(0 := 100, 1 := 101)\<rparr>"

definition file_disk :: "u32 \<Rightarrow> block" where
  "file_disk = (\<lambda>_ _. 0)(100 := (\<lambda>_. 1), 101 := (\<lambda>_. 2))"

definition ino_ex :: ino where
  "ino_ex = lg.extend (dsk.extend (dsk_ex\<lparr>disk := \<lambda>_. file_disk\<rparr>) (lg.fields 0 0 False 0 0 (\<lambda>_. 0))) (ino.fields (\<lambda>_. inode_ex))"

lemma ino_ex_dsk: "locks ino_ex = locks dsk_ex" "pcpus ino_ex = pcpus dsk_ex" "CURID ino_ex = CURID dsk_ex"
  "ks_magic ino_ex = ks_magic dsk_ex" "ks_cpu_idx ino_ex = ks_cpu_idx dsk_ex" "TCBPool ino_ex = TCBPool dsk_ex"
  "TQueuePool ino_ex = TQueuePool dsk_ex" "bufs ino_ex = bufs dsk_ex" "idequeue ino_ex = idequeue dsk_ex"
  "havedisk1 ino_ex = havedisk1 dsk_ex" "ide_status ino_ex = ide_status dsk_ex" "disk ino_ex = (\<lambda>_. file_disk)" "inodes ino_ex = (\<lambda>_. inode_ex)"
  by (simp_all add: ino_ex_def dsk.defs lg.defs ino.defs)

lemma ino_ex_ok: "fs_ok 0 ino_ex"
  using dsk_ex_ok
  unfolding fs_ok_def cpu_ok_def kstack_ok_def lock_free_def sched_ok_def tq_repr_def ide_ready_def ino_ex_dsk .

definition ino_booted :: ino where
  "ino_booted = (case bufcache_init ino_ex of Ret _ t \<Rightarrow> t | _ \<Rightarrow> ino_ex)"

lemma ino_booted_cached: "cached 0 ino_booted file_disk file_disk {} Map.empty" "inodes ino_booted = (\<lambda>_. inode_ex)"
proof -
  have "returns bufcache_init ino_ex (\<lambda>_ t. cached 0 t file_disk file_disk {} Map.empty \<and> dsk.more t = dsk.more ino_ex)"
    using bufcache_init_cached [of 0 ino_ex] ino_ex_ok by (simp add: NUM_IDS_def ino_ex_dsk dsk_ex_flk buf0_def)
  then obtain t where t: "bufcache_init ino_ex = Ret () t" "cached 0 t file_disk file_disk {} Map.empty" "dsk.more t = dsk.more ino_ex"
    by (auto simp: returns_def split: outcome.splits)
  then show "cached 0 ino_booted file_disk file_disk {} Map.empty" "inodes ino_booted = (\<lambda>_. inode_ex)"
    using ino_fields [OF t(3)] by (simp_all add: ino_booted_def ino_ex_dsk)
qed

theorem inode_read_correct_witness:
  "completes (disk_env 0 (\<lambda>E. E = file_disk)) (inode_read 3 511 4) ino_booted (\<lambda>(r, bs) t. r = 4 \<and> bs = [1, 2, 2, 2])"
proof -
  have "allocated_file inode_ex file_disk"
    by (auto simp: allocated_file_def inode_ex_def file_disk_def file_blk_def kconst)
  then have "completes (disk_env 0 (\<lambda>E. E = file_disk)) (inode_read 3 511 4) ino_booted (\<lambda>(r, bs) t.
      cached 0 t file_disk file_disk {} Map.empty \<and> inodes t = inodes ino_booted \<and>
      (if unat (i_size inode_ex) < unat (511 :: u32) \<or> 2 ^ 32 \<le> unat (511 :: u32) + unat (4 :: u32) then r = -1 \<and> bs = []
       else bs = map (file_byte inode_ex file_disk) [unat (511 :: u32)..<min (unat (511 :: u32) + unat (4 :: u32)) (unat (i_size inode_ex))] \<and>
         r = int (length bs)))"
    using inode_read_correct [OF ino_booted_cached(1), of 3 inode_ex 511 4] by (simp add: ino_booted_cached(2) kconst inode_ex_def)
  then show ?thesis
    by (rule completes_mono)
      (auto simp: inode_ex_def upt_rec file_byte_def file_blk_def file_disk_def kconst)
qed

section \<open>Inodes on the disk\<close>

lemma bytes16: "ucast (ucast v :: u8) OR push_bit 8 (ucast (ucast (drop_bit 8 v) :: u8)) = (v :: 16 word)" (is "?a OR push_bit 8 ?b = v")
proof (rule bit_word_eqI)
  fix n assume n: "n < LENGTH(16)"
  have "bit (?a OR push_bit 8 ?b) n \<longleftrightarrow> n < 8 \<and> bit v n \<or> 8 \<le> n \<and> n - 8 < 8 \<and> bit v (8 + (n - 8))"
    using n by (simp only: bit_or_iff bit_push_bit_iff bit_low_byte bit_drop_bit_eq o_def) auto
  also have "\<dots> \<longleftrightarrow> bit v n" using n by (cases "n < 8") auto
  finally show "bit (?a OR push_bit 8 ?b) n = bit v n" .
qed

lemma get_put16 [simp]: "get16 (put16 a v d) a = v"
  using bytes16 [of v] by (simp add: get16_def put16_def)

lemma put_other:
  "k < a \<or> a + 4 \<le> k \<Longrightarrow> put32 a v d k = d k" "k < a \<or> a + 2 \<le> k \<Longrightarrow> put16 a w d k = d k"
  by (auto simp: put32_def put16_def)

lemma get_cong:
  "(\<And>k. a \<le> k \<Longrightarrow> k < a + 4 \<Longrightarrow> d k = e k) \<Longrightarrow> get32 d a = get32 e a" "(\<And>k. a \<le> k \<Longrightarrow> k < a + 2 \<Longrightarrow> d k = e k) \<Longrightarrow> get16 d a = get16 e a"
  by (simp_all add: get32_def get16_def)

lemma get16_other:
  "b + 2 \<le> a \<Longrightarrow> get16 (put32 a v d) b = get16 d b" "b + 2 \<le> a \<Longrightarrow> get16 (put16 a w d) b = get16 d b"
  "a + 2 \<le> b \<Longrightarrow> get16 (put16 a w d) b = get16 d b"
  by (rule get_cong, rule put_other, simp)+

lemma put_addrs_other: "k < a \<or> a + 4 * n \<le> k \<Longrightarrow> put_addrs a f n d k = d k"
  by (induction n) (auto simp: put_other)

lemma get_put_addrs: "k < n \<Longrightarrow> get32 (put_addrs a f n d) (a + 4 * k) = f k"
  by (induction n) (auto simp: get_put32_other less_Suc_eq)

lemma put_dinode_other: "k < a \<or> a + 64 \<le> k \<Longrightarrow> put_dinode a di d k = d k"
  by (auto simp: put_dinode_def put_addrs_other put_other kconst)

lemma get_put_dinode:
  fixes a di d defines "e \<equiv> get_dinode (put_dinode a di d) a"
  shows "d_type e = d_type di" "d_major e = d_major di" "d_minor e = d_minor di" "d_nlink e = d_nlink di" "d_size e = d_size di"
    "k \<le> NDIRECT \<Longrightarrow> d_addrs e k = d_addrs di k"
proof -
  let ?h = "put32 (a + 8) (d_size di) (put16 (a + 6) (d_nlink di) (put16 (a + 4) (d_minor di) (put16 (a + 2) (d_major di) (put16 a (d_type di) d))))"
  have g: "get16 (put_dinode a di d) b = get16 ?h b" if "b + 2 \<le> a + 12" for b
    unfolding put_dinode_def by (rule get_cong, rule put_addrs_other) (use that in simp)
  have g': "get32 (put_dinode a di d) (a + 8) = get32 ?h (a + 8)"
    unfolding put_dinode_def by (rule get_cong, rule put_addrs_other) simp
  have h: "get16 ?h a = d_type di" "get16 ?h (a + 2) = d_major di" "get16 ?h (a + 4) = d_minor di" "get16 ?h (a + 6) = d_nlink di"
    by (simp_all add: get16_other del: add_2_eq_Suc add_2_eq_Suc')
  show "d_type e = d_type di" "d_major e = d_major di" "d_minor e = d_minor di" "d_nlink e = d_nlink di" "d_size e = d_size di"
    by (simp_all add: e_def get_dinode_def g g' h del: add_2_eq_Suc add_2_eq_Suc')
  show "k \<le> NDIRECT \<Longrightarrow> d_addrs e k = d_addrs di k"
    unfolding e_def get_dinode_def put_dinode_def by (simp add: get_put_addrs del: put_addrs.simps add_Suc_right One_nat_def)
qed

lemma IBLOCK_inj: "IBLOCK i = IBLOCK j \<longleftrightarrow> unat i div 8 = unat j div 8"
proof -
  have "IBLOCK i = IBLOCK j \<longleftrightarrow> i div 8 = j div 8" by (simp add: IBLOCK_def kconst)
  also have "\<dots> \<longleftrightarrow> unat (i div 8) = unat (j div 8)" by (rule word_unat_eq_iff)
  finally show ?thesis by (simp add: unat_div)
qed

text \<open>
  C12: An inode lies inside its block, different inodes of a block do not overlap, and
  storing an inode changes its own 64 bytes only and is undone by loading it: every field is loaded as it was stored.
\<close>

theorem dinode_bounds:
  "dinode_off i + 64 \<le> BSIZE \<and>
   (IBLOCK i = IBLOCK j \<and> i \<noteq> j \<longrightarrow> dinode_off i + 64 \<le> dinode_off j \<or> dinode_off j + 64 \<le> dinode_off i) \<and>
   (\<forall>k. k < dinode_off i \<or> dinode_off i + 64 \<le> k \<longrightarrow> put_dinode (dinode_off i) di d k = d k) \<and>
   d_type (get_dinode (put_dinode (dinode_off i) di d) (dinode_off i)) = d_type di \<and>
   d_major (get_dinode (put_dinode (dinode_off i) di d) (dinode_off i)) = d_major di \<and>
   d_minor (get_dinode (put_dinode (dinode_off i) di d) (dinode_off i)) = d_minor di \<and>
   d_nlink (get_dinode (put_dinode (dinode_off i) di d) (dinode_off i)) = d_nlink di \<and>
   d_size (get_dinode (put_dinode (dinode_off i) di d) (dinode_off i)) = d_size di \<and>
   (\<forall>k \<le> NDIRECT. d_addrs (get_dinode (put_dinode (dinode_off i) di d) (dinode_off i)) k = d_addrs di k)"
proof -
  have "dinode_off i + 64 \<le> dinode_off j \<or> dinode_off j + 64 \<le> dinode_off i" if "IBLOCK i = IBLOCK j" "i \<noteq> j"
  proof -
    have "unat i div 8 = unat j div 8" using that(1) by (simp only: IBLOCK_inj)
    moreover have "unat i \<noteq> unat j" using that(2) word_unat_eq_iff [of i j] by simp
    ultimately have "unat i mod 8 \<noteq> unat j mod 8" by (metis div_mult_mod_eq)
    then show ?thesis by (simp add: dinode_off_def kconst) linarith
  qed
  moreover have "unat i mod 8 \<le> 7" using mod_less_divisor [of 8 "unat i"] by linarith
  then have "dinode_off i + 64 \<le> BSIZE" by (simp add: dinode_off_def kconst)
  ultimately show ?thesis using get_put_dinode [where a = "dinode_off i" and di = di and d = d] by (simp add: put_dinode_other)
qed

theorem dinode_bounds_witness:
  "IBLOCK 8 = IBLOCK 9 \<and> dinode_off 8 + 64 \<le> dinode_off 9 \<and>
   put_dinode (dinode_off 9) \<lparr>d_type = 3, d_major = 1, d_minor = 2, d_nlink = 1, d_size = 7, d_addrs = (\<lambda>_. 5)\<rparr> (\<lambda>_. 3) 63 = 3 \<and>
   d_minor (get_dinode (put_dinode (dinode_off 9) \<lparr>d_type = 3, d_major = 1, d_minor = 2, d_nlink = 1, d_size = 7, d_addrs = (\<lambda>_. 5)\<rparr> (\<lambda>_. 3))
     (dinode_off 9)) = 2 \<and>
   d_addrs (get_dinode (put_dinode (dinode_off 9) \<lparr>d_type = 3, d_major = 1, d_minor = 2, d_nlink = 1, d_size = 7, d_addrs = (\<lambda>_. 5)\<rparr> (\<lambda>_. 3))
     (dinode_off 9)) 12 = 5"
proof -
  have "IBLOCK 8 = IBLOCK 9" "dinode_off 8 = 0" "dinode_off 9 = 64" by (simp_all add: IBLOCK_inj dinode_off_def kconst)
  then show ?thesis
    using dinode_bounds [of 9 8 "\<lparr>d_type = 3, d_major = 1, d_minor = 2, d_nlink = 1, d_size = 7, d_addrs = (\<lambda>_. 5)\<rparr>" "\<lambda>_. 3"]
    by (simp add: kconst)
qed

end
