(* ===== verification/Path.thy ===== *)
theory Path
  imports Dir
begin

text \<open>
  The parser of path names, \<^verbatim>\<open>skipelem\<close>, visits exactly the non-empty elements between the slashes of a
  path, each cut to the length of a name in a directory.
\<close>

section \<open>Reference\<close>

text \<open>The pieces of a string between slashes, and those of a path that are not empty, cut to \<^verbatim>\<open>DIRSIZ - 1\<close> bytes.\<close>

fun split :: "u8 list \<Rightarrow> u8 list list" where
  "split [] = [[]]"
| "split (c # cs) = (if c = slash then [] # split cs else (c # hd (split cs)) # tl (split cs))"

definition path_elems :: "u8 list \<Rightarrow> u8 list list" where
  "path_elems cs = map (take (DIRSIZ - 1)) (filter (\<lambda>e. e \<noteq> []) (split cs))"

text \<open>The names that the loop of \<^verbatim>\<open>namex\<close> obtains from \<^verbatim>\<open>skipelem\<close>, with the given number of rounds.\<close>

definition cstring :: "(nat \<Rightarrow> u8) \<Rightarrow> u8 list" where
  "cstring name = takeWhile (\<lambda>c. c \<noteq> 0) (map name [0..<DIRSIZ])"

fun path_names :: "nat \<Rightarrow> u8 list \<Rightarrow> nat \<Rightarrow> (nat \<Rightarrow> u8) \<Rightarrow> stop + u8 list list" where
  "path_names 0 path p name = Inl Spin"
| "path_names (Suc n) path p name = (case skipelem path p name of
       Inl e \<Rightarrow> Inl e
     | Inr (None, name) \<Rightarrow> Inr []
     | Inr (Some p, name) \<Rightarrow> map_sum id (\<lambda>es. cstring name # es) (path_names n path p name))"

lemma split_not_Nil [simp]: "split cs \<noteq> []"
  by (cases cs) auto

lemma split_slashes: "\<forall>c \<in> set bs. c = slash \<Longrightarrow> path_elems (bs @ cs) = path_elems cs"
  by (induction bs) (simp_all add: path_elems_def)

lemma split_elem: "\<forall>c \<in> set es. c \<noteq> slash \<Longrightarrow> split (es @ slash # cs) = es # split cs" "\<forall>c \<in> set es. c \<noteq> slash \<Longrightarrow> split es = [es]"
  by (induction es) simp_all

lemma path_elems_Cons:
  assumes "\<forall>c \<in> set es. c \<noteq> slash" and "es \<noteq> []" and "cs = [] \<or> hd cs = slash"
  shows "path_elems (es @ cs) = take (DIRSIZ - 1) es # path_elems cs"
proof (cases cs)
  case Nil
  then show ?thesis using split_elem(2) [OF assms(1)] assms(2) by (simp add: path_elems_def)
next
  case (Cons c cs')
  then show ?thesis using split_elem(1) [OF assms(1), of cs'] assms(2,3) by (simp add: path_elems_def)
qed

section \<open>The parser\<close>

lemma skip_slashes_Inr:
  assumes "p \<le> n" and "n < length path" and "path ! n \<noteq> slash"
  shows "\<exists>q. skip_slashes path p = Inr q \<and> p \<le> q \<and> q \<le> n \<and> path ! q \<noteq> slash \<and> (\<forall>i. p \<le> i \<and> i < q \<longrightarrow> path ! i = slash)"
  using assms
proof (induction "n - p" arbitrary: p)
  case 0
  then show ?case by (intro exI [of _ p]) (auto simp: skip_slashes.simps [of path p])
next
  case (Suc m)
  show ?case
  proof (cases "path ! p = slash")
    case True
    with Suc.prems have "p \<noteq> n" by auto
    with Suc.prems Suc(2) have "m = n - Suc p" "Suc p \<le> n" by simp_all
    then obtain q where q: "skip_slashes path (Suc p) = Inr q" "Suc p \<le> q" "q \<le> n" "path ! q \<noteq> slash"
      "\<forall>i. Suc p \<le> i \<and> i < q \<longrightarrow> path ! i = slash"
      using Suc(1) [of "Suc p"] Suc.prems(2,3) by auto
    have "path ! i = slash" if "p \<le> i" "i < q" for i using q(5) True that by (cases "i = p") auto
    with q True Suc.prems show ?thesis by (intro exI [of _ q]) (simp add: skip_slashes.simps [of path p])
  next
    case False
    then show ?thesis using Suc.prems by (intro exI [of _ p]) (auto simp: skip_slashes.simps [of path p])
  qed
qed

lemma copy_elem_Inr:
  assumes "p \<le> n" and "n < length path" and "path ! n = 0" and "len < DIRSIZ"
  shows "\<exists>q. p \<le> q \<and> q \<le> n \<and> (\<forall>i. p \<le> i \<and> i < q \<longrightarrow> path ! i \<noteq> slash \<and> path ! i \<noteq> 0) \<and> (path ! q = slash \<or> path ! q = 0) \<and>
    copy_elem path p len name = Inr (q, min (len + (q - p)) (DIRSIZ - 1),
      \<lambda>i. if len \<le> i \<and> i < min (len + (q - p)) (DIRSIZ - 1) then path ! (p + (i - len)) else name i)"
  using assms
proof (induction "n - p" arbitrary: p len name)
  case 0
  then show ?case by (intro exI [of _ p]) (auto simp: copy_elem.simps [of path p] fun_eq_iff)
next
  case (Suc m)
  show ?case
  proof (cases "path ! p \<noteq> slash \<and> path ! p \<noteq> 0")
    case True
    with Suc.prems have "p \<noteq> n" by auto
    define len' where "len' = (if len < DIRSIZ - 1 then Suc len else len)"
    define name' where "name' = (if len < DIRSIZ - 1 then name(len := path ! p) else name)"
    have step: "copy_elem path p len name = copy_elem path (Suc p) len' name'"
      using True Suc.prems by (simp add: copy_elem.simps [of path p] len'_def name'_def name_put_def)
    have "m = n - Suc p" "Suc p \<le> n" using \<open>p \<noteq> n\<close> Suc.prems Suc(2) by simp_all
    moreover have "len' < DIRSIZ" using Suc.prems(4) by (simp add: len'_def kconst)
    ultimately obtain q where q: "Suc p \<le> q" "q \<le> n" "\<forall>i. Suc p \<le> i \<and> i < q \<longrightarrow> path ! i \<noteq> slash \<and> path ! i \<noteq> 0"
      "path ! q = slash \<or> path ! q = 0"
      "copy_elem path (Suc p) len' name' = Inr (q, min (len' + (q - Suc p)) (DIRSIZ - 1),
        \<lambda>i. if len' \<le> i \<and> i < min (len' + (q - Suc p)) (DIRSIZ - 1) then path ! (Suc p + (i - len')) else name' i)"
      using Suc(1) [of "Suc p" len' name'] Suc.prems(2,3) by blast
    have "path ! i \<noteq> slash \<and> path ! i \<noteq> 0" if "p \<le> i" "i < q" for i using q(3) True that by (cases "i = p") auto
    moreover have "min (len' + (q - Suc p)) (DIRSIZ - 1) = min (len + (q - p)) (DIRSIZ - 1)"
      using q(1) Suc.prems(4) by (auto simp: len'_def kconst)
    moreover have shift: "Suc (p + i - Suc len) = p + i - len" if "Suc len \<le> i" for i using that by simp
    moreover have "(if len' \<le> i \<and> i < min (len + (q - p)) (DIRSIZ - 1) then path ! (Suc p + (i - len')) else name' i) =
        (if len \<le> i \<and> i < min (len + (q - p)) (DIRSIZ - 1) then path ! (p + (i - len)) else name i)" for i
      using q(1) Suc.prems(4) by (auto simp: len'_def name'_def le_Suc_eq not_le shift)
    ultimately show ?thesis using q step by (intro exI [of _ q]) simp
  next
    case False
    then show ?thesis using Suc.prems by (intro exI [of _ p]) (auto simp: copy_elem.simps [of path p] fun_eq_iff)
  qed
qed

lemma cstring_elem:
  assumes "\<And>i. i < k \<Longrightarrow> name i \<noteq> 0" and "name k = 0" and "k < DIRSIZ"
  shows "cstring name = map name [0..<k]"
proof -
  have "[0..<DIRSIZ] = [0..<k] @ k # [Suc k..<DIRSIZ]"
    using upt_add_eq_append [of 0 k "DIRSIZ - k"] assms(3) by (simp add: upt_conv_Cons)
  then have "cstring name = takeWhile (\<lambda>c. c \<noteq> 0) (map name [0..<k] @ name k # map name [Suc k..<DIRSIZ])"
    by (simp add: cstring_def)
  also have "\<dots> = map name [0..<k]" using assms(1,2) by (subst takeWhile_append2) auto
  finally show ?thesis .
qed

text \<open>One call of the parser on a path that ends at \<open>n\<close>.\<close>

lemma skipelem_Inr:
  assumes "p \<le> n" and "path ! n = 0" and "\<forall>i. p \<le> i \<and> i < n \<longrightarrow> path ! i \<noteq> 0" and "n < length path"
  shows "(path_elems (map ((!) path) [p..<n]) = [] \<and> skipelem path p name = Inr (None, name)) \<or>
    (\<exists>q name'. skipelem path p name = Inr (Some q, name') \<and> p < q \<and> q \<le> n \<and>
       path_elems (map ((!) path) [p..<n]) = cstring name' # path_elems (map ((!) path) [q..<n]))"
proof -
  have n: "path ! n \<noteq> slash" using assms(2) by (simp add: kconst)
  obtain a where a: "skip_slashes path p = Inr a" "p \<le> a" "a \<le> n" "path ! a \<noteq> slash" "\<forall>i. p \<le> i \<and> i < a \<longrightarrow> path ! i = slash"
    using skip_slashes_Inr [of p n path, OF assms(1,4) n] by auto
  have pa: "path_elems (map ((!) path) [p..<n]) = path_elems (map ((!) path) [a..<n])"
    using split_slashes [of "map ((!) path) [p..<a]" "map ((!) path) [a..<n]"] a(2,3,5)
      upt_add_eq_append [of p a "n - a"] by auto
  show ?thesis
  proof (cases "a = n")
    case True
    then have "path_elems (map ((!) path) [p..<n]) = []" using pa by (simp add: path_elems_def)
    then show ?thesis using True a(1) assms(2) by (simp add: skipelem_def name_put_def kconst)
  next
    case False
    then have an: "a < n" "path ! a \<noteq> 0" using a(2,3) assms(3) by auto
    obtain b where b: "a \<le> b" "b \<le> n" "\<forall>i. a \<le> i \<and> i < b \<longrightarrow> path ! i \<noteq> slash \<and> path ! i \<noteq> 0" "path ! b = slash \<or> path ! b = 0"
      "copy_elem path a 0 name = Inr (b, min (b - a) (DIRSIZ - 1), \<lambda>i. if i < min (b - a) (DIRSIZ - 1) then path ! (a + i) else name i)"
      using copy_elem_Inr [of a n path 0 name, OF a(3) assms(4,2)] by (auto simp: kconst cong: if_cong)
    let ?k = "min (b - a) (DIRSIZ - 1)"
    let ?name = "(\<lambda>i. if i < ?k then path ! (a + i) else name i)(?k := 0)"
    have "a < b" using b(1,4) an(2) a(4) by (cases "a = b") auto
    obtain q where q: "skip_slashes path b = Inr q" "b \<le> q" "q \<le> n" "\<forall>i. b \<le> i \<and> i < q \<longrightarrow> path ! i = slash"
      using skip_slashes_Inr [of b n path, OF b(2) assms(4) n] by auto
    have c: "cstring ?name = take (DIRSIZ - 1) (map ((!) path) [a..<b])"
    proof -
      have "cstring ?name = map ?name [0..<?k]"
        using b(3) by (intro cstring_elem) (auto simp: kconst)
      also have "\<dots> = take (DIRSIZ - 1) (map ((!) path) [a..<b])"
        by (rule nth_equalityI) auto
      finally show ?thesis .
    qed
    have "path_elems (map ((!) path) [a..<n]) = take (DIRSIZ - 1) (map ((!) path) [a..<b]) # path_elems (map ((!) path) [b..<n])"
    proof -
      have "map ((!) path) [b..<n] = [] \<or> hd (map ((!) path) [b..<n]) = slash"
        using b(2,4) assms(3) a(2) b(1) by (cases "b = n") (auto simp: hd_map)
      then show ?thesis
        using path_elems_Cons [of "map ((!) path) [a..<b]" "map ((!) path) [b..<n]"] b \<open>a < b\<close> upt_add_eq_append [of a b "n - b"] by auto
    qed
    moreover have "path_elems (map ((!) path) [b..<n]) = path_elems (map ((!) path) [q..<n])"
      using split_slashes [of "map ((!) path) [b..<q]" "map ((!) path) [q..<n]"] q(2-4) upt_add_eq_append [of b q "n - q"] by auto
    moreover have "skipelem path p name = Inr (Some q, ?name)"
      using a(1) an(2) b(5) q(1) by (simp add: skipelem_def name_put_def kconst)
    ultimately show ?thesis using pa c a(2) \<open>a < b\<close> q(2,3) by (intro disjI2 exI [of _ q] exI [of _ ?name]) simp
  qed
qed

text \<open>
  C11: The names that path resolution obtains one after the other from \<^verbatim>\<open>skipelem\<close> are the non-empty
  pieces between the slashes of the path, each cut to 13 bytes; the number of rounds needed is at most the
  length of the path plus one, so that the loop of \<^verbatim>\<open>namex\<close> ends. Nothing is read behind the terminator of a path
  that has one in its array, and nothing is written outside the array of the name.
\<close>

theorem path_names_split:
  assumes "p \<le> n" and "n < length path" and "path ! n = 0" and "\<forall>i. p \<le> i \<and> i < n \<longrightarrow> path ! i \<noteq> 0" and "n - p < rounds"
  shows "path_names rounds path p name = Inr (path_elems (map ((!) path) [p..<n]))"
  using assms
proof (induction rounds arbitrary: p name)
  case (Suc rounds)
  from skipelem_Inr [of p n path name, OF Suc.prems(1,3,4,2)] show ?case
  proof (elim disjE exE conjE)
    fix q name' assume q: "skipelem path p name = Inr (Some q, name')" "p < q" "q \<le> n"
      "path_elems (map ((!) path) [p..<n]) = cstring name' # path_elems (map ((!) path) [q..<n])"
    with Suc.prems have "path_names rounds path q name' = Inr (path_elems (map ((!) path) [q..<n]))" by (intro Suc.IH) auto
    with q show ?thesis by simp
  qed simp
qed simp

theorem path_names_split_witness: "path_names 6 [47, 97, 47, 47, 98, 0] 0 (\<lambda>_. 0) = Inr [[97], [98]]"
proof -
  have "map ((!) [47, 97, 47, 47, 98, 0 :: u8]) [0..<5] = [47, 97, 47, 47, 98]" by code_simp
  moreover have "path_elems [47, 97, 47, 47, 98] = [[97], [98]]" by (simp add: path_elems_def kconst)
  moreover have "\<forall>i. 0 \<le> i \<and> i < 5 \<longrightarrow> [47, 97, 47, 47, 98, 0 :: u8] ! i \<noteq> 0"
  proof (intro allI impI)
    fix i :: nat assume "0 \<le> i \<and> i < 5"
    then consider "i = 0" | "i = 1" | "i = 2" | "i = 3" | "i = 4" by linarith
    then show "[47, 97, 47, 47, 98, 0 :: u8] ! i \<noteq> 0" by cases simp_all
  qed
  ultimately show ?thesis
    using path_names_split [of 0 5 "[47, 97, 47, 47, 98, 0]" 6 "\<lambda>_. 0"] by simp
qed

section \<open>Paths without a terminator\<close>






end
