(* ===== verification/Spec2Isabelle.thy ===== *)
theory Spec2Isabelle
  imports Transaction MemSafe FileRead Path
begin

text \<open>
  Verification of the mCertiKOS kernel with advisory file locks, \<^verbatim>\<open>src/mcertikos/kern/\<close>.

  \<^bold>\<open>The program.\<close> The kernel is a stack of layers. The boot loader's memory map
  (\<^verbatim>\<open>dev/mboot.c\<close>) initialises the physical page allocator (\<^verbatim>\<open>pmm/MATIntro\<close>, \<^verbatim>\<open>MATInit\<close>, \<^verbatim>\<open>MATOp\<close>), on
  which resource containers account for the pages of each process (\<^verbatim>\<open>pmm/MContainer\<close>). Page tables
  (\<^verbatim>\<open>vmm/\<close>) take their pages from the containers, and \<^verbatim>\<open>lib/pmap.c\<close> and \<^verbatim>\<open>lib/elf.c\<close> reach user memory
  through the page tables. Threads (\<^verbatim>\<open>thread/\<close>) have control blocks that are linked into queues, kernel
  contexts and a scheduler with sleep and wakeup. The file system (\<^verbatim>\<open>fs/\<close>, \<^verbatim>\<open>dev/disk/\<close>) is an IDE driver,
  a buffer cache, a redo log, inodes, directories, path names, open files and the system calls on
  them. File locks (\<^verbatim>\<open>flock/flock.c\<close>, \<^verbatim>\<open>file_flock\<close> of \<^verbatim>\<open>fs/file.c\<close>) are kept in the inodes and build
  on spinlocks (\<^verbatim>\<open>lib/spinlock.c\<close>) and on sleep and wakeup.

  \<^bold>\<open>Kernel code as a monad.\<close> Theory \<open>Prelude\<close> defines the type of kernel code: a function from the
  state to an outcome. An outcome is a result with the next state, a stop (\<open>Panic\<close> for \<^verbatim>\<open>KERN_PANIC\<close> and
  failed assertions, \<open>Fault\<close> for an index or address outside what the code may access and for
  undefined arithmetic, \<open>Null\<close> for an access through a null pointer, \<open>Unterminated\<close> for a search for the
  terminator of a string that leaves its array, \<open>Spin\<close> for a loop that never
  ends), or \<open>Sleep c s k\<close>: the thread gives up the
  processor in state \<open>s\<close> on channel \<open>c\<close>, and \<open>k\<close> continues in the state in which it is resumed.
  Outcomes form a codatatype, so that a loop that sleeps for ever is an outcome as well. \<open>returns\<close>,
  \<open>completes\<close>, \<open>sleeps\<close> and \<open>safe\<close> are judgements about outcomes that exclude stops; the coinductive
  \<open>guarded\<close> excludes \<open>Fault\<close> only and requires an invariant wherever the thread sleeps.
  The state is a record that each layer extends by its own fields, so that the operations of a
  layer apply to the states of the layers above.

  \<^bold>\<open>Theories and what they show.\<close>
  \<^item> \<open>Spinlock\<close>: \<^verbatim>\<open>lib/spinlock.c\<close>, \<^verbatim>\<open>lib/reentrant_lock.c\<close>. The locks as used by one processor, and the
    interleaving of the processors' instructions as a step relation: mutual exclusion, exactness of
    \<^verbatim>\<open>spinlock_holding\<close>, nesting of reentrant locks.
  \<^item> \<open>KLib\<close>: \<^verbatim>\<open>lib/types.c\<close>, \<^verbatim>\<open>lib/string.c\<close>. \<^verbatim>\<open>memmove\<close> copies the old contents also for overlapping blocks;
    the bytes \<^verbatim>\<open>strncpy\<close> stores and the result of \<^verbatim>\<open>strncmp\<close>; termination of \<^verbatim>\<open>strcmp\<close>.
  \<^item> \<open>Mboot\<close>, \<open>MAT\<close>, \<open>Container\<close>: the sorted memory map covers the ranges below 4 GB that the boot loader reported; only pages of
    usable RAM are offered; \<^verbatim>\<open>palloc\<close> finds a free page whenever there is one; the accounting invariant
    of the containers and what each operation does to it.
  \<^item> \<open>VMM\<close>, \<open>UserMem\<close>: the effect of mapping, unmapping and allocating pages on the translation of
    addresses and, for allocation, on the accounts of the process; the kernel's identity mapping; \<^verbatim>\<open>pt_copyin\<close> copies what the page tables map.
  \<^item> \<open>PCPU\<close>, \<open>TQueue\<close>, \<open>Thread\<close>: the queues of thread control blocks refine lists (locale
    \<open>thread_queue\<close>, interpreted on the index-linked queues, and the scheduler proved over it);
    yielding is a round robin; sleep and wakeup.
  \<^item> \<open>Flock\<close>, \<open>FlockSys\<close>: the lock operations, and the system of threads that call \<^verbatim>\<open>file_flock\<close>,
    \<^verbatim>\<open>file_alloc\<close> and \<^verbatim>\<open>file_close\<close> in any order as a step relation in which a call that sleeps is
    suspended and resumed; \<^verbatim>\<open>file_dup\<close>, which no code calls, is defined but not a step. In every reachable
    state: mutual exclusion, priority of writers, agreement of the lock records and the wait queues with
    the holders and waiters; and if the lock is free while a thread sleeps on it, a thread that is queued
    for the exclusive lock is awake and takes it as soon as it runs. The steps resume any suspended
    thread: that the scheduler gets to it is not assumed and not shown.
  \<^item> \<open>Disk\<close>, \<open>Log\<close>, \<open>Inode\<close>, \<open>Dir\<close>, \<open>File\<close>, \<open>SysFile\<close>: the operations of the file system, from the IDE
    driver (\<^verbatim>\<open>dev/disk/ide.c\<close>) and the buffer cache (\<^verbatim>\<open>fs/bufcache.c\<close>) to the system calls (\<^verbatim>\<open>fs/sysfile.c\<close>).
  \<^item> \<open>Driver\<close>, \<open>Cache\<close>: a request to the driver sleeps until the interrupt and then transfers its
    block; sequences of reads and writes through the buffer cache refine an array of blocks.
  \<^item> \<open>Journal\<close>, \<open>Transaction\<close>: the redo log of \<^verbatim>\<open>fs/log.c\<close>. A crash at any moment of a sequence of
    transactions leaves a disk from which recovery produces the result of a number of complete
    transactions, and the start of the system carries that recovery out.
  \<^item> \<open>MemSafe\<close>: a typing of the file system's state that all system calls and the disk interrupt
    keep, in any interleaving; no call leaves the bounds of the arrays it accesses: the tables of the kernel,
    the wait queues, the blocks and the structures in them, the block addresses of an inode, \<^verbatim>\<open>fsbuf\<close>, the
    arrays a path and its elements are copied to, directory entries and \<^verbatim>\<open>struct file_stat\<close>. Exempt is the search
    for the terminator of a path, the stop \<open>Unterminated\<close>. The memory behind the page tables is the
    subject of \<open>UserMem\<close>.
  \<^item> \<open>FileRead\<close>: \<^verbatim>\<open>inode_read\<close> returns the bytes of the file, and the layout of inodes in their blocks.
  \<^item> \<open>Path\<close>: \<^verbatim>\<open>skipelem\<close> takes a path apart at its slashes, and runs out of the array if it has no terminator.

  \<^bold>\<open>Integers, bounds and fuel.\<close> Machine words are \<open>u8\<close>, \<open>u32\<close> with wrap-around; signed C arithmetic that
  could overflow is guarded by \<open>kdefined\<close>. Array indices are natural numbers checked by \<open>kindex\<close>, and blocks of bytes by \<open>kspan\<close>.
  Counters that count threads or open files are integers. The loop of \<^verbatim>\<open>namex\<close> has one more than the length of the
  path's array as fuel: every round consumes a character of the path. The loop of \<^verbatim>\<open>install_trans\<close> reads the length of
  the log header in every round and is given \<open>LOGSIZE + 1\<close> rounds: an index past the header's array
  is a \<open>Fault\<close> before they are used up. Loops without a bound are
  \<open>while_option\<close>, \<open>partial_function (option)\<close> or \<open>kloop\<close>.

  \<^bold>\<open>Not modelled.\<close> The boot loader and the assembly that programs the processor (segments, interrupt
  tables, the start of further processors); the trap entry, the dispatch of system calls, the
  start of user processes and the calls of \<^verbatim>\<open>trap/TSyscall\<close>; the interrupt controllers and timers, but for
  the two functions the disk driver calls; the console, keyboard, serial and video drivers;
  formatted output and the kernel monitor; the user programs and the user library; \<^verbatim>\<open>mkfs\<close>. They are
  device input and output or code that runs outside the kernel, and no theorem depends on them.
\<close>

end
